(* ===== verification/Builder_Prelude.thy ===== *)
theory Builder_Prelude
  imports Main "HOL-Library.Word"
begin

text \<open>
  Shared vocabulary of the development.

  \<^item> The machine types of the Rust sources as words of their width: \<open>u8\<close>, \<open>u32\<close>,
    \<open>u64\<close>, \<open>u256\<close> (\<open>SU256\<close>/\<open>U256\<close>), \<open>h160\<close> (\<open>SH160\<close>, account addresses) and
    \<open>h256\<close> (\<open>SH256\<close>, hashes).  The order of the words is the order the sources use on
    these types (unsigned, big endian).
  \<^item> Raw \<open>u64\<close>/\<open>usize\<close> arithmetic of the sources wraps: the enclave's release profile sets
    \<open>overflow-checks = false\<close> (\<open>src/bin/sgx/Cargo.toml\<close>).  The operators of the big integer
    types panic on overflow in every profile; \<open>chk_add\<close>, \<open>chk_sub\<close>, \<open>chk_mul\<close> and
    \<open>chk_div\<close> give \<open>None\<close> for the panic.
  \<^item> Generic lemmas on lists that the components share.
\<close>

type_synonym u8 = "8 word"
type_synonym u32 = "32 word"
type_synonym u64 = "64 word"
type_synonym u256 = "256 word"
type_synonym h160 = "160 word"
type_synonym h256 = "256 word"

named_theorems chk_simps \<open>reading the checked machine arithmetic over the naturals\<close>

section \<open>Checked arithmetic\<close>

definition chk_add :: "'a::len word \<Rightarrow> 'a word \<Rightarrow> 'a word option" where
  "chk_add a b = (if uint a + uint b < 2 ^ LENGTH('a) then Some (a + b) else None)"

definition chk_sub :: "'a::len word \<Rightarrow> 'a word \<Rightarrow> 'a word option" where
  "chk_sub a b = (if b \<le> a then Some (a - b) else None)"

definition chk_mul :: "'a::len word \<Rightarrow> 'a word \<Rightarrow> 'a word option" where
  "chk_mul a b = (if uint a * uint b < 2 ^ LENGTH('a) then Some (a * b) else None)"

definition chk_div :: "'a::len word \<Rightarrow> 'a word \<Rightarrow> 'a word option" where
  "chk_div a b = (if b = 0 then None else Some (a div b))"

definition sat_sub :: "'a::len word \<Rightarrow> 'a word \<Rightarrow> 'a word" where
  "sat_sub a b = (if b \<le> a then a - b else 0)"

lemma chk_add_if: "chk_add (a::'a::len word) b = (if unat a + unat b < 2 ^ LENGTH('a) then Some (a + b) else None)"
proof -
  have "uint a + uint b < 2 ^ LENGTH('a) \<longleftrightarrow> int (unat a + unat b) < int (2 ^ LENGTH('a))"
    by simp
  then show ?thesis by (simp only: chk_add_def of_nat_less_iff)
qed

lemma chk_mul_if: "chk_mul (a::'a::len word) b = (if unat a * unat b < 2 ^ LENGTH('a) then Some (a * b) else None)"
proof -
  have "uint a * uint b < 2 ^ LENGTH('a) \<longleftrightarrow> int (unat a * unat b) < int (2 ^ LENGTH('a))"
    by simp
  then show ?thesis by (simp only: chk_mul_def of_nat_less_iff)
qed

lemma chk_add_Some [chk_simps]: "chk_add a b = Some c \<longleftrightarrow> unat c = unat a + unat b"
proof
  assume "chk_add a b = Some c"
  then show "unat c = unat a + unat b"
    by (auto simp: chk_add_if unat_word_ariths split: if_splits)
next
  assume c: "unat c = unat a + unat b"
  have "unat c < 2 ^ LENGTH('a)" by (rule unsigned_less)
  with c have "unat a + unat b < 2 ^ LENGTH('a)" by simp
  then have "unat (a + b) = unat c"
    using c by (simp add: unat_word_ariths)
  with \<open>unat a + unat b < 2 ^ LENGTH('a)\<close> show "chk_add a b = Some c"
    by (simp add: chk_add_if word_unat_eq_iff)
qed

lemma chk_mul_Some [chk_simps]: "chk_mul a b = Some c \<longleftrightarrow> unat c = unat a * unat b"
proof
  assume "chk_mul a b = Some c"
  then show "unat c = unat a * unat b"
    by (auto simp: chk_mul_if unat_word_ariths split: if_splits)
next
  assume c: "unat c = unat a * unat b"
  have "unat c < 2 ^ LENGTH('a)" by (rule unsigned_less)
  with c have "unat a * unat b < 2 ^ LENGTH('a)" by simp
  then have "unat (a * b) = unat c"
    using c by (simp add: unat_word_ariths)
  with \<open>unat a * unat b < 2 ^ LENGTH('a)\<close> show "chk_mul a b = Some c"
    by (simp add: chk_mul_if word_unat_eq_iff)
qed

lemma chk_sub_Some [chk_simps]: "chk_sub a b = Some c \<longleftrightarrow> unat c + unat b = unat a"
proof
  assume "chk_sub a b = Some c"
  then show "unat c + unat b = unat a"
    by (auto simp: chk_sub_def unat_sub word_le_nat_alt split: if_splits)
next
  assume c: "unat c + unat b = unat a"
  then have le: "b \<le> a" by (simp add: word_le_nat_alt)
  then have "unat (a - b) = unat c" using c by (simp add: unat_sub)
  with le show "chk_sub a b = Some c"
    by (simp add: chk_sub_def word_unat_eq_iff)
qed

lemma chk_div_Some [chk_simps]: "chk_div a b = Some c \<longleftrightarrow> b \<noteq> 0 \<and> unat c = unat a div unat b"
  by (auto simp: chk_div_def unat_div word_unat_eq_iff)

lemma chk_add_None [chk_simps]:
  "chk_add (a::'a::len word) b = None \<longleftrightarrow> 2 ^ LENGTH('a) \<le> unat a + unat b"
  by (auto simp: chk_add_if)

lemma chk_sub_None [chk_simps]: "chk_sub a b = None \<longleftrightarrow> unat a < unat b"
  by (auto simp: chk_sub_def word_le_nat_alt)

lemma chk_mul_None [chk_simps]:
  "chk_mul (a::'a::len word) b = None \<longleftrightarrow> 2 ^ LENGTH('a) \<le> unat a * unat b"
  by (auto simp: chk_mul_if)

lemma unat_sat_sub [chk_simps]: "unat (sat_sub a b) = unat a - unat b"
  by (auto simp: sat_sub_def unat_sub word_le_nat_alt)

lemma unat_u64_less: "unat (x :: u64) < 2 ^ 64"
  using unsigned_less [where 'a = nat, of x] by simp

lemma unat_ucast_u256 [simp]: "unat (ucast (x :: u64) :: u256) = unat x"
proof -
  have "unat x < 2 ^ 256" using unat_u64_less [of x] by (rule less_le_trans) simp
  then show ?thesis by (simp add: unsigned_ucast_eq take_bit_nat_eq_self)
qed

lemma unat_add_small: "unat a + unat b < 2 ^ LENGTH('a) \<Longrightarrow> unat (a + b :: 'a::len word) = unat a + unat b"
  by (simp add: unat_word_ariths)

section \<open>Outcomes\<close>

text \<open>
  What a fallible Rust method returns: a value, an error for the caller, or a panic, which ends the
  thread.  A method with a mutable receiver is a function from the receiver to the outcome and
  the receiver afterwards; \<open>and_then\<close> is the sequence of two statements, the first one with \<open>?\<close>.
\<close>

datatype ('e, 'a) outcome = Ok 'a | Err 'e | Panic

definition and_then ::
  "('x \<Rightarrow> ('e, 'a) outcome \<times> 'x) \<Rightarrow> ('a \<Rightarrow> 'x \<Rightarrow> ('e, 'b) outcome \<times> 'x) \<Rightarrow> 'x \<Rightarrow> ('e, 'b) outcome \<times> 'x" where
  "and_then m f x =
     (case m x of
        (Ok a, x') \<Rightarrow> f a x'
      | (Err e, x') \<Rightarrow> (Err e, x')
      | (Panic, x') \<Rightarrow> (Panic, x'))"

definition or_panic :: "'a option \<Rightarrow> 'x \<Rightarrow> ('e, 'a) outcome \<times> 'x" where
  "or_panic v x = (case v of Some a \<Rightarrow> (Ok a, x) | None \<Rightarrow> (Panic, x))"

lemma and_then_Ok: "and_then m f x = (Ok b, x'') \<longleftrightarrow> (\<exists>a x'. m x = (Ok a, x') \<and> f a x' = (Ok b, x''))"
  by (auto simp: and_then_def split: prod.splits outcome.splits)

lemma and_then_Err:
  "and_then m f x = (Err e, x'') \<longleftrightarrow> m x = (Err e, x'') \<or> (\<exists>a x'. m x = (Ok a, x') \<and> f a x' = (Err e, x''))"
  by (auto simp: and_then_def split: prod.splits outcome.splits)

lemma or_panic_Ok [simp]: "or_panic v x = (Ok a, x') \<longleftrightarrow> v = Some a \<and> x' = x"
  by (auto simp: or_panic_def split: option.splits)

lemma or_panic_Err [simp]: "or_panic v x \<noteq> (Err e, x')"
  by (auto simp: or_panic_def split: option.splits)

section \<open>Lists\<close>

text \<open>\<open>Vec::contains\<close>/\<open>position\<close>: the index of the first element with the property.\<close>

fun position :: "('a \<Rightarrow> bool) \<Rightarrow> 'a list \<Rightarrow> nat option" where
  "position P [] = None"
| "position P (x # xs) = (if P x then Some 0 else map_option Suc (position P xs))"

text \<open>\<open>Vec::remove\<close>: the vector without the element at an index within its bounds.\<close>

definition remove_at :: "nat \<Rightarrow> 'a list \<Rightarrow> 'a list" where
  "remove_at i xs = take i xs @ drop (Suc i) xs"

text \<open>The two together, as the sources use them: drop the first element with the property.\<close>

definition remove_first :: "('a \<Rightarrow> bool) \<Rightarrow> 'a list \<Rightarrow> 'a list" where
  "remove_first P xs = (case position P xs of None \<Rightarrow> xs | Some i \<Rightarrow> remove_at i xs)"

lemma remove_first_Nil [simp]: "remove_first P [] = []"
  by (simp add: remove_first_def)

lemma remove_first_Cons [simp]:
  "remove_first P (x # xs) = (if P x then xs else x # remove_first P xs)"
  by (auto simp: remove_first_def remove_at_def split: option.splits)

lemma set_remove_first_subset: "set (remove_first P xs) \<subseteq> set xs"
  by (induction xs) auto

lemma in_remove_first_if: "x \<in> set xs \<Longrightarrow> \<not> P x \<Longrightarrow> x \<in> set (remove_first P xs)"
  by (induction xs) auto

lemma sorted_wrt_remove_first: "sorted_wrt R xs \<Longrightarrow> sorted_wrt R (remove_first P xs)"
  by (induction xs) (auto dest: set_remove_first_subset [THEN subsetD])

lemma remove_first_unique:
  assumes "distinct xs" and "\<And>x y. x \<in> set xs \<Longrightarrow> y \<in> set xs \<Longrightarrow> P x \<Longrightarrow> P y \<Longrightarrow> x = y"
  shows "set (remove_first P xs) = {x \<in> set xs. \<not> P x}"
  using assms
proof (induction xs)
  case Nil
  then show ?case by simp
next
  case (Cons a xs)
  then have "set (remove_first P xs) = {x \<in> set xs. \<not> P x}" by simp
  with Cons.prems show ?case by auto
qed

lemma position_None [simp]: "position P xs = None \<longleftrightarrow> (\<forall>x\<in>set xs. \<not> P x)"
  by (induction xs) auto

lemma position_SomeD:
  "position P xs = Some i \<Longrightarrow> i < length xs \<and> P (xs ! i) \<and> (\<forall>j<i. \<not> P (xs ! j))"
proof (induction xs arbitrary: i)
  case Nil
  then show ?case by simp
next
  case (Cons a xs)
  show ?case
  proof (cases "P a")
    case True
    with Cons.prems show ?thesis by auto
  next
    case False
    with Cons.prems obtain k where k: "position P xs = Some k" and i: "i = Suc k"
      by auto
    from Cons.IH [OF k] False show ?thesis
      by (auto simp: i less_Suc_eq_0_disj)
  qed
qed

lemma sorted_wrt_weaken:
  "sorted_wrt R xs \<Longrightarrow> (\<And>x y. x \<in> set xs \<Longrightarrow> y \<in> set xs \<Longrightarrow> R x y \<Longrightarrow> S x y) \<Longrightarrow> sorted_wrt S xs"
  by (induction xs) auto

lemma sorted_wrt_middle:
  fixes f :: "'a \<Rightarrow> 'b::linorder"
  assumes "sorted_wrt (\<lambda>x y. f x < f y) lo" and "sorted_wrt (\<lambda>x y. f x < f y) hi"
    and "\<And>x. x \<in> set lo \<Longrightarrow> f x < f m" and "\<And>x. x \<in> set hi \<Longrightarrow> f m < f x"
  shows "sorted_wrt (\<lambda>x y. f x < f y) (lo @ m # hi)"
  using assms by (auto simp: sorted_wrt_append dest: order_less_trans)

lemma takeWhile_less: "x \<in> set (takeWhile (\<lambda>p. fst p < n) xs) \<Longrightarrow> fst x < n"
  by (auto dest: set_takeWhileD)

lemma dropWhile_not_less:
  "sorted_wrt (\<lambda>x y. fst x < fst y) (xs :: ('a::linorder \<times> 'b) list) \<Longrightarrow>
   x \<in> set (dropWhile (\<lambda>p. fst p < n) xs) \<Longrightarrow> n \<le> fst x"
  by (induction xs) (auto split: if_splits)

lemma map_filter_all_Some:
  "(\<And>x. x \<in> set xs \<Longrightarrow> f x = Some (g x)) \<Longrightarrow> List.map_filter f xs = map g xs"
  by (induction xs) (auto simp: List.map_filter_simps)

lemma dropWhile_less_filter:
  "sorted_wrt (\<lambda>x y. fst x < fst y) (xs :: ('a::linorder \<times> 'b) list) \<Longrightarrow>
   dropWhile (\<lambda>p. fst p < n) xs = filter (\<lambda>p. n \<le> fst p) xs"
proof (induction xs)
  case (Cons x xs)
  have "filter (\<lambda>p. n \<le> fst p) xs = xs" if "\<not> fst x < n"
    using Cons.prems that by (auto simp: filter_id_conv)
  with Cons show ?case by (auto simp: not_less)
qed simp

lemma sorted_wrt_unique:
  fixes f :: "'a \<Rightarrow> nat"
  assumes "sorted_wrt (\<lambda>x y. f x < f y) xs" and "sorted_wrt (\<lambda>x y. f x < f y) ys" and "set xs = set ys"
  shows "xs = ys"
proof -
  have "sorted_wrt (<) (map f xs)" "sorted_wrt (<) (map f ys)"
    using assms by (simp_all add: sorted_wrt_map)
  then have "sorted (map f xs) \<and> distinct (map f xs)" "sorted (map f ys) \<and> distinct (map f ys)"
    by (simp_all add: strict_sorted_iff)
  then show ?thesis
    using assms(3) by (intro map_sorted_distinct_set_unique [of f]) (auto simp: distinct_map)
qed

end
