(* ===== verification/Ordered_Map.thy ===== *)
theory Ordered_Map
  imports Builder_Prelude
begin

text \<open>
  \<open>std::collections::BTreeMap\<close> as the sources use it: an association list in strictly
  increasing key order.  \<open>get\<close> is the library's \<^const>\<open>map_of\<close>, iteration is the list
  itself, \<open>len\<close> its length.  \<open>bt_ok\<close> is the representation invariant and every operation
  keeps it.  The laws of \<open>insert\<close> and \<open>remove\<close> hold for every list, so that the components
  need the invariant only where the order or the number of the entries matters.

  Two interfaces are stated as locales: \<open>ordered_map\<close>, the contract of the map, and
  \<open>evicting_store\<close>, the loop \<open>while len > max { evict }\<close> that bounds the validator map, the
  block reports, the checked states and the sequential pool.
\<close>

type_synonym ('k, 'v) btree_map = "('k \<times> 'v) list"

definition bt_ok :: "('k::linorder, 'v) btree_map \<Rightarrow> bool" where
  "bt_ok m \<longleftrightarrow> sorted_wrt (<) (map fst m)"

definition bt_insert :: "'k::linorder \<Rightarrow> 'v \<Rightarrow> ('k, 'v) btree_map \<Rightarrow> ('k, 'v) btree_map" where
  "bt_insert k v m = filter (\<lambda>p. fst p < k) m @ (k, v) # filter (\<lambda>p. k < fst p) m"

definition bt_remove :: "'k \<Rightarrow> ('k, 'v) btree_map \<Rightarrow> ('k, 'v) btree_map" where
  "bt_remove k m = filter (\<lambda>p. fst p \<noteq> k) m"

text \<open>\<open>get_mut\<close> followed by an assignment through the reference.\<close>

definition bt_adjust :: "'k \<Rightarrow> ('v \<Rightarrow> 'v) \<Rightarrow> ('k, 'v) btree_map \<Rightarrow> ('k, 'v) btree_map" where
  "bt_adjust k f m = map (\<lambda>p. if fst p = k then (k, f (snd p)) else p) m"

definition bt_contains_key :: "'k \<Rightarrow> ('k, 'v) btree_map \<Rightarrow> bool" where
  "bt_contains_key k m \<longleftrightarrow> map_of m k \<noteq> None"

fun bt_pop_first :: "('k, 'v) btree_map \<Rightarrow> ('k \<times> 'v) option \<times> ('k, 'v) btree_map" where
  "bt_pop_first [] = (None, [])"
| "bt_pop_first (p # m) = (Some p, m)"

definition bt_pop_last :: "('k, 'v) btree_map \<Rightarrow> ('k \<times> 'v) option \<times> ('k, 'v) btree_map" where
  "bt_pop_last m = (if m = [] then (None, []) else (Some (last m), butlast m))"

section \<open>Lookup laws\<close>

lemma map_of_filter_key: "map_of (filter (\<lambda>p. P (fst p)) m) j = (if P j then map_of m j else None)"
  by (induction m) auto

lemma map_of_bt_insert [simp]: "map_of (bt_insert k v m) j = (if j = k then Some v else map_of m j)"
  using map_of_filter_key [of "\<lambda>x. x < k" m j] map_of_filter_key [of "\<lambda>x. k < x" m j]
  by (auto simp: bt_insert_def map_add_def split: option.splits)

lemma map_of_bt_remove [simp]: "map_of (bt_remove k m) j = (if j = k then None else map_of m j)"
  using map_of_filter_key [of "\<lambda>x. x \<noteq> k" m j] by (auto simp: bt_remove_def)

lemma map_of_bt_adjust [simp]:
  "map_of (bt_adjust k f m) j = (if j = k then map_option f (map_of m j) else map_of m j)"
  by (induction m) (auto simp: bt_adjust_def)

lemma fst_bt_adjust [simp]: "map fst (bt_adjust k f m) = map fst m"
  by (induction m) (auto simp: bt_adjust_def)

lemma length_bt_adjust [simp]: "length (bt_adjust k f m) = length m"
  by (simp add: bt_adjust_def)

lemma fst_set_bt_remove: "fst ` set (bt_remove k m) = fst ` set m - {k}"
  by (auto simp: bt_remove_def)

lemma fst_set_bt_insert: "fst ` set (bt_insert k v m) = insert k (fst ` set m)"
  by (force simp: bt_insert_def)

lemma bt_remove_id: "map_of m k = None \<Longrightarrow> bt_remove k m = m"
  by (force simp: bt_remove_def map_of_eq_None_iff filter_id_conv)

section \<open>The representation invariant\<close>

lemma bt_ok_Nil [simp]: "bt_ok []"
  by (simp add: bt_ok_def)

lemma bt_ok_Cons: "bt_ok (p # m) \<longleftrightarrow> (\<forall>k \<in> fst ` set m. fst p < k) \<and> bt_ok m"
  by (auto simp: bt_ok_def)

lemma bt_ok_filter: "bt_ok m \<Longrightarrow> bt_ok (filter P m)"
  by (auto simp: bt_ok_def sorted_wrt_map intro: sorted_wrt_filter)

lemma bt_ok_insert [simp]: "bt_ok m \<Longrightarrow> bt_ok (bt_insert k v m)"
  using bt_ok_filter [of m "\<lambda>p. fst p < k"] bt_ok_filter [of m "\<lambda>p. k < fst p"]
  by (auto simp: bt_ok_def bt_insert_def sorted_wrt_append)

lemma bt_ok_remove [simp]: "bt_ok m \<Longrightarrow> bt_ok (bt_remove k m)"
  by (simp add: bt_remove_def bt_ok_filter)

lemma bt_ok_adjust [simp]: "bt_ok (bt_adjust k f m) = bt_ok m"
  by (simp add: bt_ok_def)

lemma bt_ok_tl: "bt_ok m \<Longrightarrow> bt_ok (tl m)"
  by (cases m) (auto simp: bt_ok_Cons)

lemma bt_ok_drop: "bt_ok m \<Longrightarrow> bt_ok (drop n m)"
  by (simp add: bt_ok_def sorted_wrt_drop flip: drop_map)

lemma bt_ok_butlast: "bt_ok m \<Longrightarrow> bt_ok (butlast m)"
  by (metis bt_ok_def butlast_conv_take map_butlast sorted_wrt_take)

lemma bt_ok_distinct: "bt_ok m \<Longrightarrow> distinct (map fst m)"
  by (auto simp: bt_ok_def strict_sorted_iff)

lemma bt_ok_in_set: "bt_ok m \<Longrightarrow> (k, v) \<in> set m \<longleftrightarrow> map_of m k = Some v"
  by (metis bt_ok_distinct map_of_eq_Some_iff)

lemma length_bt_remove:
  "bt_ok m \<Longrightarrow> length (bt_remove k m) = (if map_of m k = None then length m else length m - 1)"
proof (induction m)
  case Nil
  then show ?case by (simp add: bt_remove_def)
next
  case (Cons p m)
  then have ok: "bt_ok m" and gt: "\<forall>j \<in> fst ` set m. fst p < j"
    by (auto simp: bt_ok_Cons)
  show ?case
  proof (cases "fst p = k")
    case True
    with gt have "map_of m k = None" by (auto simp: map_of_eq_None_iff)
    with True show ?thesis by (cases p) (simp add: bt_remove_def bt_remove_id [unfolded bt_remove_def])
  next
    case False
    have "m \<noteq> []" if "map_of m k \<noteq> None" using that by auto
    with False Cons.IH [OF ok] show ?thesis
      by (cases p) (auto simp: bt_remove_def)
  qed
qed

lemma length_bt_insert:
  assumes "bt_ok m"
  shows "length (bt_insert k v m) = (if map_of m k = None then Suc (length m) else length m)"
proof -
  have "length (bt_insert k v m) = Suc (length (bt_remove k m))"
    by (induction m) (auto simp: bt_insert_def bt_remove_def)
  moreover have "m \<noteq> []" if "map_of m k \<noteq> None" using that by auto
  ultimately show ?thesis
    using length_bt_remove [OF assms, of k] by auto
qed

lemma map_of_map_value: "map_of (map (\<lambda>(k, v). (k, f v)) m) h = map_option f (map_of m h)"
  by (induction m) auto

lemma bt_ok_map_value [simp]: "bt_ok (map (\<lambda>(k, v). (k, f v)) m) = bt_ok m"
  by (simp add: bt_ok_def comp_def case_prod_beta)

lemma map_of_fold_adjust:
  "map_of (fold (\<lambda>h. bt_adjust h f) hs m) k = map_option (fold (\<lambda>h. if h = k then f else id) hs) (map_of m k)"
  by (induction hs arbitrary: m) (auto simp: option.map_comp comp_def option.map_id)

lemma bt_ok_fold_adjust [simp]: "bt_ok (fold (\<lambda>h. bt_adjust h f) hs m) = bt_ok m"
  by (induction hs arbitrary: m) auto

lemma bt_insert_end: "(\<And>x. x \<in> set m \<Longrightarrow> fst x < k) \<Longrightarrow> bt_insert k v m = m @ [(k, v)]"
  unfolding bt_insert_def by (induction m) (auto, force)

section \<open>The contract of the map\<close>

locale ordered_map =
  fixes empty :: 'm
    and get :: "'m \<Rightarrow> 'k::linorder \<Rightarrow> 'v option"
    and insert :: "'k \<Rightarrow> 'v \<Rightarrow> 'm \<Rightarrow> 'm"
    and remove :: "'k \<Rightarrow> 'm \<Rightarrow> 'm"
    and entries :: "'m \<Rightarrow> ('k \<times> 'v) list"
    and invar :: "'m \<Rightarrow> bool"
  assumes get_empty: "get empty k = None"
    and get_insert: "get (insert k v m) j = (if j = k then Some v else get m j)"
    and get_remove: "get (remove k m) j = (if j = k then None else get m j)"
    and invar_empty: "invar empty"
    and invar_insert: "invar m \<Longrightarrow> invar (insert k v m)"
    and invar_remove: "invar m \<Longrightarrow> invar (remove k m)"
    and entries_sorted: "invar m \<Longrightarrow> sorted_wrt (<) (map fst (entries m))"
    and entries_get: "invar m \<Longrightarrow> (k, v) \<in> set (entries m) \<longleftrightarrow> get m k = Some v"
begin

lemma entries_unique:
  assumes "invar m" and "invar n" and "\<And>k. get m k = get n k"
  shows "entries m = entries n"
proof -
  have "set (entries m) = set (entries n)"
    using assms by (auto simp: entries_get)
  moreover have "sorted (map fst (entries m)) \<and> distinct (map fst (entries m))"
    using entries_sorted [OF assms(1)] by (simp add: strict_sorted_iff)
  moreover have "sorted (map fst (entries n)) \<and> distinct (map fst (entries n))"
    using entries_sorted [OF assms(2)] by (simp add: strict_sorted_iff)
  ultimately show ?thesis
    using map_sorted_distinct_set_unique [of fst "entries m" "entries n"]
    by (auto simp: inj_on_def distinct_map entries_get assms)
qed

lemma insert_insert: "invar m \<Longrightarrow> entries (insert k v (insert k w m)) = entries (insert k v m)"
  by (rule entries_unique) (auto simp: invar_insert get_insert)

lemma insert_remove: "invar m \<Longrightarrow> entries (insert k v (remove k m)) = entries (insert k v m)"
  by (rule entries_unique) (auto simp: invar_insert invar_remove get_insert get_remove)

lemma remove_insert:
  "invar m \<Longrightarrow> get m k = None \<Longrightarrow> entries (remove k (insert k v m)) = entries m"
  by (rule entries_unique) (auto simp: invar_insert invar_remove get_insert get_remove)

lemma insert_commute:
  "invar m \<Longrightarrow> k \<noteq> j \<Longrightarrow> entries (insert k v (insert j w m)) = entries (insert j w (insert k v m))"
  by (rule entries_unique) (auto simp: invar_insert get_insert)

end

interpretation bt: ordered_map "[]" map_of bt_insert bt_remove "\<lambda>m. m" bt_ok
  by unfold_locales (auto simp: bt_ok_in_set, simp add: bt_ok_def)

section \<open>Bounded stores\<close>

text \<open>The loop \<open>while m.len() > n { m.pop_first() }\<close> (also \<open>Vec::remove(0)\<close>).\<close>

fun trim_front :: "nat \<Rightarrow> 'a list \<Rightarrow> 'a list" where
  "trim_front n [] = []"
| "trim_front n (x # xs) = (if n < length (x # xs) then trim_front n xs else x # xs)"

lemma trim_front_drop: "trim_front n xs = drop (length xs - n) xs"
  by (induction xs) (auto simp: Suc_diff_le)

locale evicting_store =
  fixes size :: "'s \<Rightarrow> nat"
    and evict :: "'s \<Rightarrow> 's"
    and limit :: nat
    and loop :: "'s \<Rightarrow> 's"
    and invar :: "'s \<Rightarrow> bool"
  assumes evict_size: "invar s \<Longrightarrow> limit < size s \<Longrightarrow> size (evict s) < size s"
    and evict_invar: "invar s \<Longrightarrow> limit < size s \<Longrightarrow> invar (evict s)"
    and loop_unfold: "invar s \<Longrightarrow> loop s = (if limit < size s then loop (evict s) else s)"
begin

lemma loop_induct [consumes 1, case_names step stop]:
  assumes "invar s"
    and "\<And>s. invar s \<Longrightarrow> limit < size s \<Longrightarrow> P (evict s) \<Longrightarrow> P s"
    and "\<And>s. invar s \<Longrightarrow> size s \<le> limit \<Longrightarrow> P s"
  shows "P s"
  using assms(1)
proof (induction "size s" arbitrary: s rule: less_induct)
  case less
  then show ?case
    using assms(2,3) evict_size evict_invar by (metis linorder_le_less_linear)
qed

lemma loop_bounded: "invar s \<Longrightarrow> size (loop s) \<le> limit"
proof (induction s rule: loop_induct)
  case (step s)
  then show ?case by (simp add: loop_unfold [of s])
next
  case (stop s)
  then show ?case by (simp add: loop_unfold [of s])
qed

lemma loop_idle: "invar s \<Longrightarrow> size s \<le> limit \<Longrightarrow> loop s = s"
  by (simp add: loop_unfold)

lemma loop_preserves:
  assumes "invar s" and "Q s"
    and "\<And>s. invar s \<Longrightarrow> limit < size s \<Longrightarrow> Q s \<Longrightarrow> Q (evict s)"
  shows "Q (loop s)"
  using assms(1,2)
proof (induction s rule: loop_induct)
  case (step s)
  then show ?case by (simp add: loop_unfold [of s] assms(3))
next
  case (stop s)
  then show ?case by (simp add: loop_unfold [of s])
qed

lemma loop_invar: "invar s \<Longrightarrow> invar (loop s)"
  by (rule loop_preserves) (auto intro: evict_invar)

end

interpretation front: evicting_store length tl n "trim_front n" "\<lambda>_. True" for n
proof (unfold_locales, goal_cases)
  case (3 s)
  then show ?case by (cases s) auto
qed auto

end
