(* ===== verification/Eth_Types.thy ===== *)
theory Eth_Types
  imports Ordered_Map
begin

text \<open>
  The types the sources take from the crate \<open>eth_types\<close>, which is not part of the repository.

  \<open>TransactionInner\<close> is the type variable \<open>'tx\<close>.  Its accessor methods, the signer's sender
  recovery included, are the fields of a record \<open>tx_api\<close> that every definition using them takes
  as its first argument; nothing is assumed about them unless a theorem says so.
  \<open>PoolTx\<close> and \<open>Bundle\<close> are records with the fields the sources build and read
  (\<open>block_builder/src/simulator.rs\<close>, \<open>Simulator::simulate_inner\<close>;
  \<open>txpool/src/types.rs\<close>, \<open>SendBundleRequest::to_bundle\<close>).

  The last section gives a concrete transaction type with the fee rules of EIP-1559, used only to
  evaluate the definitions at concrete inputs.
\<close>

text \<open>An access list entry: an address and the storage keys of it.\<close>

type_synonym access_tuple = "h160 \<times> h256 list"

record 'tx tx_api =
  tx_hash :: "'tx \<Rightarrow> h256"
  tx_nonce :: "'tx \<Rightarrow> u64"
  tx_gas :: "'tx \<Rightarrow> u64"
  tx_value :: "'tx \<Rightarrow> u256"
  tx_to :: "'tx \<Rightarrow> h160 option"
  tx_max_fee_per_gas :: "'tx \<Rightarrow> u256"
  tx_max_priority_fee_per_gas :: "'tx \<Rightarrow> u256"
  tx_gas_price :: "'tx \<Rightarrow> u256 option \<Rightarrow> u256"
  tx_effective_gas_tip :: "'tx \<Rightarrow> u256 option \<Rightarrow> u256 option"
  tx_reward :: "'tx \<Rightarrow> u64 \<Rightarrow> u256 option \<Rightarrow> u256 option"
  tx_sender :: "'tx \<Rightarrow> h160"
  tx_gas_limit :: "'tx \<Rightarrow> u64"
  tx_access_list :: "'tx \<Rightarrow> access_tuple list option"

record 'tx pool_tx =
  ptx_caller :: h160
  ptx_tx :: 'tx
  ptx_access_list :: "access_tuple list"
  ptx_hash :: h256
  ptx_gas :: u64
  ptx_allow_revert :: bool
  ptx_block :: u64
  ptx_result :: string

record 'tx eth_bundle =
  b_block_number :: u64
  b_min_timestamp :: "u64 option"
  b_max_timestamp :: "u64 option"
  b_uuid :: string
  b_refund_percent :: u64
  b_refund_recipient :: h160
  b_txs :: "'tx pool_tx list"

text \<open>The fields of a \<open>BlockHeader\<close> that the sources read or write.\<close>

record block_header =
  h_parent_hash :: h256
  h_number :: u64
  h_gas_limit :: u64
  h_gas_used :: u64
  h_timestamp :: u64
  h_miner :: h160
  h_mix_hash :: h256
  h_extra_data :: "u8 list"
  h_base_fee_per_gas :: u256
  h_difficulty :: u256
  h_state_root :: h256

record withdrawal =
  w_index :: u64
  w_validator_index :: u64
  w_address :: h160
  w_amount :: u64

section \<open>A concrete transaction type\<close>

record demo_tx =
  d_hash :: h256
  d_nonce :: u64
  d_gas :: u64
  d_value :: u256
  d_fee_cap :: u256
  d_tip_cap :: u256
  d_sender :: h160

definition demo_api :: "demo_tx tx_api" where
  "demo_api =
     \<lparr>tx_hash = d_hash, tx_nonce = d_nonce, tx_gas = d_gas, tx_value = d_value,
      tx_to = (\<lambda>_. Some 1),
      tx_max_fee_per_gas = d_fee_cap, tx_max_priority_fee_per_gas = d_tip_cap,
      tx_gas_price = (\<lambda>t b. case b of None \<Rightarrow> d_fee_cap t
        | Some b \<Rightarrow> min (d_fee_cap t) (b + d_tip_cap t)),
      tx_effective_gas_tip = (\<lambda>t b. case b of None \<Rightarrow> Some (d_tip_cap t)
        | Some b \<Rightarrow> if d_fee_cap t < b then None
                     else Some (min (d_tip_cap t) (d_fee_cap t - b))),
      tx_reward = (\<lambda>t g b. case b of None \<Rightarrow> Some (d_tip_cap t * ucast g)
        | Some b \<Rightarrow> if d_fee_cap t < b then None
                     else Some (min (d_tip_cap t) (d_fee_cap t - b) * ucast g)),
      tx_sender = d_sender, tx_gas_limit = d_gas, tx_access_list = (\<lambda>_. None)\<rparr>"

definition demo_ptx :: "h160 \<Rightarrow> u64 \<Rightarrow> h256 \<Rightarrow> u256 \<Rightarrow> u256 \<Rightarrow> demo_tx pool_tx" where
  "demo_ptx a n h cap tip =
     \<lparr>ptx_caller = a,
      ptx_tx = \<lparr>d_hash = h, d_nonce = n, d_gas = 21000, d_value = 1,
                d_fee_cap = cap, d_tip_cap = tip, d_sender = a\<rparr>,
      ptx_access_list = [], ptx_hash = h, ptx_gas = 21000, ptx_allow_revert = False,
      ptx_block = 1, ptx_result = ''''\<rparr>"

lemma demo_api_sel [simp]:
  "tx_hash demo_api = d_hash" "tx_nonce demo_api = d_nonce" "tx_gas demo_api = d_gas"
  "tx_sender demo_api = d_sender" "tx_max_fee_per_gas demo_api = d_fee_cap"
  "tx_max_priority_fee_per_gas demo_api = d_tip_cap" "tx_value demo_api = d_value"
  "tx_gas_limit demo_api = d_gas"
  by (simp_all add: demo_api_def)

end
