(* ===== verification/Seq_List.thy ===== *)
theory Seq_List
  imports Eth_Types
begin

text \<open>
  The list of the sequential pool: \<open>SeqPoolList\<close> of \<open>src/common/txpool/src/seq_pool.rs\<close>.

  \<open>seq_pool_list\<close> is \<open>SeqPoolList\<close>: the transactions by hash, their order by sequence number and,
  per sender, the list of nonces and hashes.  One definition per method.  The mutex of \<open>SeqPool\<close>
  makes each method atomic, so a method is a function on the state.  \<open>Instant\<close> is a number of
  seconds and the current time is an argument; the \<open>SU256\<close> sequence counter, which would
  need \<open>2 ^ 256\<close> pushes to overflow, is a natural number.

  \<open>seq_inv\<close> is the invariant of the pool: the three maps describe the same transactions, and a
  sender's transactions are sequenced in the order of their nonces.
\<close>

datatype pool_error = AlreadyKnowned | ErrGasFeeCapTooLow

record 'tx tx_info =
  ti_tx :: "'tx pool_tx"
  ti_seq :: nat
  ti_failure_reason :: "string option"
  ti_submit_time :: nat
  ti_submit_to :: "u64 list"

record 'tx seq_pool_list =
  sl_order :: "(nat, h256) btree_map"
  sl_txs :: "(h256, 'tx tx_info) btree_map"
  sl_accounts :: "(h160, (u64 \<times> h256) list) btree_map"
  sl_seq :: nat

section \<open>\<open>SeqPoolList\<close>\<close>

definition seq_list_empty :: "'tx seq_pool_list" where
  "seq_list_empty = \<lparr>sl_order = [], sl_txs = [], sl_accounts = [], sl_seq = 0\<rparr>"

definition seq_list_len :: "'tx seq_pool_list \<Rightarrow> nat" where
  "seq_list_len l = length (sl_order l)"

definition seq_list_seq :: "'tx seq_pool_list \<Rightarrow> nat \<times> 'tx seq_pool_list" where
  "seq_list_seq l = (sl_seq l, l\<lparr>sl_seq := sl_seq l + 1\<rparr>)"

text \<open>
  The loop of \<open>push\<close> over the sender's entries: \<open>None\<close> is the early return on an entry with the
  same nonce and hash (nothing has been changed then); otherwise the index to reorder from and the
  order and transaction maps without a replaced transaction of the same nonce.
\<close>

fun seq_scan ::
  "u64 \<Rightarrow> h256 \<Rightarrow> nat \<Rightarrow> (u64 \<times> h256) list \<Rightarrow> (nat, h256) btree_map \<Rightarrow> (h256, 'tx tx_info) btree_map
     \<Rightarrow> (nat option \<times> (nat, h256) btree_map \<times> (h256, 'tx tx_info) btree_map) option" where
  "seq_scan nonce hash idx [] ord txs = Some (None, ord, txs)"
| "seq_scan nonce hash idx ((n, h) # acc) ord txs =
     (if nonce = n \<and> hash = h then None
      else
        let (ord', txs') =
              (if nonce = n
               then (case map_of txs h of
                       Some t \<Rightarrow> (bt_remove (ti_seq t) ord, bt_remove h txs)
                     | None \<Rightarrow> (ord, txs))
               else (ord, txs))
        in if nonce \<le> n then Some (Some idx, ord', txs')
           else seq_scan nonce hash (Suc idx) acc ord' txs')"

text \<open>The loop over the drained entries: each one still known gets a fresh sequence number.\<close>

fun seq_reorder ::
  "(u64 \<times> h256) list \<Rightarrow> (u64 \<times> h256) list \<Rightarrow> (nat, h256) btree_map \<Rightarrow> (h256, 'tx tx_info) btree_map
     \<Rightarrow> nat \<Rightarrow> (u64 \<times> h256) list \<times> (nat, h256) btree_map \<times> (h256, 'tx tx_info) btree_map \<times> nat" where
  "seq_reorder [] acct ord txs sq = (acct, ord, txs, sq)"
| "seq_reorder ((n, h) # rest) acct ord txs sq =
     (case map_of txs h of
        Some t \<Rightarrow>
          seq_reorder rest (acct @ [(n, h)]) (bt_insert sq h (bt_remove (ti_seq t) ord))
            (bt_adjust h (\<lambda>t. t\<lparr>ti_seq := sq\<rparr>) txs) (Suc sq)
      | None \<Rightarrow> seq_reorder rest acct ord txs sq)"

definition seq_list_push ::
  "'tx tx_api \<Rightarrow> nat \<Rightarrow> 'tx pool_tx \<Rightarrow> 'tx seq_pool_list \<Rightarrow> h256 \<times> 'tx seq_pool_list" where
  "seq_list_push A now tx l =
     (let hash = ptx_hash tx;
          accounts = (if bt_contains_key (ptx_caller tx) (sl_accounts l) then sl_accounts l
                      else bt_insert (ptx_caller tx) [] (sl_accounts l));
          account = the (map_of accounts (ptx_caller tx));
          nonce = tx_nonce A (ptx_tx tx)
      in case seq_scan nonce hash 0 account (sl_order l) (sl_txs l) of
           None \<Rightarrow> (hash, l\<lparr>sl_accounts := accounts\<rparr>)
         | Some (reorder_idx, ord, txs) \<Rightarrow>
             let sq = sl_seq l;
                 ord = bt_insert sq hash ord;
                 (account, ord, txs, sq') =
                   (case reorder_idx of
                      Some i \<Rightarrow> seq_reorder (drop i account) (take i account @ [(nonce, hash)]) ord txs (Suc sq)
                    | None \<Rightarrow> (account @ [(nonce, hash)], ord, txs, Suc sq))
             in (hash,
                 \<lparr>sl_order = ord,
                  sl_txs = bt_insert hash
                    \<lparr>ti_tx = tx, ti_seq = sq, ti_failure_reason = None, ti_submit_time = now,
                     ti_submit_to = []\<rparr> txs,
                  sl_accounts = bt_adjust (ptx_caller tx) (\<lambda>_. account) accounts,
                  sl_seq = sq'\<rparr>))"

definition seq_list_pop ::
  "'tx tx_api \<Rightarrow> 'tx seq_pool_list \<Rightarrow> 'tx tx_info option \<times> 'tx seq_pool_list" where
  "seq_list_pop A l =
     (case bt_pop_first (sl_order l) of
        (None, _) \<Rightarrow> (None, l)
      | (Some (_, hash), ord) \<Rightarrow>
          (case map_of (sl_txs l) hash of
             None \<Rightarrow> (None, l\<lparr>sl_order := ord\<rparr>)
           | Some t \<Rightarrow>
               (Some t, l\<lparr>sl_order := ord, sl_txs := bt_remove hash (sl_txs l),
                  sl_accounts := bt_adjust (ptx_caller (ti_tx t))
                    (remove_first (\<lambda>n. fst n = tx_nonce A (ptx_tx (ti_tx t)) \<and> snd n = ptx_hash (ti_tx t)))
                    (sl_accounts l)\<rparr>)))"

definition seq_list_remove :: "h256 \<Rightarrow> 'tx seq_pool_list \<Rightarrow> bool \<times> 'tx seq_pool_list" where
  "seq_list_remove hash l =
     (case map_of (sl_txs l) hash of
        Some t \<Rightarrow>
          (True, l\<lparr>sl_order := bt_remove (ti_seq t) (sl_order l),
             sl_txs := bt_remove hash (sl_txs l),
             sl_accounts := bt_adjust (ptx_caller (ti_tx t)) (remove_first (\<lambda>n. snd n = hash)) (sl_accounts l)\<rparr>)
      | None \<Rightarrow> (False, l))"

section \<open>The invariant of the list\<close>

abbreviation ti_caller :: "'tx tx_info \<Rightarrow> h160" where
  "ti_caller t \<equiv> ptx_caller (ti_tx t)"

abbreviation ti_nonce :: "'tx tx_api \<Rightarrow> 'tx tx_info \<Rightarrow> u64" where
  "ti_nonce A t \<equiv> tx_nonce A (ptx_tx (ti_tx t))"

text \<open>The order map and the transactions agree on the sequence numbers.\<close>

definition order_agrees :: "(nat, h256) btree_map \<Rightarrow> (h256, 'tx tx_info) btree_map \<Rightarrow> bool" where
  "order_agrees ord txs \<longleftrightarrow>
     (\<forall>s h. map_of ord s = Some h \<longleftrightarrow> (\<exists>t. map_of txs h = Some t \<and> ti_seq t = s))"

text \<open>Every stored transaction is filed under its own hash, below the sequence counter.\<close>

definition txs_filed :: "nat \<Rightarrow> (h256, 'tx tx_info) btree_map \<Rightarrow> bool" where
  "txs_filed sq txs \<longleftrightarrow> (\<forall>h t. map_of txs h = Some t \<longrightarrow> ptx_hash (ti_tx t) = h \<and> ti_seq t < sq)"

text \<open>The per-sender lists hold exactly the stored transactions, by increasing nonce.\<close>

definition accounts_agree ::
  "'tx tx_api \<Rightarrow> (h160, (u64 \<times> h256) list) btree_map \<Rightarrow> (h256, 'tx tx_info) btree_map \<Rightarrow> bool" where
  "accounts_agree A accounts txs \<longleftrightarrow>
     (\<forall>a acc. map_of accounts a = Some acc \<longrightarrow>
        sorted_wrt (\<lambda>x y. fst x < fst y) acc \<and>
        (\<forall>n h. (n, h) \<in> set acc \<longleftrightarrow>
           (\<exists>t. map_of txs h = Some t \<and> ti_caller t = a \<and> ti_nonce A t = n))) \<and>
     (\<forall>h t. map_of txs h = Some t \<longrightarrow> map_of accounts (ti_caller t) \<noteq> None)"

text \<open>A sender's transactions are sequenced by increasing nonce.\<close>

definition nonce_sequenced :: "'tx tx_api \<Rightarrow> (h256, 'tx tx_info) btree_map \<Rightarrow> bool" where
  "nonce_sequenced A txs \<longleftrightarrow>
     (\<forall>h t h' t'. map_of txs h = Some t \<longrightarrow> map_of txs h' = Some t' \<longrightarrow>
        ti_caller t = ti_caller t' \<longrightarrow> ti_nonce A t < ti_nonce A t' \<longrightarrow> ti_seq t < ti_seq t')"

definition seq_inv :: "'tx tx_api \<Rightarrow> 'tx seq_pool_list \<Rightarrow> bool" where
  "seq_inv A l \<longleftrightarrow>
     bt_ok (sl_order l) \<and> bt_ok (sl_txs l) \<and> bt_ok (sl_accounts l) \<and>
     order_agrees (sl_order l) (sl_txs l) \<and> txs_filed (sl_seq l) (sl_txs l) \<and>
     accounts_agree A (sl_accounts l) (sl_txs l) \<and> nonce_sequenced A (sl_txs l)"

lemmas seq_inv_parts = order_agrees_def txs_filed_def accounts_agree_def nonce_sequenced_def

lemma order_agreesD:
  "order_agrees ord txs \<Longrightarrow> map_of txs h = Some t \<Longrightarrow> map_of ord (ti_seq t) = Some h"
  "order_agrees ord txs \<Longrightarrow> map_of ord s = Some h \<Longrightarrow> \<exists>t. map_of txs h = Some t \<and> ti_seq t = s"
  by (auto simp: order_agrees_def)

lemma order_agrees_inj:
  "order_agrees ord txs \<Longrightarrow> map_of txs h = Some t \<Longrightarrow> map_of txs h' = Some t' \<Longrightarrow>
   ti_seq t = ti_seq t' \<Longrightarrow> h = h'"
  by (metis order_agreesD(1) option.inject)


lemma order_agrees_remove:
  assumes agree: "order_agrees ord txs" and t: "map_of txs h = Some t"
  shows "order_agrees (bt_remove (ti_seq t) ord) (bt_remove h txs)"
proof -
  have "map_of ord s = Some k \<and> s \<noteq> ti_seq t \<longleftrightarrow> k \<noteq> h \<and> (\<exists>u. map_of txs k = Some u \<and> ti_seq u = s)" for s k
    using order_agreesD [OF agree] order_agrees_inj [OF agree t] t by (metis option.inject)
  then show ?thesis
    by (simp add: order_agrees_def) metis
qed

lemma accounts_agreeD:
  assumes "accounts_agree A accounts txs" and "map_of accounts a = Some acc"
  shows "sorted_wrt (\<lambda>x y. fst x < fst y) acc"
    and "(n, h) \<in> set acc \<longleftrightarrow>
           (\<exists>t. map_of txs h = Some t \<and> ti_caller t = a \<and> ti_nonce A t = n)"
  using assms by (auto simp: accounts_agree_def)

lemma accounts_agree_known:
  "accounts_agree A accounts txs \<Longrightarrow> map_of txs h = Some t \<Longrightarrow> \<exists>acc. map_of accounts (ti_caller t) = Some acc"
  unfolding accounts_agree_def by blast

lemma sorted_fst_distinct: "sorted_wrt (\<lambda>x y. fst x < fst y) (acc :: ('a::linorder \<times> 'b) list) \<Longrightarrow> distinct acc"
  by (induction acc) auto

lemma remove_first_entries:
  assumes "sorted_wrt (\<lambda>x y. fst x < fst y) (acc :: ('a::linorder \<times> 'b) list)"
    and "\<And>n k. (n, k) \<in> set acc \<Longrightarrow> P (n, k) \<longleftrightarrow> (n, k) = e"
  shows "set (remove_first P acc) = set acc - {e}"
proof -
  have "set (remove_first P acc) = {x \<in> set acc. \<not> P x}"
    using assms(2) by (intro remove_first_unique sorted_fst_distinct [OF assms(1)]) auto
  then show ?thesis using assms(2) by auto
qed

lemma accounts_agree_remove:
  assumes agree: "accounts_agree A accounts txs" and t: "map_of txs h = Some t"
    and P: "\<And>n k. P (n, k) \<Longrightarrow> k = h" "P (ti_nonce A t, h)"
  shows "accounts_agree A (bt_adjust (ti_caller t) (remove_first P) accounts) (bt_remove h txs)"
proof -
  have R: "sorted_wrt (\<lambda>x y. fst x < fst y) (remove_first P acc) \<and>
      (\<forall>n k. (n, k) \<in> set (remove_first P acc) \<longleftrightarrow>
        k \<noteq> h \<and> (\<exists>u. map_of txs k = Some u \<and> ti_caller u = ti_caller t \<and> ti_nonce A u = n))"
    if acc: "map_of accounts (ti_caller t) = Some acc" for acc
  proof -
    note D = accounts_agreeD [OF agree acc]
    have "set (remove_first P acc) = set acc - {(ti_nonce A t, h)}"
    proof (rule remove_first_entries [OF D(1)])
      fix n k
      assume "(n, k) \<in> set acc"
      then obtain u where "map_of txs k = Some u" "ti_nonce A u = n" using D(2) by blast
      then show "P (n, k) \<longleftrightarrow> (n, k) = (ti_nonce A t, h)" using P t by (metis option.inject prod.inject)
    qed
    then show ?thesis
      using t D by (auto simp: sorted_wrt_remove_first)
  qed
  have C: "k \<noteq> h \<and> (\<exists>u. map_of txs k = Some u \<and> ti_caller u = a \<and> ti_nonce A u = n) \<longleftrightarrow>
      (\<exists>u. map_of txs k = Some u \<and> ti_caller u = a \<and> ti_nonce A u = n)" if "a \<noteq> ti_caller t" for a n k
    using that t by auto
  show ?thesis
    unfolding accounts_agree_def
  proof (intro conjI allI impI)
    fix a acc' 
    assume "map_of (bt_adjust (ti_caller t) (remove_first P) accounts) a = Some acc'"
    then consider acc where "a = ti_caller t" "map_of accounts a = Some acc" "acc' = remove_first P acc"
      | "a \<noteq> ti_caller t" "map_of accounts a = Some acc'"
      by (auto split: if_splits)
    note cases = this
    show "sorted_wrt (\<lambda>x y. fst x < fst y) acc'"
      using cases by cases (use R accounts_agreeD [OF agree] in auto)
    fix n k
    have E: "(\<exists>u. map_of (bt_remove h txs) k = Some u \<and> ti_caller u = a \<and> ti_nonce A u = n) \<longleftrightarrow>
       k \<noteq> h \<and> (\<exists>u. map_of txs k = Some u \<and> ti_caller u = a \<and> ti_nonce A u = n)" by auto
    show "(n, k) \<in> set acc' \<longleftrightarrow> (\<exists>u. map_of (bt_remove h txs) k = Some u \<and> ti_caller u = a \<and> ti_nonce A u = n)"
      unfolding E using cases by cases (simp add: R, simp add: C accounts_agreeD [OF agree])
  next
    fix k u
    assume "map_of (bt_remove h txs) k = Some u"
    then have "map_of txs k = Some u" by (auto split: if_splits)
    from accounts_agree_known [OF agree this]
    show "map_of (bt_adjust (ti_caller t) (remove_first P) accounts) (ti_caller u) \<noteq> None"
      by auto
  qed
qed


lemma nonce_sequenced_remove: "nonce_sequenced A txs \<Longrightarrow> nonce_sequenced A (bt_remove h txs)"
  unfolding nonce_sequenced_def map_of_bt_remove by (metis option.discI)

lemma txs_filed_remove: "txs_filed sq txs \<Longrightarrow> txs_filed sq (bt_remove h txs)"
  by (auto simp: txs_filed_def split: if_splits)

lemma seq_inv_drop_tx:
  assumes inv: "seq_inv A l" and t: "map_of (sl_txs l) h = Some t"
    and P: "\<And>n k. P (n, k) \<Longrightarrow> k = h" "P (ti_nonce A t, h)"
  shows "seq_inv A (l\<lparr>sl_order := bt_remove (ti_seq t) (sl_order l), sl_txs := bt_remove h (sl_txs l),
    sl_accounts := bt_adjust (ti_caller t) (remove_first P) (sl_accounts l)\<rparr>)"
proof -
  have "order_agrees (sl_order l) (sl_txs l)" and "accounts_agree A (sl_accounts l) (sl_txs l)"
    using inv by (simp_all add: seq_inv_def)
  from order_agrees_remove [OF this(1) t] accounts_agree_remove [where P = P, OF this(2) t P] inv
  show ?thesis
    by (simp add: seq_inv_def nonce_sequenced_remove txs_filed_remove)
qed

lemma seq_list_remove_inv: "seq_inv A l \<Longrightarrow> seq_inv A (snd (seq_list_remove h l))"
  using seq_inv_drop_tx [of A l h _ "\<lambda>n. snd n = h"]
  by (auto simp: seq_list_remove_def split: option.splits)

lemma bt_remove_first_key: "bt_ok ((k, v) # m) \<Longrightarrow> bt_remove k ((k, v) # m) = m"
  by (force simp: bt_remove_def bt_ok_Cons filter_id_conv)

lemma seq_list_pop_inv:
  assumes inv: "seq_inv A l"
  shows "seq_inv A (snd (seq_list_pop A l))"
proof (cases "sl_order l")
  case Nil
  with inv show ?thesis by (simp add: seq_list_pop_def)
next
  case (Cons e ord)
  obtain s h where e: "e = (s, h)" by (cases e)
  have "map_of (sl_order l) s = Some h" by (simp add: Cons e)
  with inv obtain t where t: "map_of (sl_txs l) h = Some t" "ti_seq t = s"
    by (auto simp: seq_inv_def dest: order_agreesD(2))
  have "ptx_hash (ti_tx t) = h" using inv t by (auto simp: seq_inv_def txs_filed_def)
  moreover have "bt_remove s (sl_order l) = ord"
    using inv unfolding Cons e seq_inv_def by (auto intro: bt_remove_first_key)
  ultimately show ?thesis
    using seq_inv_drop_tx [OF inv t(1), where P = "\<lambda>n. fst n = ti_nonce A t \<and> snd n = h"] t
    by (simp add: seq_list_pop_def Cons e)
qed

section \<open>\<open>push\<close> keeps the invariant\<close>

text \<open>What the scan of \<open>push\<close> returns, without its loop.\<close>

definition scan_drop ::
  "u64 \<Rightarrow> (u64 \<times> h256) list \<Rightarrow> (nat, h256) btree_map \<Rightarrow> (h256, 'tx tx_info) btree_map
     \<Rightarrow> (nat, h256) btree_map \<times> (h256, 'tx tx_info) btree_map" where
  "scan_drop nonce hi ord txs =
     (case hi of
        [] \<Rightarrow> (ord, txs)
      | (n, h) # _ \<Rightarrow>
          (if nonce = n
           then (case map_of txs h of
                   Some t \<Rightarrow> (bt_remove (ti_seq t) ord, bt_remove h txs)
                 | None \<Rightarrow> (ord, txs))
           else (ord, txs)))"

lemma seq_scan_eq:
  "(nonce, hash) \<notin> set acc \<Longrightarrow>
   seq_scan nonce hash idx acc ord txs =
     (let hi = dropWhile (\<lambda>p. fst p < nonce) acc
      in Some (if hi = [] then None else Some (idx + length (takeWhile (\<lambda>p. fst p < nonce) acc)),
               scan_drop nonce hi ord txs))"
proof (induction acc arbitrary: idx)
  case Nil
  then show ?case by (simp add: scan_drop_def)
next
  case (Cons e acc)
  obtain n h where e: "e = (n, h)" by (cases e)
  show ?case
  proof (cases "n < nonce")
    case True
    with Cons show ?thesis by (auto simp: e Let_def not_le)
  next
    case False
    with Cons.prems show ?thesis
      by (auto simp: e scan_drop_def Let_def split: option.splits)
  qed
qed

lemma bt_adjust_insert_commute:
  assumes "k \<noteq> h"
  shows "bt_adjust h f (bt_insert k v m) = bt_insert k v (bt_adjust h f m)"
proof -
  have "fst (if fst p = h then (h, f (snd p)) else p) = fst p" for p by simp
  with assms show ?thesis
    by (simp add: bt_adjust_def bt_insert_def filter_map comp_def)
qed

lemma seq_reorder_insert:
  "h0 \<notin> snd ` set rest \<Longrightarrow>
   seq_reorder rest acct ord (bt_insert h0 v txs) sq =
     (case seq_reorder rest acct ord txs sq of (a, b, c, d) \<Rightarrow> (a, b, bt_insert h0 v c, d))"
proof (induction rest acct ord txs sq rule: seq_reorder.induct)
  case (1 acct ord txs sq)
  then show ?case by simp
next
  case (2 n h rest acct ord txs sq)
  then show ?case
    by (auto simp: bt_adjust_insert_commute split: option.splits)
qed

definition seq_of :: "(h256, 'tx tx_info) btree_map \<Rightarrow> h256 \<Rightarrow> nat" where
  "seq_of txs h = (case map_of txs h of Some t \<Rightarrow> ti_seq t | None \<Rightarrow> 0)"

lemma order_agrees_reseq:
  assumes agree: "order_agrees ord txs" and filed: "txs_filed sq txs" and t: "map_of txs h = Some t"
  shows "order_agrees (bt_insert sq h (bt_remove (ti_seq t) ord)) (bt_adjust h (\<lambda>t. t\<lparr>ti_seq := sq\<rparr>) txs)"
proof -
  have lt: "ti_seq u < sq" if "map_of txs k = Some u" for k u
    using filed that by (auto simp: txs_filed_def)
  have key: "s \<noteq> sq \<and> s \<noteq> ti_seq t \<and> map_of ord s = Some k \<longleftrightarrow>
      k \<noteq> h \<and> (\<exists>u. map_of txs k = Some u \<and> ti_seq u = s)" for s k
  proof
    assume "s \<noteq> sq \<and> s \<noteq> ti_seq t \<and> map_of ord s = Some k"
    then show "k \<noteq> h \<and> (\<exists>u. map_of txs k = Some u \<and> ti_seq u = s)"
      using order_agreesD(2) [OF agree, of s k] t by auto
  next
    assume "k \<noteq> h \<and> (\<exists>u. map_of txs k = Some u \<and> ti_seq u = s)"
    then obtain u where u: "k \<noteq> h" "map_of txs k = Some u" "ti_seq u = s" by blast
    then show "s \<noteq> sq \<and> s \<noteq> ti_seq t \<and> map_of ord s = Some k"
      using order_agreesD(1) [OF agree u(2)] order_agrees_inj [OF agree t u(2)] lt [OF u(2)] by auto
  qed
  have "map_of (bt_insert sq h (bt_remove (ti_seq t) ord)) s = Some k \<longleftrightarrow>
      s = sq \<and> k = h \<or> k \<noteq> h \<and> (\<exists>u. map_of txs k = Some u \<and> ti_seq u = s)" for s k
    using key [of s k] lt by auto
  moreover have "(\<exists>u. map_of (bt_adjust h (\<lambda>t. t\<lparr>ti_seq := sq\<rparr>) txs) k = Some u \<and> ti_seq u = s) \<longleftrightarrow>
      s = sq \<and> k = h \<or> k \<noteq> h \<and> (\<exists>u. map_of txs k = Some u \<and> ti_seq u = s)" for s k
    using t by auto
  ultimately show ?thesis
    by (simp add: order_agrees_def del: map_of_bt_insert map_of_bt_remove map_of_bt_adjust)
qed

lemma txs_filed_reseq:
  "txs_filed sq txs \<Longrightarrow> txs_filed (Suc sq) (bt_adjust h (\<lambda>t. t\<lparr>ti_seq := sq\<rparr>) txs)"
  by (auto simp: txs_filed_def less_Suc_eq split: if_splits)

lemma seq_reorder_keeps:
  assumes "seq_reorder rest acct ord txs sq = (acct', ord', txs', sq')"
    and "order_agrees ord txs" and "txs_filed sq txs" and "bt_ok ord" and "bt_ok txs"
  shows "order_agrees ord' txs' \<and> txs_filed sq' txs' \<and> bt_ok ord' \<and> bt_ok txs'"
  using assms
proof (induction rest acct ord txs sq rule: seq_reorder.induct)
  case (1 acct ord txs sq)
  then show ?case by simp
next
  case (2 n h rest acct ord txs sq)
  then show ?case
    by (cases "map_of txs h") (auto simp: order_agrees_reseq txs_filed_reseq)
qed

lemma seq_reorder_account:
  "seq_reorder rest acct ord txs sq = (acct', ord', txs', sq') \<Longrightarrow>
   acct' = acct @ filter (\<lambda>e. map_of txs (snd e) \<noteq> None) rest"
proof (induction rest acct ord txs sq rule: seq_reorder.induct)
  case (1 acct ord txs sq)
  then show ?case by simp
next
  case (2 n h rest acct ord txs sq)
  show ?case
  proof (cases "map_of txs h")
    case None
    with 2 show ?thesis by simp
  next
    case (Some t)
    have "map_of (bt_adjust h f txs) k \<noteq> None \<longleftrightarrow> map_of txs k \<noteq> None" for f k by auto
    with Some 2 show ?thesis by simp
  qed
qed

lemma seq_reorder_frame:
  "seq_reorder rest acct ord txs sq = (acct', ord', txs', sq') \<Longrightarrow>
   (h \<notin> snd ` set rest \<longrightarrow> map_of txs' h = map_of txs h) \<and>
   map_of txs' h = map_option (\<lambda>t. t\<lparr>ti_seq := seq_of txs' h\<rparr>) (map_of txs h)"
proof (induction rest acct ord txs sq rule: seq_reorder.induct)
  case (1 acct ord txs sq)
  then show ?case by (auto simp: seq_of_def map_option_case split: option.splits)
next
  case (2 n k rest acct ord txs sq)
  show ?case
  proof (cases "map_of txs k")
    case None
    with 2 show ?thesis by auto
  next
    case (Some t)
    with 2 show ?thesis by (auto simp: option.map_comp comp_def)
  qed
qed

lemma seq_reorder_sequenced:
  assumes "seq_reorder rest acct ord txs sq = (acct', ord', txs', sq')" and "distinct (map snd rest)"
  shows "sorted_wrt (\<lambda>x y. seq_of txs' (snd x) < seq_of txs' (snd y))
           (filter (\<lambda>e. map_of txs (snd e) \<noteq> None) rest) \<and>
         (\<forall>e \<in> set rest. map_of txs (snd e) \<noteq> None \<longrightarrow> sq \<le> seq_of txs' (snd e))"
  using assms
proof (induction rest acct ord txs sq rule: seq_reorder.induct)
  case (1 acct ord txs sq)
  then show ?case by simp
next
  case (2 n h rest acct ord txs sq)
  show ?case
  proof (cases "map_of txs h")
    case None
    with 2 show ?thesis by simp
  next
    case (Some t)
    let ?txs = "bt_adjust h (\<lambda>t. t\<lparr>ti_seq := sq\<rparr>) txs"
    have run: "seq_reorder rest (acct @ [(n, h)]) (bt_insert sq h (bt_remove (ti_seq t) ord)) ?txs (Suc sq)
        = (acct', ord', txs', sq')"
      using "2.prems" Some by simp
    have known: "map_of ?txs k \<noteq> None \<longleftrightarrow> map_of txs k \<noteq> None" for k by auto
    have "seq_of txs' h = sq"
      using seq_reorder_frame [OF run, of h] "2.prems"(2) Some by (simp add: seq_of_def)
    with "2.IH"(2) [OF Some run] "2.prems"(2) Some known show ?thesis
      by auto
  qed
qed

lemma sorted_wrt_both:
  "sorted_wrt (\<lambda>x y. fst x < fst y) (xs :: ('a::linorder \<times> 'b) list) \<Longrightarrow> sorted_wrt R xs \<Longrightarrow>
   x \<in> set xs \<Longrightarrow> y \<in> set xs \<Longrightarrow> fst x < fst y \<Longrightarrow> R x y"
  by (induction xs) auto


text \<open>The sender's entries, and the state \<open>push\<close> leaves behind, as one run of the reordering.\<close>

definition account_of :: "h160 \<Rightarrow> 'tx seq_pool_list \<Rightarrow> (u64 \<times> h256) list" where
  "account_of c l = (case map_of (sl_accounts l) c of Some acc \<Rightarrow> acc | None \<Rightarrow> [])"

lemma account_of_agrees:
  assumes "seq_inv A l"
  shows "sorted_wrt (\<lambda>x y. fst x < fst y) (account_of c l)"
    and "(n, h) \<in> set (account_of c l) \<longleftrightarrow>
           (\<exists>t. map_of (sl_txs l) h = Some t \<and> ti_caller t = c \<and> ti_nonce A t = n)"
proof -
  have agree: "accounts_agree A (sl_accounts l) (sl_txs l)" using assms by (simp add: seq_inv_def)
  show "sorted_wrt (\<lambda>x y. fst x < fst y) (account_of c l)"
    using accounts_agreeD(1) [OF agree] by (auto simp: account_of_def split: option.splits)
  show "(n, h) \<in> set (account_of c l) \<longleftrightarrow>
           (\<exists>t. map_of (sl_txs l) h = Some t \<and> ti_caller t = c \<and> ti_nonce A t = n)"
  proof (cases "map_of (sl_accounts l) c")
    case None
    with accounts_agree_known [OF agree] show ?thesis by (fastforce simp: account_of_def)
  next
    case (Some acc)
    with accounts_agreeD(2) [OF agree Some] show ?thesis by (simp add: account_of_def)
  qed
qed

lemma seq_list_push_run:
  fixes now :: nat
  assumes inv: "seq_inv A l" and fresh: "map_of (sl_txs l) (ptx_hash tx) = None"
  defines "nonce \<equiv> tx_nonce A (ptx_tx tx)" and "acc \<equiv> account_of (ptx_caller tx) l"
  defines "hi \<equiv> dropWhile (\<lambda>p. fst p < nonce) acc"
  defines "v \<equiv> \<lparr>ti_tx = tx, ti_seq = sl_seq l, ti_failure_reason = None, ti_submit_time = now, ti_submit_to = []\<rparr>"
  assumes drp: "scan_drop nonce hi (sl_order l) (sl_txs l) = (ord, txs)"
    and run: "seq_reorder hi (takeWhile (\<lambda>p. fst p < nonce) acc @ [(nonce, ptx_hash tx)])
      (bt_insert (sl_seq l) (ptx_hash tx) ord) (bt_insert (ptx_hash tx) v txs) (Suc (sl_seq l))
      = (acct', ord', txs', sq')"
  shows "\<exists>accounts. bt_ok accounts \<and>
    (\<forall>a. map_of accounts a = (if a = ptx_caller tx then Some acct' else map_of (sl_accounts l) a)) \<and>
    seq_list_push A now tx l =
      (ptx_hash tx, \<lparr>sl_order = ord', sl_txs = txs', sl_accounts = accounts, sl_seq = sq'\<rparr>)"
proof -
  let ?c = "ptx_caller tx" and ?h = "ptx_hash tx"
  define accounts where "accounts = (if bt_contains_key ?c (sl_accounts l) then sl_accounts l
                      else bt_insert ?c [] (sl_accounts l))"
  have acc: "map_of accounts a = (if a = ?c then Some acc else map_of (sl_accounts l) a)" for a
    by (auto simp: accounts_def acc_def account_of_def bt_contains_key_def split: option.splits)
  have ok: "bt_ok accounts" using inv by (simp add: accounts_def seq_inv_def)
  have new: "(n, ?h) \<notin> set acc" for n
    using account_of_agrees(2) [OF inv] fresh by (simp add: acc_def)
  then have h: "?h \<notin> snd ` set hi"
    by (auto simp: hi_def dest: set_dropWhileD)
  obtain txs'' where run': "seq_reorder hi (takeWhile (\<lambda>p. fst p < nonce) acc @ [(nonce, ?h)])
      (bt_insert (sl_seq l) ?h ord) txs (Suc (sl_seq l)) = (acct', ord', txs'', sq')"
    and txs': "txs' = bt_insert ?h v txs''"
    using run unfolding seq_reorder_insert [OF h] by (auto split: prod.splits)
  have split: "take (length (takeWhile (\<lambda>p. fst p < nonce) acc)) acc = takeWhile (\<lambda>p. fst p < nonce) acc"
    "drop (length (takeWhile (\<lambda>p. fst p < nonce) acc)) acc = hi"
    by (simp_all add: hi_def dropWhile_eq_drop flip: takeWhile_eq_take)
  have scan: "seq_scan nonce ?h 0 acc (sl_order l) (sl_txs l) =
      Some (if hi = [] then None else Some (length (takeWhile (\<lambda>p. fst p < nonce) acc)), ord, txs)"
    unfolding seq_scan_eq [OF new] Let_def hi_def [symmetric] drp by simp
  have nil: "takeWhile (\<lambda>p. fst p < nonce) acc = acc" if "hi = []"
    using that by (metis hi_def append_Nil2 takeWhile_dropWhile_id)
  have "seq_list_push A now tx l =
     (?h, \<lparr>sl_order = ord', sl_txs = txs', sl_accounts = bt_adjust ?c (\<lambda>_. acct') accounts, sl_seq = sq'\<rparr>)"
    using run' by (auto simp: seq_list_push_def acc nonce_def [symmetric] accounts_def [symmetric] scan split
        Let_def txs' v_def nil)
  moreover have "map_of (bt_adjust ?c (\<lambda>_. acct') accounts) a =
      (if a = ?c then Some acct' else map_of (sl_accounts l) a)" for a
    by (simp add: acc)
  ultimately show ?thesis using ok by (intro exI [of _ "bt_adjust ?c (\<lambda>_. acct') accounts"]) simp
qed


text \<open>The scan drops exactly the sender's transaction with the same nonce.\<close>

lemma scan_drop_keeps:
  assumes "scan_drop nonce hi ord txs = (ord', txs')"
    and "order_agrees ord txs" and "txs_filed sq txs" and "bt_ok ord" and "bt_ok txs"
  shows "order_agrees ord' txs' \<and> txs_filed sq txs' \<and> bt_ok ord' \<and> bt_ok txs'"
  using assms
  by (auto simp: scan_drop_def order_agrees_remove txs_filed_remove split: list.splits if_splits option.splits)

lemma sorted_hi_head:
  assumes "sorted_wrt (\<lambda>x y. fst x < fst y) (acc :: ('a::linorder \<times> 'b) list)"
    and "dropWhile (\<lambda>p. fst p < nonce) acc = hi"
  shows "(nonce, k) \<in> set acc \<longleftrightarrow> (\<exists>rest. hi = (nonce, k) # rest)"
  using assms
  by (induction acc arbitrary: hi) (auto split: if_splits)

lemma scan_drop_txs:
  assumes inv: "seq_inv A l"
    and drp: "scan_drop nonce (dropWhile (\<lambda>p. fst p < nonce) (account_of c l)) (sl_order l) (sl_txs l) = (ord, txs)"
  shows "map_of txs k = Some u \<longleftrightarrow>
    map_of (sl_txs l) k = Some u \<and> \<not> (ti_caller u = c \<and> ti_nonce A u = nonce)"
proof -
  define hi where "hi = dropWhile (\<lambda>p. fst p < nonce) (account_of c l)"
  note acc = account_of_agrees [where c = c, OF inv]
  have head: "(\<exists>t. map_of (sl_txs l) j = Some t \<and> ti_caller t = c \<and> ti_nonce A t = nonce) \<longleftrightarrow>
      (\<exists>rest. hi = (nonce, j) # rest)" for j
    unfolding acc(2) [symmetric] by (rule sorted_hi_head [OF acc(1) hi_def [symmetric]])
  show ?thesis
  proof (cases "\<exists>j rest. hi = (nonce, j) # rest")
    case True
    then obtain j rest where hi: "hi = (nonce, j) # rest" by blast
    with head obtain t where "map_of (sl_txs l) j = Some t" "ti_caller t = c" "ti_nonce A t = nonce" by blast
    moreover from this have "txs = bt_remove j (sl_txs l)"
      using drp by (simp add: hi_def [symmetric] hi scan_drop_def)
    ultimately show ?thesis using head [of k] hi by auto
  next
    case False
    then have "txs = sl_txs l"
      using drp by (auto simp: hi_def [symmetric] scan_drop_def split: list.splits if_splits)
    with False head show ?thesis by blast
  qed
qed

lemma order_agrees_insert:
  assumes "order_agrees ord txs" and "txs_filed sq txs" and "map_of txs h = None" and "ti_seq v = sq"
  shows "order_agrees (bt_insert sq h ord) (bt_insert h v txs)"
  unfolding order_agrees_def
proof (intro allI)
  fix s k
  have old: "map_of ord s = Some k \<longleftrightarrow> (\<exists>t. map_of txs k = Some t \<and> ti_seq t = s)"
    using assms(1) by (auto simp: order_agrees_def)
  have "\<nexists>t. map_of txs k = Some t \<and> ti_seq t = sq" using assms(2) by (auto simp: txs_filed_def)
  with old assms(3,4) show "map_of (bt_insert sq h ord) s = Some k \<longleftrightarrow>
      (\<exists>t. map_of (bt_insert h v txs) k = Some t \<and> ti_seq t = s)" by auto
qed

lemma txs_filed_insert:
  "txs_filed sq txs \<Longrightarrow> ptx_hash (ti_tx v) = h \<Longrightarrow> ti_seq v = sq \<Longrightarrow> txs_filed (Suc sq) (bt_insert h v txs)"
  by (auto simp: txs_filed_def less_Suc_eq)



lemma nonce_sequencedD:
  "nonce_sequenced A txs \<Longrightarrow> map_of txs h = Some t \<Longrightarrow> map_of txs h' = Some t' \<Longrightarrow>
   ti_caller t = ti_caller t' \<Longrightarrow> ti_nonce A t < ti_nonce A t' \<Longrightarrow> ti_seq t < ti_seq t'"
  unfolding nonce_sequenced_def by blast

text \<open>The reordering changes nothing of a transaction but its sequence number.\<close>

lemma seq_reorder_same:
  assumes "seq_reorder rest acct ord txs sq = (acct', ord', txs', sq')"
  shows "(\<exists>t. map_of txs' k = Some t \<and> ti_caller t = a \<and> ti_nonce A t = n) \<longleftrightarrow>
         (\<exists>t. map_of txs k = Some t \<and> ti_caller t = a \<and> ti_nonce A t = n)"
proof -
  have "map_of txs' k = map_option (\<lambda>t. t\<lparr>ti_seq := seq_of txs' k\<rparr>) (map_of txs k)"
    using seq_reorder_frame [OF assms] by blast
  then show ?thesis by (cases "map_of txs k") simp_all
qed

lemma push_known:
  assumes inv: "seq_inv A l" and fresh: "map_of (sl_txs l) h = None"
    and drp: "scan_drop nonce (dropWhile (\<lambda>p. fst p < nonce) (account_of c l)) (sl_order l) (sl_txs l) = (ord, txs)"
    and e: "e \<in> set (account_of c l)"
  shows "map_of (bt_insert h v txs) (snd e) \<noteq> None \<longleftrightarrow> fst e \<noteq> nonce"
proof -
  obtain t where t: "map_of (sl_txs l) (snd e) = Some t" "ti_caller t = c" "ti_nonce A t = fst e"
    using e account_of_agrees(2) [OF inv, of "fst e" "snd e" c] by auto
  then have "snd e \<noteq> h" using fresh by auto
  moreover have "map_of txs (snd e) \<noteq> None \<longleftrightarrow> fst e \<noteq> nonce"
    using scan_drop_txs [OF inv drp, of "snd e"] t by (metis not_None_eq option.inject)
  ultimately show ?thesis by simp
qed

lemma account_hashes_distinct:
  assumes inv: "seq_inv A l"
  shows "distinct (map snd (account_of c l))"
  unfolding distinct_map
proof (intro conjI inj_onI)
  note acc = account_of_agrees [where c = c, OF inv]
  show "distinct (account_of c l)" using acc(1) by (rule sorted_fst_distinct)
  fix x y assume "x \<in> set (account_of c l)" "y \<in> set (account_of c l)" "snd x = snd y"
  then show "x = y"
    using acc(2) [of "fst x" "snd x"] acc(2) [of "fst y" "snd y"]
    by (metis option.inject prod.collapse)
qed

text \<open>
  The sender's entries after \<open>push\<close>: the entries of smaller nonce, the new one, and the entries of
  larger nonce; they are exactly the sender's transactions.
\<close>

lemma push_entries:
  assumes inv: "seq_inv A l" and fresh: "map_of (sl_txs l) h = None"
    and drp: "scan_drop nonce hi (sl_order l) (sl_txs l) = (ord, txs)"
    and hi: "hi = dropWhile (\<lambda>p. fst p < nonce) (account_of c l)"
    and v: "ti_caller v = c" "ti_nonce A v = nonce"
    and acct: "acct' = takeWhile (\<lambda>p. fst p < nonce) (account_of c l) @
      (nonce, h) # filter (\<lambda>e. map_of (bt_insert h v txs) (snd e) \<noteq> None) hi"
  shows "sorted_wrt (\<lambda>x y. fst x < fst y) acct'"
    and "(n, k) \<in> set acct' \<longleftrightarrow>
      (\<exists>t. map_of (bt_insert h v txs) k = Some t \<and> ti_caller t = c \<and> ti_nonce A t = n)"
proof -
  define lo where "lo = takeWhile (\<lambda>p. fst p < nonce) (account_of c l)"
  note acc = account_of_agrees [where c = c, OF inv]
  note K = scan_drop_txs [OF inv drp [unfolded hi]]
  have split: "account_of c l = lo @ hi" by (simp add: hi lo_def)
  have lt: "fst x < nonce" if "x \<in> set lo" for x using that by (auto simp: lo_def dest: takeWhile_less)
  have known: "map_of (bt_insert h v txs) (snd e) \<noteq> None \<longleftrightarrow> fst e \<noteq> nonce" if "e \<in> set hi" for e
    using push_known [OF inv fresh drp [unfolded hi], of e] that by (simp add: split)
  have ge: "nonce \<le> fst x" if "x \<in> set hi" for x
    using dropWhile_not_less [OF acc(1)] that by (simp add: hi)
  have acct2: "acct' = lo @ (nonce, h) # filter (\<lambda>e. fst e \<noteq> nonce) hi"
    using known by (simp add: acct lo_def cong: filter_cong)
  have "sorted_wrt (\<lambda>x y. fst x < fst y) (lo @ hi)" using acc(1) split by simp
  then show "sorted_wrt (\<lambda>x y. fst x < fst y) acct'"
    unfolding acct2 using ge lt
    by (intro sorted_wrt_middle) (auto simp: sorted_wrt_append sorted_wrt_filter order_less_le)
  have "(n, k) \<in> set acct' \<longleftrightarrow> (n, k) = (nonce, h) \<or> (n, k) \<in> set (account_of c l) \<and> n \<noteq> nonce"
    using lt [of "(n, k)"] by (auto simp: acct2 split)
  also have "\<dots> \<longleftrightarrow> (\<exists>t. map_of (bt_insert h v txs) k = Some t \<and> ti_caller t = c \<and> ti_nonce A t = n)"
  proof (cases "k = h")
    case True
    then show ?thesis using acc(2) [of n h] fresh v by simp metis
  next
    case False
    then show ?thesis using K [of k] unfolding acc(2) [of n k] by simp metis
  qed
  finally show "(n, k) \<in> set acct' \<longleftrightarrow>
      (\<exists>t. map_of (bt_insert h v txs) k = Some t \<and> ti_caller t = c \<and> ti_nonce A t = n)" .
qed

lemma push_sequenced:
  assumes inv: "seq_inv A l" and fresh: "map_of (sl_txs l) h = None"
    and drp: "scan_drop nonce hi (sl_order l) (sl_txs l) = (ord, txs)"
    and hi: "hi = dropWhile (\<lambda>p. fst p < nonce) (account_of c l)"
    and lo: "lo = takeWhile (\<lambda>p. fst p < nonce) (account_of c l)"
    and v: "ti_seq v = sl_seq l"
    and run: "seq_reorder hi (lo @ [(nonce, h)]) ord1 (bt_insert h v txs) (Suc (sl_seq l)) = (acct', ord', txs', sq')"
  shows "sorted_wrt (\<lambda>x y. seq_of txs' (snd x) < seq_of txs' (snd y)) acct'"
proof -
  note acc = account_of_agrees [where c = c, OF inv]
  note K = scan_drop_txs [OF inv drp [unfolded hi]]
  have split: "account_of c l = lo @ hi" by (simp add: lo hi)
  note dist = account_hashes_distinct [OF inv, of c]
  have h: "h \<notin> snd ` set (account_of c l)"
    using acc(2) [where h = h] fresh by auto
  note frame = seq_reorder_frame [OF run]
  have keep: "\<exists>t. map_of (sl_txs l) (snd e) = Some t \<and> ti_caller t = c \<and> ti_nonce A t = fst e \<and>
      seq_of txs' (snd e) = ti_seq t" if e: "e \<in> set lo" for e
  proof -
    from e acc(2) [of "fst e" "snd e"]
    obtain t where t: "map_of (sl_txs l) (snd e) = Some t" "ti_caller t = c" "ti_nonce A t = fst e"
      unfolding split by auto
    moreover have "fst e \<noteq> nonce" using e takeWhile_less [of e nonce] by (auto simp: lo)
    ultimately have "map_of txs (snd e) = Some t" using K by simp
    moreover have "snd e \<notin> snd ` set hi" "snd e \<noteq> h"
      using dist h e unfolding split by auto
    ultimately show ?thesis using frame [of "snd e"] t by (simp add: seq_of_def)
  qed
  have "sorted_wrt (\<lambda>x y. fst x < fst y) lo" using acc(1) by (simp add: split sorted_wrt_append)
  then have "sorted_wrt (\<lambda>x y. seq_of txs' (snd x) < seq_of txs' (snd y)) lo"
  proof (rule sorted_wrt_weaken)
    fix x y assume "x \<in> set lo" "y \<in> set lo" "fst x < fst y"
    with keep [of x] keep [of y] inv show "seq_of txs' (snd x) < seq_of txs' (snd y)"
      unfolding seq_inv_def by (metis nonce_sequencedD)
  qed
  moreover have "seq_of txs' (snd e) < sl_seq l" if "e \<in> set lo" for e
    using keep [OF that] inv by (auto simp: seq_inv_def txs_filed_def)
  moreover have "seq_of txs' h = sl_seq l"
    using frame [of h] h v by (auto simp: seq_of_def split)
  moreover have "distinct (map snd hi)" using dist by (simp add: split)
  note seq_reorder_sequenced [OF run this]
  ultimately show ?thesis
    unfolding seq_reorder_account [OF run] append_assoc append_Cons append_Nil
    by (intro sorted_wrt_middle) (auto simp: Suc_le_eq)
qed

text \<open>One sender's entries change, the transactions of every other sender stay.\<close>

lemma accounts_agree_change:
  assumes agree: "accounts_agree A old txs"
    and lookup: "\<And>a. map_of accounts a = (if a = c then Some acct else map_of old a)"
    and sorted: "sorted_wrt (\<lambda>x y. fst x < fst y) acct"
    and entries: "\<And>n k. (n, k) \<in> set acct \<longleftrightarrow>
      (\<exists>t. map_of txs' k = Some t \<and> ti_caller t = c \<and> ti_nonce A t = n)"
    and frame: "\<And>k t. ti_caller t \<noteq> c \<Longrightarrow> map_of txs' k = Some t \<longleftrightarrow> map_of txs k = Some t"
  shows "accounts_agree A accounts txs'"
  unfolding accounts_agree_def
proof (intro conjI allI impI)
  fix a acc
  assume a: "map_of accounts a = Some acc"
  show "sorted_wrt (\<lambda>x y. fst x < fst y) acc"
    using a lookup sorted accounts_agreeD(1) [OF agree] by (auto split: if_splits)
  fix n k
  show "(n, k) \<in> set acc \<longleftrightarrow> (\<exists>t. map_of txs' k = Some t \<and> ti_caller t = a \<and> ti_nonce A t = n)"
  proof (cases "a = c")
    case True
    with a lookup [of c] have "acc = acct" by simp
    then show ?thesis unfolding True by (simp only: entries)
  next
    case False
    with a lookup have "map_of old a = Some acc" by simp
    moreover have "map_of txs' k = Some t \<and> ti_caller t = a \<longleftrightarrow> map_of txs k = Some t \<and> ti_caller t = a" for t
      using frame [of t k] False by auto
    ultimately show ?thesis unfolding accounts_agreeD(2) [OF agree \<open>map_of old a = Some acc\<close>] by blast
  qed
next
  fix k t
  assume t: "map_of txs' k = Some t"
  show "map_of accounts (ti_caller t) \<noteq> None"
    using t frame [of t k] lookup accounts_agree_known [OF agree, of k t] by auto
qed

lemma nonce_sequenced_change:
  assumes old: "nonce_sequenced A txs"
    and sorted: "sorted_wrt (\<lambda>x y. fst x < fst y) acct"
    and seqs: "sorted_wrt (\<lambda>x y. seq_of txs' (snd x) < seq_of txs' (snd y)) acct"
    and entries: "\<And>n k. (n, k) \<in> set acct \<longleftrightarrow>
      (\<exists>t. map_of txs' k = Some t \<and> ti_caller t = c \<and> ti_nonce A t = n)"
    and frame: "\<And>k t. ti_caller t \<noteq> c \<Longrightarrow> map_of txs' k = Some t \<longleftrightarrow> map_of txs k = Some t"
  shows "nonce_sequenced A txs'"
  unfolding nonce_sequenced_def
proof (intro allI impI)
  fix h t h' t'
  assume t: "map_of txs' h = Some t" and t': "map_of txs' h' = Some t'"
    and c: "ti_caller t = ti_caller t'" and lt: "ti_nonce A t < ti_nonce A t'"
  show "ti_seq t < ti_seq t'"
  proof (cases "ti_caller t = c")
    case True
    with c t t' entries have "(ti_nonce A t, h) \<in> set acct" "(ti_nonce A t', h') \<in> set acct" by auto
    with sorted_wrt_both [OF sorted seqs] lt show ?thesis by (fastforce simp: seq_of_def t t')
  next
    case False
    with frame t t' c have "map_of txs h = Some t" "map_of txs h' = Some t'" by metis+
    then show ?thesis using nonce_sequencedD [OF old] c lt by blast
  qed
qed

lemma push_frame:
  assumes inv: "seq_inv A l"
    and drp: "scan_drop nonce (dropWhile (\<lambda>p. fst p < nonce) (account_of c l)) (sl_order l) (sl_txs l) = (ord, txs)"
    and run: "seq_reorder (dropWhile (\<lambda>p. fst p < nonce) (account_of c l)) acct ord1 (bt_insert h v txs) sq
      = (acct', ord', txs', sq')"
    and fresh: "map_of (sl_txs l) h = None" and v: "ti_caller v = c" and t: "ti_caller t \<noteq> c"
  shows "map_of txs' k = Some t \<longleftrightarrow> map_of (sl_txs l) k = Some t"
proof (cases "k \<in> snd ` set (dropWhile (\<lambda>p. fst p < nonce) (account_of c l))")
  case True
  then obtain n where "(n, k) \<in> set (account_of c l)" by (auto dest: set_dropWhileD)
  then obtain u where u: "map_of (sl_txs l) k = Some u" "ti_caller u = c"
    using account_of_agrees(2) [OF inv] by blast
  have "map_of txs' k = map_option (\<lambda>t. t\<lparr>ti_seq := seq_of txs' k\<rparr>) (map_of (bt_insert h v txs) k)"
    using seq_reorder_frame [OF run] by blast
  moreover have "ti_caller w = c" if w: "map_of (bt_insert h v txs) k = Some w" for w
    using w u v scan_drop_txs [OF inv drp, of k w] by (auto split: if_splits)
  ultimately show ?thesis using t u by (cases "map_of (bt_insert h v txs) k") auto
next
  case False
  then have "map_of txs' k = map_of (bt_insert h v txs) k" using seq_reorder_frame [OF run] by blast
  then show ?thesis using scan_drop_txs [OF inv drp, of k t] t v fresh by auto
qed

text \<open>The quantities of a run of \<open>push\<close> that the proofs below refer to.\<close>

lemma seq_list_push_runE:
  assumes inv: "seq_inv A l" and fresh: "map_of (sl_txs l) (ptx_hash tx) = None"
  obtains lo hi v ord txs acct' ord' txs' sq' accounts where
    "lo = takeWhile (\<lambda>p. fst p < tx_nonce A (ptx_tx tx)) (account_of (ptx_caller tx) l)"
    "hi = dropWhile (\<lambda>p. fst p < tx_nonce A (ptx_tx tx)) (account_of (ptx_caller tx) l)"
    "ti_tx v = tx" "ti_seq v = sl_seq l"
    "scan_drop (tx_nonce A (ptx_tx tx)) hi (sl_order l) (sl_txs l) = (ord, txs)"
    "seq_reorder hi (lo @ [(tx_nonce A (ptx_tx tx), ptx_hash tx)]) (bt_insert (sl_seq l) (ptx_hash tx) ord)
      (bt_insert (ptx_hash tx) v txs) (Suc (sl_seq l)) = (acct', ord', txs', sq')"
    "bt_ok accounts"
    "\<And>a. map_of accounts a = (if a = ptx_caller tx then Some acct' else map_of (sl_accounts l) a)"
    "seq_list_push A now tx l =
      (ptx_hash tx, \<lparr>sl_order = ord', sl_txs = txs', sl_accounts = accounts, sl_seq = sq'\<rparr>)"
    "map_of txs (ptx_hash tx) = None"
proof -
  define nonce where "nonce = tx_nonce A (ptx_tx tx)"
  define lo hi where "lo = takeWhile (\<lambda>p. fst p < nonce) (account_of (ptx_caller tx) l)"
    and "hi = dropWhile (\<lambda>p. fst p < nonce) (account_of (ptx_caller tx) l)"
  define v where "v = \<lparr>ti_tx = tx, ti_seq = sl_seq l, ti_failure_reason = None, ti_submit_time = now,
    ti_submit_to = []\<rparr>"
  obtain ord txs where drp: "scan_drop nonce hi (sl_order l) (sl_txs l) = (ord, txs)" by fastforce
  obtain acct' ord' txs' sq' where run: "seq_reorder hi (lo @ [(nonce, ptx_hash tx)])
      (bt_insert (sl_seq l) (ptx_hash tx) ord) (bt_insert (ptx_hash tx) v txs) (Suc (sl_seq l))
      = (acct', ord', txs', sq')" by (metis prod_cases4)
  have "map_of txs (ptx_hash tx) = None"
    using scan_drop_txs [OF inv drp [unfolded hi_def], of "ptx_hash tx"] fresh
    by (cases "map_of txs (ptx_hash tx)") auto
  moreover obtain accounts where "bt_ok accounts"
    "\<And>a. map_of accounts a = (if a = ptx_caller tx then Some acct' else map_of (sl_accounts l) a)"
    "seq_list_push A now tx l =
      (ptx_hash tx, \<lparr>sl_order = ord', sl_txs = txs', sl_accounts = accounts, sl_seq = sq'\<rparr>)"
    using seq_list_push_run [OF inv fresh, folded nonce_def, folded lo_def hi_def, OF drp run [unfolded v_def]]
    by blast
  ultimately show thesis
    using that [OF lo_def [unfolded nonce_def] hi_def [unfolded nonce_def] _ _ drp [unfolded nonce_def]
        run [unfolded nonce_def]]
    by (simp add: v_def)
qed

lemma seq_list_push_inv:
  assumes inv: "seq_inv A l" and fresh: "map_of (sl_txs l) (ptx_hash tx) = None"
  shows "seq_inv A (snd (seq_list_push A now tx l))"
proof (rule seq_list_push_runE [OF assms, of now])
  fix lo hi v ord txs acct' ord' txs' sq' accounts
  let ?nonce = "tx_nonce A (ptx_tx tx)" and ?c = "ptx_caller tx" and ?h = "ptx_hash tx"
  assume lo: "lo = takeWhile (\<lambda>p. fst p < ?nonce) (account_of ?c l)"
    and hi: "hi = dropWhile (\<lambda>p. fst p < ?nonce) (account_of ?c l)"
    and v: "ti_tx v = tx" "ti_seq v = sl_seq l"
    and drp: "scan_drop ?nonce hi (sl_order l) (sl_txs l) = (ord, txs)"
    and run: "seq_reorder hi (lo @ [(?nonce, ?h)]) (bt_insert (sl_seq l) ?h ord)
      (bt_insert ?h v txs) (Suc (sl_seq l)) = (acct', ord', txs', sq')"
    and ok: "bt_ok accounts"
    and lookup: "\<And>a. map_of accounts a = (if a = ?c then Some acct' else map_of (sl_accounts l) a)"
    and eq: "seq_list_push A now tx l =
      (?h, \<lparr>sl_order = ord', sl_txs = txs', sl_accounts = accounts, sl_seq = sq'\<rparr>)"
    and none: "map_of txs ?h = None"
  have v': "ti_caller v = ?c" "ti_nonce A v = ?nonce" using v by simp_all
  have "order_agrees ord txs \<and> txs_filed (sl_seq l) txs \<and> bt_ok ord \<and> bt_ok txs"
    using inv by (intro scan_drop_keeps [OF drp]) (simp_all add: seq_inv_def)
  then have base: "order_agrees ord' txs' \<and> txs_filed sq' txs' \<and> bt_ok ord' \<and> bt_ok txs'"
    using none v by (intro seq_reorder_keeps [OF run]) (simp_all add: order_agrees_insert txs_filed_insert)
  have acct': "acct' = lo @ (?nonce, ?h) # filter (\<lambda>e. map_of (bt_insert ?h v txs) (snd e) \<noteq> None) hi"
    using seq_reorder_account [OF run] by simp
  note entries = push_entries [OF inv fresh drp hi v' acct' [unfolded lo]]
  have mem: "(n, k) \<in> set acct' \<longleftrightarrow>
      (\<exists>t. map_of txs' k = Some t \<and> ti_caller t = ?c \<and> ti_nonce A t = n)" for n k
    unfolding seq_reorder_same [OF run] by (rule entries(2))
  have frame: "map_of txs' k = Some t \<longleftrightarrow> map_of (sl_txs l) k = Some t" if "ti_caller t \<noteq> ?c" for k t
    using push_frame [OF inv drp [unfolded hi] run [unfolded hi] fresh v'(1) that] .
  note seqs = push_sequenced [OF inv fresh drp hi lo v(2) run]
  show ?thesis
    using inv base ok accounts_agree_change [OF _ lookup entries(1) mem frame]
      nonce_sequenced_change [OF _ entries(1) seqs mem frame]
    by (simp add: eq seq_inv_def)
qed

end
