(* ===== verification/Tx_Order.thy ===== *)
theory Tx_Order
  imports Seq_List
begin

text \<open>
  The order in which public transactions are tried: \<open>TransactionsByPriceAndNonce\<close>,
  \<open>TxWithMinerFee\<close> and \<open>BinaryHeap\<close> of \<open>src/common/txpool/src/types.rs\<close>.

  The heap of the sources is a \<open>BTreeMap\<close> whose keys are \<open>Reverse(TxWithMinerFee)\<close>: here the list of
  its keys, by decreasing miner fee and, for equal fees, by decreasing hash.  Two keys of the same
  fee and hash are equal for the map, so inserting the second one keeps the first.
\<close>

record 'tx tx_with_miner_fee =
  mf_tx :: "'tx pool_tx"
  mf_fee :: u256

record 'tx by_price =
  bp_txs :: "(h160, 'tx pool_tx list) btree_map"
  bp_heads :: "'tx tx_with_miner_fee list"
  bp_base_fee :: u256

definition miner_fee_new ::
  "'tx tx_api \<Rightarrow> 'tx pool_tx \<Rightarrow> u256 option \<Rightarrow> pool_error + 'tx tx_with_miner_fee" where
  "miner_fee_new A tx base_fee =
     (case tx_effective_gas_tip A (ptx_tx tx) base_fee of
        Some miner_fee \<Rightarrow> Inr \<lparr>mf_tx = tx, mf_fee = miner_fee\<rparr>
      | None \<Rightarrow> Inl ErrGasFeeCapTooLow)"

text \<open>\<open>Ord for TxWithMinerFee\<close>: \<open>cmp\<close> as \<open>less\<close> and \<open>equal\<close>.\<close>

definition mf_less :: "'tx tx_with_miner_fee \<Rightarrow> 'tx tx_with_miner_fee \<Rightarrow> bool" where
  "mf_less a b \<longleftrightarrow>
     (if mf_fee a = mf_fee b then ptx_hash (mf_tx a) < ptx_hash (mf_tx b) else mf_fee a < mf_fee b)"

definition mf_eq :: "'tx tx_with_miner_fee \<Rightarrow> 'tx tx_with_miner_fee \<Rightarrow> bool" where
  "mf_eq a b \<longleftrightarrow> mf_fee a = mf_fee b \<and> ptx_hash (mf_tx a) = ptx_hash (mf_tx b)"

section \<open>\<open>BinaryHeap\<close>\<close>

definition heap_new :: "'tx tx_with_miner_fee list" where
  "heap_new = []"

fun heap_push :: "'tx tx_with_miner_fee \<Rightarrow> 'tx tx_with_miner_fee list \<Rightarrow> 'tx tx_with_miner_fee list" where
  "heap_push n [] = [n]"
| "heap_push n (x # xs) =
     (if mf_less x n then n # x # xs
      else if mf_eq n x then x # xs
      else x # heap_push n xs)"

fun heap_pop :: "'tx tx_with_miner_fee list \<Rightarrow> 'tx tx_with_miner_fee list" where
  "heap_pop [] = []"
| "heap_pop (x # xs) = xs"

fun heap_peek :: "'tx tx_with_miner_fee list \<Rightarrow> 'tx tx_with_miner_fee option" where
  "heap_peek [] = None"
| "heap_peek (x # xs) = Some x"

definition heap_len :: "'tx tx_with_miner_fee list \<Rightarrow> nat" where
  "heap_len xs = length xs"

section \<open>\<open>TransactionsByPriceAndNonce\<close>\<close>

text \<open>The loop of \<open>new\<close> over the accounts, in the order of their addresses.\<close>

fun by_price_heads ::
  "'tx tx_api \<Rightarrow> u256 \<Rightarrow> (h160, 'tx pool_tx list) btree_map \<Rightarrow> 'tx tx_with_miner_fee list
     \<Rightarrow> (h160, 'tx pool_tx list) btree_map \<times> 'tx tx_with_miner_fee list" where
  "by_price_heads A base_fee [] heads = ([], heads)"
| "by_price_heads A base_fee ((acc, acc_txs) # txs) heads =
     (let (acc_txs', heads') =
            (case acc_txs of
               [] \<Rightarrow> ([], heads)
             | t # ts \<Rightarrow>
                 (case miner_fee_new A t (Some base_fee) of
                    Inr wrapper \<Rightarrow> (ts, heap_push wrapper heads)
                  | Inl _ \<Rightarrow> (t # ts, heads)));
          (txs', heads'') = by_price_heads A base_fee txs heads'
      in ((acc, acc_txs') # txs', heads''))"

definition by_price_new :: "'tx tx_api \<Rightarrow> (h160, 'tx pool_tx list) btree_map \<Rightarrow> u256 \<Rightarrow> 'tx by_price" where
  "by_price_new A txs base_fee =
     (let (txs', heads) = by_price_heads A base_fee txs heap_new
      in \<lparr>bp_txs = txs', bp_heads = heads, bp_base_fee = base_fee\<rparr>)"

definition by_price_head_len :: "'tx by_price \<Rightarrow> nat" where
  "by_price_head_len q = heap_len (bp_heads q)"

definition by_price_len :: "'tx by_price \<Rightarrow> nat" where
  "by_price_len q = sum_list (map (\<lambda>(_, tx). length tx) (bp_txs q)) + heap_len (bp_heads q)"

definition by_price_pop :: "'tx by_price \<Rightarrow> 'tx by_price" where
  "by_price_pop q = q\<lparr>bp_heads := heap_pop (bp_heads q)\<rparr>"

definition by_price_shift :: "'tx tx_api \<Rightarrow> 'tx by_price \<Rightarrow> 'tx by_price" where
  "by_price_shift A q =
     (case heap_peek (bp_heads q) of
        None \<Rightarrow> q
      | Some info \<Rightarrow>
          let acc = tx_sender A (ptx_tx (mf_tx info))
          in (case map_of (bp_txs q) acc of
                Some (t # ts) \<Rightarrow>
                  (case miner_fee_new A t (Some (bp_base_fee q)) of
                     Inr wrapper \<Rightarrow>
                       q\<lparr>bp_txs := bt_adjust acc (\<lambda>_. ts) (bp_txs q),
                         bp_heads := heap_push wrapper (heap_pop (bp_heads q))\<rparr>
                   | Inl _ \<Rightarrow> q\<lparr>bp_heads := heap_pop (bp_heads q)\<rparr>)
              | _ \<Rightarrow> q\<lparr>bp_heads := heap_pop (bp_heads q)\<rparr>))"

text \<open>\<open>peekn\<close> pushes before it compares, so it returns one transaction for \<open>n = 0\<close>, too.\<close>

definition by_price_peekn :: "nat \<Rightarrow> 'tx by_price \<Rightarrow> 'tx pool_tx list" where
  "by_price_peekn n q = map mf_tx (take (max n 1) (bp_heads q))"

definition by_price_replace :: "'tx tx_api \<Rightarrow> 'tx pool_tx list \<Rightarrow> 'tx by_price \<Rightarrow> 'tx by_price" where
  "by_price_replace A txs q =
     fold (\<lambda>tx q. case miner_fee_new A tx (Some (bp_base_fee q)) of
                     Inr tx \<Rightarrow> q\<lparr>bp_heads := heap_push tx (bp_heads q)\<rparr>
                   | Inl _ \<Rightarrow> q) txs q"

definition by_price_peek :: "'tx by_price \<Rightarrow> 'tx pool_tx option" where
  "by_price_peek q = map_option mf_tx (heap_peek (bp_heads q))"

section \<open>The heap\<close>

definition heap_ok :: "'tx tx_with_miner_fee list \<Rightarrow> bool" where
  "heap_ok xs \<longleftrightarrow> sorted_wrt (\<lambda>a b. mf_less b a) xs"

lemma mf_less_trans: "mf_less a b \<Longrightarrow> mf_less b c \<Longrightarrow> mf_less a c"
  by (auto simp: mf_less_def split: if_splits)

lemma mf_less_irrefl: "\<not> mf_less a a"
  by (simp add: mf_less_def)

lemma mf_less_linear: "mf_less a b \<or> mf_eq a b \<or> mf_less b a"
  by (auto simp: mf_less_def mf_eq_def)

lemma mf_eq_less: "mf_eq a b \<Longrightarrow> \<not> mf_less a b \<and> \<not> mf_less b a"
  by (auto simp: mf_less_def mf_eq_def)

lemma mf_less_cong: "mf_eq a b \<Longrightarrow> mf_less a c = mf_less b c \<and> mf_less c a = mf_less c b"
  by (auto simp: mf_less_def mf_eq_def)

lemma set_heap_push_subset: "set (heap_push n xs) \<subseteq> insert n (set xs)"
  by (induction xs) auto

lemma set_heap_push: "(\<And>x. x \<in> set xs \<Longrightarrow> \<not> mf_eq n x) \<Longrightarrow> set (heap_push n xs) = insert n (set xs)"
  by (induction xs) auto

lemma length_heap_push: "length (heap_push n xs) \<le> Suc (length xs)"
  by (induction xs) auto

lemma length_heap_push_new: "(\<And>x. x \<in> set xs \<Longrightarrow> \<not> mf_eq n x) \<Longrightarrow> length (heap_push n xs) = Suc (length xs)"
  by (induction xs) auto

lemma heap_ok_push: "heap_ok xs \<Longrightarrow> heap_ok (heap_push n xs)"
proof (induction xs)
  case Nil
  then show ?case by (simp add: heap_ok_def)
next
  case (Cons x xs)
  then have ok: "heap_ok xs" and x: "\<forall>y\<in>set xs. mf_less y x" by (auto simp: heap_ok_def)
  consider "mf_less x n" | "mf_eq n x" | "mf_less n x" "\<not> mf_eq n x" "\<not> mf_less x n"
    using mf_less_linear mf_eq_less by blast
  then show ?case
  proof cases
    case 1
    then show ?thesis using Cons.prems by (auto simp: heap_ok_def intro: mf_less_trans)
  next
    case 2
    then show ?thesis using Cons.prems mf_eq_less by fastforce
  next
    case 3
    then have "\<forall>y\<in>set (heap_push n xs). mf_less y x" using x set_heap_push_subset by blast
    with 3 Cons.IH [OF ok] show ?thesis by (simp add: heap_ok_def)
  qed
qed

lemma heap_ok_pop: "heap_ok xs \<Longrightarrow> heap_ok (heap_pop xs)"
  by (cases xs) (auto simp: heap_ok_def)

lemma heap_peek_max: "heap_ok xs \<Longrightarrow> heap_peek xs = Some m \<Longrightarrow> x \<in> set xs \<Longrightarrow> x = m \<or> mf_less x m"
  by (cases xs) (auto simp: heap_ok_def)

text \<open>The contract of the heap, for the queues built on it.\<close>

locale fee_heap =
  fixes empty :: 'h
    and push :: "'a \<Rightarrow> 'h \<Rightarrow> 'h"
    and pop :: "'h \<Rightarrow> 'h"
    and peek :: "'h \<Rightarrow> 'a option"
    and elems :: "'h \<Rightarrow> 'a set"
    and size :: "'h \<Rightarrow> nat"
    and less :: "'a \<Rightarrow> 'a \<Rightarrow> bool"
    and same :: "'a \<Rightarrow> 'a \<Rightarrow> bool"
    and invar :: "'h \<Rightarrow> bool"
  assumes empty: "invar empty" "elems empty = {}"
    and push_invar: "invar h \<Longrightarrow> invar (push x h)"
    and push_elems: "invar h \<Longrightarrow> (\<And>y. y \<in> elems h \<Longrightarrow> \<not> same x y) \<Longrightarrow> elems (push x h) = insert x (elems h)"
    and push_size: "size (push x h) \<le> Suc (size h)"
    and pop_invar: "invar h \<Longrightarrow> invar (pop h)"
    and pop_elems: "invar h \<Longrightarrow> peek h = Some m \<Longrightarrow> elems (pop h) = elems h - {m}"
    and pop_size: "peek h = Some m \<Longrightarrow> size (pop h) < size h"
    and peek_None: "peek h = None \<longleftrightarrow> elems h = {}"
    and peek_max: "invar h \<Longrightarrow> peek h = Some m \<Longrightarrow> m \<in> elems h \<and> (\<forall>x \<in> elems h. x = m \<or> less x m)"
begin

text \<open>Replacing the maximum by another element: the step of \<open>shift\<close>.\<close>

lemma replace_elems:
  assumes "invar h" and "peek h = Some m" and "\<And>y. y \<in> elems h - {m} \<Longrightarrow> \<not> same x y"
  shows "invar (push x (pop h))" and "elems (push x (pop h)) = insert x (elems h - {m})"
    and "size (push x (pop h)) \<le> size h"
proof -
  note pop = pop_invar [OF assms(1)] pop_elems [OF assms(1,2)]
  show "invar (push x (pop h))" by (rule push_invar [OF pop(1)])
  show "elems (push x (pop h)) = insert x (elems h - {m})"
    using push_elems [OF pop(1), of x] assms(3) pop(2) by simp
  show "size (push x (pop h)) \<le> size h"
    using push_size [of x "pop h"] pop_size [OF assms(2)] by simp
qed

end

interpretation heap: fee_heap heap_new heap_push heap_pop heap_peek set heap_len mf_less mf_eq heap_ok
proof (unfold_locales, goal_cases)
  case (7 h m)
  then show ?case by (cases h) (auto simp: heap_ok_def mf_less_irrefl)
next
  case (8 h m)
  then show ?case by (cases h) (auto simp: heap_len_def)
next
  case (9 h)
  then show ?case by (cases h) auto
next
  case (10 h m)
  then show ?case using heap_peek_max [of h m] by (cases h) auto
qed (auto simp: heap_new_def heap_ok_push heap_ok_pop set_heap_push length_heap_push heap_len_def, auto simp: heap_ok_def)

section \<open>The queue\<close>

abbreviation head_sender :: "'tx tx_api \<Rightarrow> 'tx tx_with_miner_fee \<Rightarrow> h160" where
  "head_sender A h \<equiv> tx_sender A (ptx_tx (mf_tx h))"

abbreviation pays :: "'tx tx_api \<Rightarrow> u256 \<Rightarrow> 'tx pool_tx \<Rightarrow> bool" where
  "pays A base_fee t \<equiv> tx_effective_gas_tip A (ptx_tx t) (Some base_fee) \<noteq> None"

definition txs_of :: "(h160, 'tx pool_tx list) btree_map \<Rightarrow> h160 \<Rightarrow> 'tx pool_tx list" where
  "txs_of txs a = (case map_of txs a of None \<Rightarrow> [] | Some ts \<Rightarrow> ts)"

definition queue_txs :: "'tx by_price \<Rightarrow> 'tx pool_tx set" where
  "queue_txs q = mf_tx ` set (bp_heads q) \<union> (\<Union>a. set (txs_of (bp_txs q) a))"

text \<open>
  The invariant: the heap is sorted by the fees it records, which are the effective tips; there is one
  head per sender; every list holds transactions of its account; equal hashes have one sender.
\<close>

definition fees_ok :: "'tx tx_api \<Rightarrow> 'tx by_price \<Rightarrow> bool" where
  "fees_ok A q \<longleftrightarrow> heap_ok (bp_heads q) \<and>
     (\<forall>h \<in> set (bp_heads q). tx_effective_gas_tip A (ptx_tx (mf_tx h)) (Some (bp_base_fee q)) = Some (mf_fee h))"

definition senders_ok :: "'tx tx_api \<Rightarrow> 'tx by_price \<Rightarrow> bool" where
  "senders_ok A q \<longleftrightarrow> inj_on (head_sender A) (set (bp_heads q)) \<and>
     (\<forall>a. \<forall>t \<in> set (txs_of (bp_txs q) a). tx_sender A (ptx_tx t) = a) \<and>
     (\<forall>x \<in> queue_txs q. \<forall>y \<in> queue_txs q. ptx_hash x = ptx_hash y \<longrightarrow> tx_sender A (ptx_tx x) = tx_sender A (ptx_tx y))"

lemma miner_fee_new_Inr:
  "miner_fee_new A t b = Inr w \<longleftrightarrow> tx_effective_gas_tip A (ptx_tx t) b = Some (mf_fee w) \<and> mf_tx w = t"
  by (cases w) (auto simp: miner_fee_new_def split: option.splits)

lemma miner_fee_new_Inl: "miner_fee_new A t b = Inl e \<longleftrightarrow> tx_effective_gas_tip A (ptx_tx t) b = None \<and> e = ErrGasFeeCapTooLow"
  by (auto simp: miner_fee_new_def split: option.splits)

text \<open>The cases of \<open>shift\<close>, on a queue with a best head.\<close>

lemma by_price_shift_cases:
  assumes "heap_peek (bp_heads q) = Some m"
  obtains (last) "by_price_shift A q = q\<lparr>bp_heads := heap_pop (bp_heads q)\<rparr>"
      "takeWhile (pays A (bp_base_fee q)) (txs_of (bp_txs q) (head_sender A m)) = []"
  | (promote) t ts w where "map_of (bp_txs q) (head_sender A m) = Some (t # ts)"
      "tx_effective_gas_tip A (ptx_tx t) (Some (bp_base_fee q)) = Some (mf_fee w)" "mf_tx w = t"
      "by_price_shift A q = q\<lparr>bp_txs := bt_adjust (head_sender A m) (\<lambda>_. ts) (bp_txs q),
         bp_heads := heap_push w (heap_pop (bp_heads q))\<rparr>"
proof (cases "map_of (bp_txs q) (head_sender A m)")
  case None
  with assms last show thesis by (simp add: by_price_shift_def txs_of_def)
next
  case (Some l)
  show thesis
  proof (cases l)
    case Nil
    with Some assms last show thesis by (simp add: by_price_shift_def txs_of_def)
  next
    case (Cons t ts)
    show thesis
    proof (cases "miner_fee_new A t (Some (bp_base_fee q))")
      case (Inl e)
      with Some Cons assms last show thesis
        by (simp add: by_price_shift_def txs_of_def miner_fee_new_Inl)
    next
      case (Inr w)
      then have "tx_effective_gas_tip A (ptx_tx t) (Some (bp_base_fee q)) = Some (mf_fee w)" "mf_tx w = t"
        by (simp_all add: miner_fee_new_Inr)
      with Some Cons assms Inr show thesis
        by (intro promote [of t ts w]) (simp_all add: by_price_shift_def)
    qed
  qed
qed

lemma fees_ok_push:
  "fees_ok A q \<Longrightarrow> tx_effective_gas_tip A (ptx_tx (mf_tx w)) (Some (bp_base_fee q)) = Some (mf_fee w) \<Longrightarrow>
   fees_ok A (q\<lparr>bp_heads := heap_push w (bp_heads q)\<rparr>)"
  using set_heap_push_subset [of w "bp_heads q"] by (auto simp: fees_ok_def heap_ok_push)

lemma fees_ok_pop: "fees_ok A q \<Longrightarrow> fees_ok A (by_price_pop q)"
  by (cases "bp_heads q") (auto simp: fees_ok_def by_price_pop_def heap_ok_def)

lemma fees_ok_txs [simp]: "fees_ok A (q\<lparr>bp_txs := txs\<rparr>) = fees_ok A q"
  by (simp add: fees_ok_def)

lemma fees_ok_shift:
  assumes "fees_ok A q"
  shows "fees_ok A (by_price_shift A q)"
proof (cases "heap_peek (bp_heads q)")
  case None
  with assms show ?thesis by (simp add: by_price_shift_def)
next
  case (Some m)
  then show ?thesis
  proof (cases rule: by_price_shift_cases [where A = A])
    case last
    then show ?thesis using fees_ok_pop [OF assms] by (simp add: by_price_pop_def)
  next
    case (promote t ts w)
    then show ?thesis
      using fees_ok_push [OF fees_ok_pop [OF assms], of w] by (simp add: by_price_pop_def fees_ok_def)
  qed
qed

lemma fees_ok_replace: "fees_ok A q \<Longrightarrow> fees_ok A (by_price_replace A txs q)"
  unfolding by_price_replace_def
  by (induction txs arbitrary: q) (auto simp: fees_ok_push miner_fee_new_Inr split: sum.splits)

lemma by_price_heads_fees:
  "by_price_heads A b txs hs = (txs', hs') \<Longrightarrow> fees_ok A \<lparr>bp_txs = t, bp_heads = hs, bp_base_fee = b\<rparr> \<Longrightarrow>
   fees_ok A \<lparr>bp_txs = t, bp_heads = hs', bp_base_fee = b\<rparr>"
proof (induction A b txs hs arbitrary: txs' rule: by_price_heads.induct)
  case (2 A b acc acc_txs txs heads)
  obtain l hs1 where step: "(case acc_txs of [] \<Rightarrow> ([], heads)
      | t # ts \<Rightarrow> (case miner_fee_new A t (Some b) of Inr w \<Rightarrow> (ts, heap_push w heads) | Inl _ \<Rightarrow> (t # ts, heads))) = (l, hs1)"
    by fastforce
  have "fees_ok A \<lparr>bp_txs = t, bp_heads = hs1, bp_base_fee = b\<rparr>"
    using step "2.prems"(2) fees_ok_push [of A "\<lparr>bp_txs = t, bp_heads = heads, bp_base_fee = b\<rparr>"]
    by (auto simp: miner_fee_new_Inr split: list.splits sum.splits)
  with "2.IH" [OF step [symmetric]] "2.prems"(1) step show ?case by (auto split: prod.splits)
qed simp

lemma fees_ok_new: "fees_ok A (by_price_new A txs b)"
  using by_price_heads_fees [of A b txs heap_new]
  by (auto simp: by_price_new_def heap_new_def fees_ok_def heap_ok_def split: prod.splits)

section \<open>What is left of a sender\<close>

text \<open>The transactions of a sender that repeated \<open>shift\<close> will bring up: his head and what follows it.\<close>

definition remaining :: "'tx tx_api \<Rightarrow> 'tx by_price \<Rightarrow> h160 \<Rightarrow> 'tx pool_tx list" where
  "remaining A q a =
     (case find (\<lambda>h. head_sender A h = a) (bp_heads q) of
        None \<Rightarrow> []
      | Some h \<Rightarrow> mf_tx h # takeWhile (pays A (bp_base_fee q)) (txs_of (bp_txs q) a))"

lemma remaining_None:
  "(\<And>h. h \<in> set (bp_heads q) \<Longrightarrow> head_sender A h \<noteq> a) \<Longrightarrow> remaining A q a = []"
  using find_None_iff [of "\<lambda>h. head_sender A h = a" "bp_heads q"] by (auto simp: remaining_def)

lemma find_unique:
  "inj_on f (set xs) \<Longrightarrow> x \<in> set xs \<Longrightarrow> find (\<lambda>y. f y = f x) xs = Some x"
  by (induction xs) (auto simp: inj_on_def)

lemma remaining_Some:
  "inj_on (head_sender A) (set (bp_heads q)) \<Longrightarrow> h \<in> set (bp_heads q) \<Longrightarrow> head_sender A h = a \<Longrightarrow>
   remaining A q a = mf_tx h # takeWhile (pays A (bp_base_fee q)) (txs_of (bp_txs q) a)"
  using find_unique [of "head_sender A" "bp_heads q" h] by (simp add: remaining_def)

lemma remaining_cong:
  assumes "inj_on (head_sender A) (set (bp_heads q))" and "inj_on (head_sender A) (set (bp_heads q'))"
    and "\<And>h. head_sender A h = a \<Longrightarrow> h \<in> set (bp_heads q') \<longleftrightarrow> h \<in> set (bp_heads q)"
    and "txs_of (bp_txs q') a = txs_of (bp_txs q) a" and "bp_base_fee q' = bp_base_fee q"
  shows "remaining A q' a = remaining A q a"
proof (cases "\<exists>h \<in> set (bp_heads q). head_sender A h = a")
  case True
  then obtain h where h: "h \<in> set (bp_heads q)" "head_sender A h = a" by blast
  with assms show ?thesis using remaining_Some [of A q h a] remaining_Some [of A q' h a] by simp
next
  case False
  with assms(3) remaining_None [of q A a] remaining_None [of q' A a] show ?thesis by metis
qed

lemma senders_ok_sub:
  assumes "senders_ok A q" and "queue_txs q' \<subseteq> queue_txs q" and "inj_on (head_sender A) (set (bp_heads q'))"
    and "\<And>a. set (txs_of (bp_txs q') a) \<subseteq> set (txs_of (bp_txs q) a)"
  shows "senders_ok A q'"
  using assms unfolding senders_ok_def by blast

text \<open>
  One \<open>shift\<close> takes the first transaction of the best head's sender and leaves the others' alone.
\<close>

lemma by_price_shift_step:
  assumes fees: "fees_ok A q" and snd: "senders_ok A q" and m: "heap_peek (bp_heads q) = Some m"
  shows "senders_ok A (by_price_shift A q)"
    and "remaining A q (head_sender A m) = mf_tx m # remaining A (by_price_shift A q) (head_sender A m)"
    and "a \<noteq> head_sender A m \<Longrightarrow> remaining A (by_price_shift A q) a = remaining A q a"
proof -
  let ?c = "head_sender A m" and ?H = "set (bp_heads q)" and ?b = "bp_base_fee q"
  have ok: "heap_ok (bp_heads q)" using fees by (simp add: fees_ok_def)
  have inj: "inj_on (head_sender A) ?H" using snd by (simp add: senders_ok_def)
  have mH: "m \<in> ?H" using heap.peek_max [OF ok m] by blast
  have pop: "set (heap_pop (bp_heads q)) = ?H - {m}" by (rule heap.pop_elems [OF ok m])
  have c: "h \<in> ?H - {m} \<Longrightarrow> head_sender A h \<noteq> ?c" for h using inj mH by (auto simp: inj_on_def)
  have rem_m: "remaining A q ?c = mf_tx m # takeWhile (pays A ?b) (txs_of (bp_txs q) ?c)"
    by (rule remaining_Some [OF inj mH refl])
  note res = by_price_shift_cases [OF m, where A = A]
  have all: "senders_ok A (by_price_shift A q) \<and>
    remaining A (by_price_shift A q) ?c = takeWhile (pays A ?b) (txs_of (bp_txs q) ?c) \<and>
    (\<forall>a. a \<noteq> ?c \<longrightarrow> remaining A (by_price_shift A q) a = remaining A q a)"
  proof (rule res)
    assume eq: "by_price_shift A q = q\<lparr>bp_heads := heap_pop (bp_heads q)\<rparr>"
      and nil: "takeWhile (pays A ?b) (txs_of (bp_txs q) ?c) = []"
    have inj': "inj_on (head_sender A) (?H - {m})" using inj by (rule inj_on_subset) auto
    have "senders_ok A (by_price_shift A q)"
      by (rule senders_ok_sub [OF snd]) (auto simp: eq pop queue_txs_def inj')
    moreover have "remaining A (by_price_shift A q) ?c = []"
      using c by (intro remaining_None) (simp add: eq pop)
    moreover have "remaining A (by_price_shift A q) a = remaining A q a" if "a \<noteq> ?c" for a
      using that by (intro remaining_cong [OF inj]) (auto simp: eq pop inj')
    ultimately show ?thesis using nil by simp
  next
    fix t ts w
    assume l: "map_of (bp_txs q) ?c = Some (t # ts)"
      and w: "tx_effective_gas_tip A (ptx_tx t) (Some ?b) = Some (mf_fee w)" "mf_tx w = t"
      and eq: "by_price_shift A q = q\<lparr>bp_txs := bt_adjust ?c (\<lambda>_. ts) (bp_txs q),
         bp_heads := heap_push w (heap_pop (bp_heads q))\<rparr>"
    have txs: "txs_of (bt_adjust ?c (\<lambda>_. ts) (bp_txs q)) a = (if a = ?c then ts else txs_of (bp_txs q) a)" for a
      by (simp add: txs_of_def l)
    have cl: "txs_of (bp_txs q) ?c = t # ts" by (simp add: txs_of_def l)
    then have wc: "head_sender A w = ?c" using snd by (auto simp: senders_ok_def w(2))
    have wq: "t \<in> queue_txs q" unfolding queue_txs_def using cl by (metis UN_I UNIV_I UnI2 list.set_intros(1))
    have new: "\<not> mf_eq w y" if y: "y \<in> ?H - {m}" for y
    proof
      assume "mf_eq w y"
      then have "ptx_hash t = ptx_hash (mf_tx y)" by (simp add: mf_eq_def w(2))
      moreover have "mf_tx y \<in> queue_txs q" using y by (simp add: queue_txs_def)
      ultimately have "head_sender A w = head_sender A y" using snd wq unfolding senders_ok_def w(2) by blast
      with c [OF y] wc show False by simp
    qed
    have H': "set (heap_push w (heap_pop (bp_heads q))) = insert w (?H - {m})"
      by (rule heap.replace_elems(2) [OF ok m new])
    have inj': "inj_on (head_sender A) (insert w (?H - {m}))"
    proof -
      have "?c \<notin> head_sender A ` (?H - {m})" using c by force
      then show ?thesis using inj_on_subset [OF inj, of "?H - {m}"] unfolding inj_on_insert wc by blast
    qed
    have heads: "bp_heads (by_price_shift A q) = heap_push w (heap_pop (bp_heads q))" by (simp add: eq)
    have inj2: "inj_on (head_sender A) (set (bp_heads (by_price_shift A q)))"
      using inj' [folded H'] by (simp only: heads)
    have "senders_ok A (by_price_shift A q)"
    proof (rule senders_ok_sub [OF snd])
      have sub: "set (txs_of (bp_txs (by_price_shift A q)) a) \<subseteq> set (txs_of (bp_txs q) a)" for a
        using cl by (auto simp: eq txs)
      then show "set (txs_of (bp_txs (by_price_shift A q)) a) \<subseteq> set (txs_of (bp_txs q) a)" for a .
      have "mf_tx ` set (bp_heads (by_price_shift A q)) \<subseteq> queue_txs q"
        using wq w(2) by (auto simp: eq H') (auto simp: queue_txs_def)
      with sub show "queue_txs (by_price_shift A q) \<subseteq> queue_txs q"
        unfolding queue_txs_def by blast
      show "inj_on (head_sender A) (set (bp_heads (by_price_shift A q)))"  by (rule inj2)
    qed
    moreover have "remaining A (by_price_shift A q) ?c = t # takeWhile (pays A ?b) ts"
      using remaining_Some [of A "by_price_shift A q" w ?c] inj' wc w(2) by (simp add: eq H' txs)
    moreover have "remaining A (by_price_shift A q) a = remaining A q a" if "a \<noteq> ?c" for a
      using that wc by (intro remaining_cong [OF inj inj2]) (auto simp: eq H' txs)
    ultimately show ?thesis using cl w(1) by simp
  qed
  then show "senders_ok A (by_price_shift A q)"
    and "remaining A q ?c = mf_tx m # remaining A (by_price_shift A q) ?c"
    and "a \<noteq> ?c \<Longrightarrow> remaining A (by_price_shift A q) a = remaining A q a"
    using rem_m by auto
qed

section \<open>A new queue\<close>

text \<open>What \<open>new\<close> makes of one account: the head, if its first transaction pays the base fee, and the rest.\<close>

definition head_of :: "'tx tx_api \<Rightarrow> u256 \<Rightarrow> 'tx pool_tx list \<Rightarrow> 'tx tx_with_miner_fee option" where
  "head_of A b l = (case l of [] \<Rightarrow> None
     | t # _ \<Rightarrow> map_option (\<lambda>fee. \<lparr>mf_tx = t, mf_fee = fee\<rparr>) (tx_effective_gas_tip A (ptx_tx t) (Some b)))"

definition rest_of :: "'tx tx_api \<Rightarrow> u256 \<Rightarrow> 'tx pool_tx list \<Rightarrow> 'tx pool_tx list" where
  "rest_of A b l = (if head_of A b l = None then l else tl l)"

lemma head_of_Some:
  "head_of A b l = Some w \<Longrightarrow> l = mf_tx w # rest_of A b l \<and>
     tx_effective_gas_tip A (ptx_tx (mf_tx w)) (Some b) = Some (mf_fee w)"
  by (auto simp: head_of_def rest_of_def split: list.splits)

lemma by_price_heads_Cons:
  "by_price_heads A b ((a, l) # txs) hs =
     (let r = by_price_heads A b txs (case head_of A b l of None \<Rightarrow> hs | Some w \<Rightarrow> heap_push w hs)
      in ((a, rest_of A b l) # fst r, snd r))"
  by (cases l) (auto simp: head_of_def rest_of_def miner_fee_new_def Let_def split: option.splits prod.splits)

lemma by_price_heads_txs: "fst (by_price_heads A b txs hs) = map (\<lambda>(a, l). (a, rest_of A b l)) txs"
  by (induction txs arbitrary: hs) (auto simp: by_price_heads_Cons Let_def simp del: by_price_heads.simps(2))

lemma by_price_heads_set:
  assumes "distinct (map fst txs)"
    and "\<And>a l w h. (a, l) \<in> set txs \<Longrightarrow> head_of A b l = Some w \<Longrightarrow> h \<in> set hs \<Longrightarrow> \<not> mf_eq w h"
    and "\<And>a l w a' l' w'. (a, l) \<in> set txs \<Longrightarrow> (a', l') \<in> set txs \<Longrightarrow> a \<noteq> a' \<Longrightarrow>
      head_of A b l = Some w \<Longrightarrow> head_of A b l' = Some w' \<Longrightarrow> \<not> mf_eq w' w"
  shows "set (snd (by_price_heads A b txs hs)) = set hs \<union> {w. \<exists>a l. (a, l) \<in> set txs \<and> head_of A b l = Some w}"
  using assms
proof (induction txs arbitrary: hs)
  case Nil
  then show ?case by simp
next
  case (Cons e txs)
  obtain a l where e: "e = (a, l)" by (cases e)
  define hs1 where "hs1 = (case head_of A b l of None \<Rightarrow> hs | Some w \<Rightarrow> heap_push w hs)"
  have fresh: "\<not> mf_eq w h" if "head_of A b l = Some w" "h \<in> set hs" for w h
    using Cons.prems(2) [of a l] that by (auto simp: e)
  have hs1: "set hs1 = set hs \<union> {w. head_of A b l = Some w}"
  proof (cases "head_of A b l")
    case (Some w)
    then show ?thesis using set_heap_push [of hs w] fresh by (simp add: hs1_def)
  qed (simp add: hs1_def)
  have "set (snd (by_price_heads A b txs hs1)) = set hs1 \<union> {w. \<exists>a l. (a, l) \<in> set txs \<and> head_of A b l = Some w}"
  proof (rule Cons.IH)
    show "distinct (map fst txs)" using Cons.prems(1) by simp
    fix a' l' w h
    assume l': "(a', l') \<in> set txs" "head_of A b l' = Some w" and h: "h \<in> set hs1"
    have "a \<noteq> a'" using Cons.prems(1) l'(1) by (force simp: e)
    with h l' Cons.prems(2) [of a' l' w h] Cons.prems(3) [of a l a' l' h w] show "\<not> mf_eq w h"
      by (auto simp: hs1 e)
  next
    fix a1 l1 w1 a2 l2 w2
    assume "(a1, l1) \<in> set txs" "(a2, l2) \<in> set txs" "a1 \<noteq> a2" "head_of A b l1 = Some w1" "head_of A b l2 = Some w2"
    then show "\<not> mf_eq w2 w1" using Cons.prems(3) [of a1 l1 a2 l2] by simp
  qed
  then show ?case
    unfolding e by (simp add: by_price_heads_Cons Let_def hs1_def [symmetric] hs1 del: by_price_heads.simps(2)) blast
qed

text \<open>The accounts a queue is made from: sorted, each with its own transactions, hashes of one sender each.\<close>

definition accounts_ok :: "'tx tx_api \<Rightarrow> (h160, 'tx pool_tx list) btree_map \<Rightarrow> bool" where
  "accounts_ok A txs \<longleftrightarrow> bt_ok txs \<and>
     (\<forall>(a, l) \<in> set txs. \<forall>t \<in> set l. tx_sender A (ptx_tx t) = a) \<and>
     (\<forall>(a, l) \<in> set txs. \<forall>(a', l') \<in> set txs. \<forall>x \<in> set l. \<forall>y \<in> set l'. ptx_hash x = ptx_hash y \<longrightarrow> a = a')"

lemma by_price_new_heads:
  assumes "accounts_ok A txs"
  shows "set (bp_heads (by_price_new A txs b)) = {w. \<exists>a l. (a, l) \<in> set txs \<and> head_of A b l = Some w}"
    and "bp_txs (by_price_new A txs b) = map (\<lambda>(a, l). (a, rest_of A b l)) txs"
    and "bp_base_fee (by_price_new A txs b) = b"
proof -
  have "\<not> mf_eq w' w" if "(a, l) \<in> set txs" "(a', l') \<in> set txs" "a \<noteq> a'" "head_of A b l = Some w" "head_of A b l' = Some w'"
    for a l w a' l' w'
  proof
    assume "mf_eq w' w"
    then have "ptx_hash (mf_tx w') = ptx_hash (mf_tx w)" by (simp add: mf_eq_def)
    moreover have "mf_tx w \<in> set l" "mf_tx w' \<in> set l'"
      using head_of_Some [OF that(4)] head_of_Some [OF that(5)] by (metis list.set_intros(1))+
    ultimately show False using assms that(1-3) unfolding accounts_ok_def by fastforce
  qed
  moreover have "distinct (map fst txs)" using assms by (simp add: accounts_ok_def bt_ok_distinct)
  ultimately show "set (bp_heads (by_price_new A txs b)) = {w. \<exists>a l. (a, l) \<in> set txs \<and> head_of A b l = Some w}"
    using by_price_heads_set [of txs A b heap_new]
    by (simp add: by_price_new_def heap_new_def case_prod_beta Let_def)
  show "bp_txs (by_price_new A txs b) = map (\<lambda>(a, l). (a, rest_of A b l)) txs"
    using by_price_heads_txs [of A b txs heap_new] by (auto simp: by_price_new_def split: prod.splits)
  show "bp_base_fee (by_price_new A txs b) = b" by (simp add: by_price_new_def split: prod.splits)
qed


lemma accounts_ok_txs_of:
  assumes "accounts_ok A txs"
  shows "(a, l) \<in> set txs \<Longrightarrow> txs_of txs a = l" and "txs_of txs a \<noteq> [] \<Longrightarrow> (a, txs_of txs a) \<in> set txs"
proof -
  have ok: "bt_ok txs" using assms by (simp add: accounts_ok_def)
  show "(a, l) \<in> set txs \<Longrightarrow> txs_of txs a = l" by (simp add: bt_ok_in_set [OF ok] txs_of_def)
  show "txs_of txs a \<noteq> [] \<Longrightarrow> (a, txs_of txs a) \<in> set txs"
    by (cases "map_of txs a") (simp_all add: bt_ok_in_set [OF ok] txs_of_def)
qed

lemma by_price_new_ok:
  assumes ok: "accounts_ok A txs"
  shows "senders_ok A (by_price_new A txs b)"
    and "remaining A (by_price_new A txs b) a = takeWhile (pays A b) (txs_of txs a)"
proof -
  let ?q = "by_price_new A txs b"
  note new = by_price_new_heads [OF ok, of b]
  note acc = accounts_ok_txs_of [OF ok]
  have rest: "txs_of (bp_txs ?q) a = rest_of A b (txs_of txs a)" for a
    unfolding new(2) by (simp add: txs_of_def map_of_map_value rest_of_def head_of_def split: option.splits)
  have hd_mem: "head_of A b l = Some h \<Longrightarrow> mf_tx h \<in> set l" for l h
    by (metis head_of_Some list.set_intros(1))
  have head: "h \<in> set (bp_heads ?q) \<longleftrightarrow> (\<exists>a. head_of A b (txs_of txs a) = Some h)" for h
    unfolding new(1) mem_Collect_eq using acc hd_mem by (metis empty_iff list.set(1))
  have own: "t \<in> set (txs_of txs a) \<Longrightarrow> tx_sender A (ptx_tx t) = a" for t a
    using acc(2) [of a] ok unfolding accounts_ok_def by (cases "txs_of txs a") auto
  have inj: "inj_on (head_sender A) (set (bp_heads ?q))"
  proof (rule inj_onI)
    fix x y assume "x \<in> set (bp_heads ?q)" "y \<in> set (bp_heads ?q)" "head_sender A x = head_sender A y"
    then show "x = y" unfolding head using hd_mem own by (metis option.inject)
  qed
  have rest_sub: "set (rest_of A b l) \<subseteq> set l" for l by (cases l) (auto simp: rest_of_def)
  have sub: "x \<in> set (txs_of txs (tx_sender A (ptx_tx x)))" if "x \<in> queue_txs ?q" for x
  proof -
    have "\<exists>a. x \<in> set (txs_of txs a)"
      using that hd_mem rest_sub by (fastforce simp: queue_txs_def head rest)
    with own show ?thesis by auto
  qed
  show "senders_ok A ?q"
    unfolding senders_ok_def
  proof (intro conjI inj allI ballI impI)
    fix a t assume "t \<in> set (txs_of (bp_txs ?q) a)"
    then have "t \<in> set (txs_of txs a)" using rest_sub by (auto simp: rest)
    then show "tx_sender A (ptx_tx t) = a" by (rule own)
  next
    fix x y assume "x \<in> queue_txs ?q" "y \<in> queue_txs ?q" "ptx_hash x = ptx_hash y"
    moreover from this have "x \<in> set (txs_of txs (tx_sender A (ptx_tx x)))"
      "y \<in> set (txs_of txs (tx_sender A (ptx_tx y)))" using sub by blast+
    moreover from this have "(tx_sender A (ptx_tx x), txs_of txs (tx_sender A (ptx_tx x))) \<in> set txs"
      "(tx_sender A (ptx_tx y), txs_of txs (tx_sender A (ptx_tx y))) \<in> set txs" using acc(2) by force+
    ultimately show "tx_sender A (ptx_tx x) = tx_sender A (ptx_tx y)"
      using ok unfolding accounts_ok_def by fast
  qed
  show "remaining A ?q a = takeWhile (pays A b) (txs_of txs a)"
  proof (cases "head_of A b (txs_of txs a)")
    case None
    then have "\<And>h. h \<in> set (bp_heads ?q) \<Longrightarrow> head_sender A h \<noteq> a" using head hd_mem own by (metis option.distinct(1))
    then have "remaining A ?q a = []" by (rule remaining_None)
    moreover have "takeWhile (pays A b) (txs_of txs a) = []"
      using None by (cases "txs_of txs a") (auto simp: head_of_def)
    ultimately show ?thesis by simp
  next
    case (Some h)
    then have "head_sender A h = a" using hd_mem own by blast
    moreover have "h \<in> set (bp_heads ?q)" using Some head by blast
    ultimately have "remaining A ?q a = mf_tx h # takeWhile (pays A b) (rest_of A b (txs_of txs a))"
      using remaining_Some [OF inj] by (simp add: rest new(3))
    also have "\<dots> = takeWhile (pays A b) (mf_tx h # rest_of A b (txs_of txs a))"
      using conjunct2 [OF head_of_Some [OF Some]] by simp
    finally show ?thesis unfolding conjunct1 [OF head_of_Some [OF Some], symmetric] .
  qed
qed


section \<open>Draining the queue\<close>

text \<open>
  A client that looks at the best transaction and shifts, again and again, for \<open>n\<close> rounds.  As every
  round makes the queue shorter, \<open>by_price_len q\<close> rounds are enough to see everything.
\<close>

primrec drain :: "'tx tx_api \<Rightarrow> nat \<Rightarrow> 'tx by_price \<Rightarrow> 'tx pool_tx list" where
  "drain A 0 q = []"
| "drain A (Suc n) q =
     (case by_price_peek q of
        None \<Rightarrow> []
      | Some t \<Rightarrow> t # drain A n (by_price_shift A q))"

lemma sum_lengths_adjust:
  assumes "distinct (map fst m)" and "map_of m a = Some l"
  shows "sum_list (map (\<lambda>(_, tx). length tx) (bt_adjust a (\<lambda>_. l') m)) + length l =
    sum_list (map (\<lambda>(_, tx). length tx) m) + length l'"
  using assms
proof (induction m)
  case (Cons e m)
  obtain b k where e: "e = (b, k)" by (cases e)
  show ?case
  proof (cases "b = a")
    case True
    with Cons.prems(1) have "a \<notin> fst ` set m" by (simp add: e)
    then have "bt_adjust a (\<lambda>_. l') m = m" by (force simp: bt_adjust_def intro!: map_idI)
    with True Cons.prems show ?thesis by (simp add: e bt_adjust_def)
  next
    case False
    with Cons show ?thesis by (simp add: e bt_adjust_def)
  qed
qed simp

lemma by_price_shift_len:
  assumes "distinct (map fst (bp_txs q))" and "bp_heads q \<noteq> []"
  shows "by_price_len (by_price_shift A q) < by_price_len q"
    and "map fst (bp_txs (by_price_shift A q)) = map fst (bp_txs q)"
proof -
  obtain m where m: "heap_peek (bp_heads q) = Some m" using assms(2) by (cases "bp_heads q") auto
  have "by_price_len (by_price_shift A q) < by_price_len q \<and>
    map fst (bp_txs (by_price_shift A q)) = map fst (bp_txs q)"
  proof (rule by_price_shift_cases [OF m, where A = A])
    assume "by_price_shift A q = q\<lparr>bp_heads := heap_pop (bp_heads q)\<rparr>"
    then show ?thesis using heap.pop_size [OF m] by (simp add: by_price_len_def)
  next
    fix t ts w
    assume l: "map_of (bp_txs q) (head_sender A m) = Some (t # ts)"
      and eq: "by_price_shift A q = q\<lparr>bp_txs := bt_adjust (head_sender A m) (\<lambda>_. ts) (bp_txs q),
         bp_heads := heap_push w (heap_pop (bp_heads q))\<rparr>"
    have "heap_len (heap_push w (heap_pop (bp_heads q))) \<le> heap_len (bp_heads q)"
      using heap.push_size [of w "heap_pop (bp_heads q)"] heap.pop_size [OF m] by simp
    with sum_lengths_adjust [OF assms(1) l, of ts] show ?thesis by (simp add: eq by_price_len_def)
  qed
  then show "by_price_len (by_price_shift A q) < by_price_len q"
    and "map fst (bp_txs (by_price_shift A q)) = map fst (bp_txs q)" by simp_all
qed

lemma drain_remaining:
  assumes "fees_ok A q" and "senders_ok A q" and "distinct (map fst (bp_txs q))" and "by_price_len q \<le> n"
  shows "filter (\<lambda>t. tx_sender A (ptx_tx t) = a) (drain A n q) = remaining A q a"
  using assms
proof (induction n arbitrary: q)
  case 0
  then have "bp_heads q = []" by (simp add: by_price_len_def heap_len_def)
  then show ?case by (simp add: remaining_def)
next
  case (Suc n)
  show ?case
  proof (cases "heap_peek (bp_heads q)")
    case None
    then have "bp_heads q = []" by (cases "bp_heads q") auto
    then show ?thesis by (simp add: remaining_def by_price_peek_def)
  next
    case (Some m)
    note step = by_price_shift_step [OF Suc.prems(1,2) Some]
    have ne: "bp_heads q \<noteq> []" using Some by auto
    note len = by_price_shift_len [OF Suc.prems(3) ne, of A]
    have "filter (\<lambda>t. tx_sender A (ptx_tx t) = a) (drain A n (by_price_shift A q)) = remaining A (by_price_shift A q) a"
      using Suc.prems len by (intro Suc.IH fees_ok_shift step(1)) auto
    with Some step(2) step(3) [of a] show ?thesis by (auto simp: by_price_peek_def)
  qed
qed


section \<open>Properties\<close>

text \<open>The queues that \<open>new\<close> and the other methods can produce for a base fee.\<close>

inductive by_price_run :: "'tx tx_api \<Rightarrow> u256 \<Rightarrow> 'tx by_price \<Rightarrow> bool" for A b where
  new: "by_price_run A b (by_price_new A txs b)"
| pop: "by_price_run A b q \<Longrightarrow> by_price_run A b (by_price_pop q)"
| shift: "by_price_run A b q \<Longrightarrow> by_price_run A b (by_price_shift A q)"
| replace: "by_price_run A b q \<Longrightarrow> by_price_run A b (by_price_replace A txs q)"

lemma by_price_replace_base [simp]: "bp_base_fee (by_price_replace A txs q) = bp_base_fee q"
  unfolding by_price_replace_def by (induction txs arbitrary: q) (auto split: sum.splits)

lemma by_price_shift_base [simp]: "bp_base_fee (by_price_shift A q) = bp_base_fee q"
  by (auto simp: by_price_shift_def Let_def split: option.splits list.splits sum.splits)

lemma by_price_run_ok: "by_price_run A b q \<Longrightarrow> fees_ok A q \<and> bp_base_fee q = b"
  by (induction rule: by_price_run.induct)
    (auto simp: fees_ok_new fees_ok_pop fees_ok_shift fees_ok_replace, auto simp: by_price_pop_def by_price_new_def
      split: prod.splits)

text \<open>C5: In every queue the methods can produce, \<open>peek\<close> returns a transaction that pays the base fee
  and whose effective tip is the largest of all heads; it returns nothing only if there is no head.\<close>

theorem by_price_peek_best:
  assumes "by_price_run A b q"
  shows "case by_price_peek q of
      None \<Rightarrow> by_price_head_len q = 0
    | Some t \<Rightarrow> \<exists>fee. tx_effective_gas_tip A (ptx_tx t) (Some b) = Some fee \<and>
        (\<forall>h \<in> set (by_price_peekn (by_price_head_len q) q).
           \<exists>f. tx_effective_gas_tip A (ptx_tx h) (Some b) = Some f \<and> f \<le> fee)"
proof (cases "heap_peek (bp_heads q)")
  case None
  then have "bp_heads q = []" using heap.peek_None by fastforce
  then show ?thesis by (simp add: by_price_peek_def by_price_head_len_def heap_len_def)
next
  case (Some m)
  have ok: "heap_ok (bp_heads q)" and b: "bp_base_fee q = b"
    and tip: "\<And>h. h \<in> set (bp_heads q) \<Longrightarrow> tx_effective_gas_tip A (ptx_tx (mf_tx h)) (Some b) = Some (mf_fee h)"
    using by_price_run_ok [OF assms] by (auto simp: fees_ok_def)
  have m: "m \<in> set (bp_heads q)" and max: "\<And>h. h \<in> set (bp_heads q) \<Longrightarrow> mf_fee h \<le> mf_fee m"
    using heap.peek_max [OF ok Some] by (auto simp: mf_less_def split: if_splits)
  show ?thesis
    using Some tip [OF m] tip max
    by (auto simp: by_price_peek_def by_price_peekn_def dest: in_set_takeD)
qed

definition demo_accounts :: "(h160, demo_tx pool_tx list) btree_map" where
  "demo_accounts = [(7, [demo_ptx 7 1 11 9 1, demo_ptx 7 2 22 9 5, demo_ptx 7 3 33 2 5]), (8, [demo_ptx 8 1 44 9 3])]"

theorem by_price_peek_best_witness:
  "by_price_peek (by_price_new demo_api demo_accounts 4) = Some (demo_ptx 8 1 44 9 3) \<and>
   (\<exists>fee. tx_effective_gas_tip demo_api (ptx_tx (demo_ptx 8 1 44 9 3)) (Some 4) = Some fee)"
proof -
  have "by_price_peek (by_price_new demo_api demo_accounts 4) = Some (demo_ptx 8 1 44 9 3)" by code_simp
  then show ?thesis
    using by_price_peek_best [OF by_price_run.new [of demo_api 4 demo_accounts]] by auto
qed

text \<open>C4: Looking at the best transaction and shifting until the queue is empty brings up, for every
  account, the longest prefix of its transactions that all pay the base fee, in their order: a sender's
  transactions are never reordered, skipped or repeated.\<close>

theorem by_price_drain:
  assumes "accounts_ok A txs"
  shows "filter (\<lambda>t. tx_sender A (ptx_tx t) = a) (drain A (by_price_len (by_price_new A txs b)) (by_price_new A txs b)) =
    takeWhile (\<lambda>t. tx_effective_gas_tip A (ptx_tx t) (Some b) \<noteq> None)
      (case map_of txs a of None \<Rightarrow> [] | Some ts \<Rightarrow> ts)"
proof -
  have "distinct (map fst (bp_txs (by_price_new A txs b)))"
    using assms by (simp add: by_price_new_heads(2) [OF assms] accounts_ok_def bt_ok_distinct comp_def case_prod_beta)
  then show ?thesis
    using drain_remaining [OF fees_ok_new by_price_new_ok(1) [OF assms], of b "by_price_len (by_price_new A txs b)" a]
      by_price_new_ok(2) [OF assms, of b a]
    by (simp add: txs_of_def)
qed

theorem by_price_drain_witness:
  "accounts_ok demo_api demo_accounts \<and>
   map ptx_hash (drain demo_api (by_price_len (by_price_new demo_api demo_accounts 4))
     (by_price_new demo_api demo_accounts 4)) = [44, 11, 22] \<and>
   map ptx_hash (filter (\<lambda>t. d_sender (ptx_tx t) = 7)
     (drain demo_api (by_price_len (by_price_new demo_api demo_accounts 4)) (by_price_new demo_api demo_accounts 4))) = [11, 22]"
proof -
  have ok: "accounts_ok demo_api demo_accounts" by code_simp
  have "map ptx_hash (drain demo_api (by_price_len (by_price_new demo_api demo_accounts 4))
     (by_price_new demo_api demo_accounts 4)) = [44, 11, 22]"
    by code_simp
  moreover have "map ptx_hash (takeWhile (\<lambda>t. tx_effective_gas_tip demo_api (ptx_tx t) (Some 4) \<noteq> None)
      (case map_of demo_accounts 7 of None \<Rightarrow> [] | Some ts \<Rightarrow> ts)) = [11, 22]"
    by code_simp
  ultimately show ?thesis using ok by_price_drain [OF ok, of 7 4] by simp
qed

end
