(* ===== verification/Price_Pool.thy ===== *)
theory Price_Pool
  imports Tx_Order
begin

text \<open>
  The pool of public transactions: \<open>src/common/txpool/src/price_pool.rs\<close>.

  \<open>sorted_map\<close> is \<open>SortedMap\<close> (one account's transactions by nonce), \<open>user_tx_list\<close> is \<open>UserTxList\<close>
  and \<open>price_pool\<close> is \<open>PricePool\<close>: the accounts' lists and the cache of every known transaction.
  The two mutexes are taken together by every method that uses both, so a method is a function on the
  state.  \<open>list\<close> also changes the pool (it drops underpriced transactions of an overfull pool) and the
  filter its caller passes in.

  The \<open>SU256\<close> arithmetic of the price bump panics on overflow: \<open>None\<close>.  \<open>push\<close> uses a bump of 0 and
  never panics.

  \<open>price_inv\<close> is the invariant; the main results say what \<open>push\<close>, \<open>remove\<close> and \<open>list\<close> do, and that
  the accounts \<open>list\<close> returns meet the conditions of \<open>TransactionsByPriceAndNonce\<close>.
\<close>

definition TXPOOL_USER_MAX_SIZE :: nat where
  "TXPOOL_USER_MAX_SIZE = 20"

record 'tx sorted_map =
  sm_items :: "(u64, 'tx pool_tx) btree_map"

record 'tx user_tx_list =
  ul_txs :: "'tx sorted_map"

record 'tx price_pool =
  pp_pending :: "(h160, 'tx user_tx_list) btree_map"
  pp_caches :: "(h256, 'tx) btree_map"
  pp_limited_size :: nat

section \<open>\<open>SortedMap\<close>\<close>

definition sorted_map_new :: "'tx sorted_map" where
  "sorted_map_new = \<lparr>sm_items = []\<rparr>"

text \<open>The loop over the removed nonces: the map without them and the hashes that were there.\<close>

fun remove_nonces :: "u64 list \<Rightarrow> (u64, 'tx pool_tx) btree_map \<Rightarrow> h256 list \<times> (u64, 'tx pool_tx) btree_map" where
  "remove_nonces [] m = ([], m)"
| "remove_nonces (item # removed) m =
     (case map_of m item of
        Some tx \<Rightarrow> (let (hs, m') = remove_nonces removed (bt_remove item m) in (ptx_hash tx # hs, m'))
      | None \<Rightarrow> remove_nonces removed m)"

definition sorted_map_clean_underprice ::
  "'tx tx_api \<Rightarrow> u256 option \<Rightarrow> nat \<Rightarrow> 'tx sorted_map \<Rightarrow> h256 list \<times> 'tx sorted_map" where
  "sorted_map_clean_underprice A base_fee limit s =
     (let removed = take limit (map fst
            (filter (\<lambda>(_, tx). tx_effective_gas_tip A (ptx_tx tx) base_fee = None) (rev (sm_items s))));
          (removed_tx, items) = remove_nonces removed (sm_items s)
      in (removed_tx, s\<lparr>sm_items := items\<rparr>))"

definition sorted_map_len :: "'tx sorted_map \<Rightarrow> nat" where
  "sorted_map_len s = length (sm_items s)"

definition sorted_map_get :: "u64 \<Rightarrow> 'tx sorted_map \<Rightarrow> 'tx pool_tx option" where
  "sorted_map_get nonce s = map_of (sm_items s) nonce"

definition sorted_map_put :: "'tx tx_api \<Rightarrow> 'tx pool_tx \<Rightarrow> 'tx sorted_map \<Rightarrow> 'tx sorted_map" where
  "sorted_map_put A info s =
     (let items = bt_insert (tx_nonce A (ptx_tx info)) info (sm_items s)
      in s\<lparr>sm_items := if TXPOOL_USER_MAX_SIZE < length items then snd (bt_pop_last items) else items\<rparr>)"

definition sorted_map_remove :: "u64 \<Rightarrow> 'tx sorted_map \<Rightarrow> bool \<times> 'tx sorted_map" where
  "sorted_map_remove nonce s =
     (if bt_contains_key nonce (sm_items s) then (True, s\<lparr>sm_items := bt_remove nonce (sm_items s)\<rparr>)
      else (False, s))"

definition sorted_map_filter :: "('tx pool_tx \<Rightarrow> bool) \<Rightarrow> 'tx sorted_map \<Rightarrow> 'tx sorted_map" where
  "sorted_map_filter f s =
     (let removed = map fst (filter (\<lambda>(_, tx). f tx) (sm_items s))
      in s\<lparr>sm_items := fold bt_remove removed (sm_items s)\<rparr>)"

text \<open>
  The loop of \<open>flatten\<close>, with the filter, \<open>not_check\<close> and the list so far; it returns the list,
  the number of dropped transactions and the filter.
\<close>

fun flatten_loop ::
  "'tx tx_api \<Rightarrow> u256 option \<Rightarrow> (u64, 'tx pool_tx) btree_map \<Rightarrow> (h256, bool) btree_map \<Rightarrow> bool \<Rightarrow> 'tx pool_tx list
     \<Rightarrow> 'tx pool_tx list \<times> nat \<times> (h256, bool) btree_map" where
  "flatten_loop A base_fee [] fltr not_check new_list = (new_list, 0, fltr)"
| "flatten_loop A base_fee ((nonce, tx_info) # items) fltr not_check new_list =
     (if \<not> not_check \<and> map_of fltr (ptx_hash tx_info) = Some True
      then flatten_loop A base_fee items fltr not_check new_list
      else if \<not> not_check \<and> map_of fltr (ptx_hash tx_info) = Some False then (new_list, 0, fltr)
      else if tx_effective_gas_tip A (ptx_tx tx_info) base_fee = None
      then (new_list, 1, bt_insert (ptx_hash tx_info) False fltr)
      else if new_list \<noteq> [] \<and>
        (let old_nonce = tx_nonce A (ptx_tx (last new_list)) in nonce \<le> old_nonce \<or> nonce - old_nonce \<noteq> 1)
      then (new_list, 0, fltr)
      else flatten_loop A base_fee items fltr True (new_list @ [tx_info]))"

definition sorted_map_flatten ::
  "'tx tx_api \<Rightarrow> (h256, bool) btree_map \<Rightarrow> u256 option \<Rightarrow> 'tx sorted_map
     \<Rightarrow> 'tx pool_tx list \<times> nat \<times> (h256, bool) btree_map" where
  "sorted_map_flatten A fltr base_fee s = flatten_loop A base_fee (sm_items s) fltr False []"

section \<open>\<open>UserTxList\<close>\<close>

definition user_tx_list_new :: "'tx user_tx_list" where
  "user_tx_list_new = \<lparr>ul_txs = sorted_map_new\<rparr>"

definition user_tx_list_len :: "'tx user_tx_list \<Rightarrow> nat" where
  "user_tx_list_len l = sorted_map_len (ul_txs l)"

definition user_tx_list_flatten ::
  "'tx tx_api \<Rightarrow> (h256, bool) btree_map \<Rightarrow> u256 option \<Rightarrow> 'tx user_tx_list
     \<Rightarrow> 'tx pool_tx list \<times> nat \<times> (h256, bool) btree_map" where
  "user_tx_list_flatten A fltr base_fee l = sorted_map_flatten A fltr base_fee (ul_txs l)"

definition user_tx_list_clean_underprice ::
  "'tx tx_api \<Rightarrow> u256 option \<Rightarrow> nat \<Rightarrow> 'tx user_tx_list \<Rightarrow> h256 list \<times> 'tx user_tx_list" where
  "user_tx_list_clean_underprice A base_fee limit l =
     (let (hs, s) = sorted_map_clean_underprice A base_fee limit (ul_txs l) in (hs, l\<lparr>ul_txs := s\<rparr>))"

text \<open>The thresholds of a price bump: \<open>(100 + bump) * fee / 100\<close>; the sum is a raw \<open>u64\<close> sum.\<close>

definition bump_threshold :: "u64 \<Rightarrow> u256 \<Rightarrow> u256 option" where
  "bump_threshold price_bump fee =
     (case chk_mul (ucast (100 + price_bump)) fee of
        None \<Rightarrow> None
      | Some v \<Rightarrow> chk_div v 100)"

definition user_tx_list_add ::
  "'tx tx_api \<Rightarrow> 'tx pool_tx \<Rightarrow> u64 \<Rightarrow> 'tx user_tx_list \<Rightarrow> (bool \<times> 'tx user_tx_list) option" where
  "user_tx_list_add A tx price_bump l =
     (let put = Some (True, l\<lparr>ul_txs := sorted_map_put A tx (ul_txs l)\<rparr>);
          fee_cap = tx_max_fee_per_gas A (ptx_tx tx);
          tip_cap = tx_max_priority_fee_per_gas A (ptx_tx tx)
      in case sorted_map_get (tx_nonce A (ptx_tx tx)) (ul_txs l) of
           None \<Rightarrow> put
         | Some old \<Rightarrow>
             if fee_cap \<le> tx_max_fee_per_gas A (ptx_tx old) \<or> tip_cap \<le> tx_max_priority_fee_per_gas A (ptx_tx old)
             then Some (False, l)
             else if 0 < price_bump
             then (case (bump_threshold price_bump (tx_max_fee_per_gas A (ptx_tx old)),
                         bump_threshold price_bump (tx_max_priority_fee_per_gas A (ptx_tx old))) of
                     (Some threshold_fee_cap, Some threshold_tip) \<Rightarrow>
                       if fee_cap < threshold_fee_cap \<or> tip_cap < threshold_tip then Some (False, l) else put
                   | _ \<Rightarrow> None)
             else put)"

definition user_tx_list_remove :: "'tx tx_api \<Rightarrow> u64 \<Rightarrow> 'tx user_tx_list \<Rightarrow> bool \<times> 'tx user_tx_list" where
  "user_tx_list_remove A nonce l =
     (case sorted_map_remove nonce (ul_txs l) of
        (False, s) \<Rightarrow> (False, l\<lparr>ul_txs := s\<rparr>)
      | (True, s) \<Rightarrow> (True, l\<lparr>ul_txs := sorted_map_filter (\<lambda>old. tx_nonce A (ptx_tx old) < nonce) s\<rparr>))"

section \<open>\<open>PricePool\<close>\<close>

definition price_pool_new :: "nat \<Rightarrow> 'tx price_pool" where
  "price_pool_new limited_size = \<lparr>pp_pending = [], pp_caches = [], pp_limited_size = limited_size\<rparr>"

definition price_pool_clear :: "'tx price_pool \<Rightarrow> 'tx price_pool" where
  "price_pool_clear p = p\<lparr>pp_pending := [], pp_caches := []\<rparr>"

definition price_pool_contains :: "'tx price_pool \<Rightarrow> h256 \<Rightarrow> bool" where
  "price_pool_contains p h = bt_contains_key h (pp_caches p)"

definition price_pool_filter :: "'tx tx_api \<Rightarrow> 'tx price_pool \<Rightarrow> 'tx list \<Rightarrow> 'tx list" where
  "price_pool_filter A p txs = filter (\<lambda>tx. \<not> price_pool_contains p (tx_hash A tx)) txs"

definition price_pool_remove :: "'tx tx_api \<Rightarrow> h256 \<Rightarrow> 'tx price_pool \<Rightarrow> bool \<times> 'tx price_pool" where
  "price_pool_remove A hash p =
     (case map_of (pp_caches p) hash of
        None \<Rightarrow> (False, p)
      | Some tx \<Rightarrow>
          let p = p\<lparr>pp_caches := bt_remove hash (pp_caches p)\<rparr>;
              caller = tx_sender A tx
          in (case map_of (pp_pending p) caller of
                None \<Rightarrow> (False, p)
              | Some l \<Rightarrow>
                  (case user_tx_list_remove A (tx_nonce A tx) l of
                     (False, l') \<Rightarrow> (False, p\<lparr>pp_pending := bt_adjust caller (\<lambda>_. l') (pp_pending p)\<rparr>)
                   | (True, l') \<Rightarrow>
                       (True, p\<lparr>pp_pending :=
                          if user_tx_list_len l' = 0 then bt_remove caller (pp_pending p)
                          else bt_adjust caller (\<lambda>_. l') (pp_pending p)\<rparr>))))"

text \<open>The part of the loop of \<open>list\<close> that drops underpriced transactions of one account.\<close>

definition clean_account ::
  "'tx tx_api \<Rightarrow> u256 option \<Rightarrow> nat \<Rightarrow> h160 \<Rightarrow> nat \<Rightarrow> nat \<Rightarrow> 'tx user_tx_list \<Rightarrow> (h256, 'tx) btree_map \<Rightarrow> h160 list
     \<Rightarrow> 'tx user_tx_list \<times> (h256, 'tx) btree_map \<times> nat \<times> h160 list" where
  "clean_account A base_fee limited addr dropped total_len l caches removed_addr =
     (if 0 < dropped \<and> limited < total_len
      then
        let (removed, l) = user_tx_list_clean_underprice A base_fee (total_len - limited) l
        in (l, fold bt_remove removed caches, total_len - length removed,
            if user_tx_list_len l = 0 then removed_addr @ [addr] else removed_addr)
      else (l, caches, total_len, removed_addr))"

text \<open>The comparison of a \<open>usize\<close> with a length.\<close>

definition usize_le :: "u64 \<Rightarrow> nat \<Rightarrow> bool" where
  "usize_le w n \<longleftrightarrow> uint w \<le> int n"

lemma usize_le_iff [simp]: "usize_le w n \<longleftrightarrow> unat w \<le> n"
  by (metis usize_le_def uint_nat of_nat_le_iff)

text \<open>
  The loop of \<open>list\<close> over the accounts.  Its state: the result, the caches, the filter, the total
  length so far and the addresses to remove; the accounts after a \<open>break\<close> stay as they are.
\<close>

fun price_list_loop ::
  "'tx tx_api \<Rightarrow> u256 option \<Rightarrow> u64 \<Rightarrow> nat \<Rightarrow> (h160, 'tx user_tx_list) btree_map
     \<Rightarrow> (h160, 'tx pool_tx list) btree_map \<Rightarrow> (h256, 'tx) btree_map \<Rightarrow> (h256, bool) btree_map \<Rightarrow> nat \<Rightarrow> h160 list
     \<Rightarrow> (h160, 'tx user_tx_list) btree_map \<times> (h160, 'tx pool_tx list) btree_map \<times> (h256, 'tx) btree_map
         \<times> (h256, bool) btree_map \<times> h160 list" where
  "price_list_loop A base_fee limit limited [] result caches fltr total_len removed_addr =
     ([], result, caches, fltr, removed_addr)"
| "price_list_loop A base_fee limit limited ((addr, l) # pending) result caches fltr total_len removed_addr =
     (let total_len = total_len + user_tx_list_len l;
          (txs, dropped, fltr) = user_tx_list_flatten A fltr base_fee l;
          result = (if txs \<noteq> [] then bt_insert addr txs result else result)
      in if txs \<noteq> [] \<and> usize_le limit (length result)
         then ((addr, l) # pending, result, caches, fltr, removed_addr)
         else
           let (l, caches, total_len, removed_addr) =
                 clean_account A base_fee limited addr dropped total_len l caches removed_addr;
               (pending', rest) =
                 price_list_loop A base_fee limit limited pending result caches fltr total_len removed_addr
           in ((addr, l) # pending', rest))"

definition price_pool_list ::
  "'tx tx_api \<Rightarrow> (h256, bool) btree_map \<Rightarrow> u256 option \<Rightarrow> u64 \<Rightarrow> 'tx price_pool
     \<Rightarrow> (h160, 'tx pool_tx list) btree_map \<times> (h256, bool) btree_map \<times> 'tx price_pool" where
  "price_pool_list A fltr base_fee limit p =
     (let (pending, result, caches, fltr, removed_addr) =
            price_list_loop A base_fee limit (pp_limited_size p) (pp_pending p) [] (pp_caches p) fltr 0 []
      in (result, fltr, p\<lparr>pp_pending := fold bt_remove removed_addr pending, pp_caches := caches\<rparr>))"

definition price_pool_push ::
  "'tx tx_api \<Rightarrow> 'tx pool_tx \<Rightarrow> 'tx price_pool \<Rightarrow> ((pool_error + h256) \<times> 'tx price_pool) option" where
  "price_pool_push A tx p =
     (let hash = ptx_hash tx; caller = tx_sender A (ptx_tx tx)
      in if bt_contains_key hash (pp_caches p) then Some (Inl AlreadyKnowned, p)
         else
           let p = p\<lparr>pp_caches := bt_insert hash (ptx_tx tx) (pp_caches p)\<rparr>
           in (case map_of (pp_pending p) caller of
                 Some l \<Rightarrow>
                   map_option (\<lambda>(_, l'). (Inr hash, p\<lparr>pp_pending := bt_adjust caller (\<lambda>_. l') (pp_pending p)\<rparr>))
                     (user_tx_list_add A tx 0 l)
               | None \<Rightarrow>
                   map_option (\<lambda>(_, l'). (Inr hash, p\<lparr>pp_pending := bt_insert caller l' (pp_pending p)\<rparr>))
                     (user_tx_list_add A tx 0 user_tx_list_new)))"

definition price_pool_len :: "'tx price_pool \<Rightarrow> nat" where
  "price_pool_len p = length (pp_caches p)"

definition price_pool_account_len :: "'tx price_pool \<Rightarrow> nat" where
  "price_pool_account_len p = length (filter (\<lambda>item. 0 < user_tx_list_len (snd item)) (pp_pending p))"

section \<open>One account\<close>

abbreviation ul_items :: "'tx user_tx_list \<Rightarrow> (u64, 'tx pool_tx) btree_map" where
  "ul_items l \<equiv> sm_items (ul_txs l)"

text \<open>An account's list: at most 20 transactions of the account, each under its nonce.\<close>

definition user_list_ok :: "'tx tx_api \<Rightarrow> h160 \<Rightarrow> 'tx user_tx_list \<Rightarrow> bool" where
  "user_list_ok A a l \<longleftrightarrow> bt_ok (ul_items l) \<and> length (ul_items l) \<le> TXPOOL_USER_MAX_SIZE \<and>
     (\<forall>(n, t) \<in> set (ul_items l). tx_nonce A (ptx_tx t) = n \<and> tx_sender A (ptx_tx t) = a)"

lemma user_list_okD:
  assumes "user_list_ok A a l"
  shows "bt_ok (ul_items l)" "length (ul_items l) \<le> TXPOOL_USER_MAX_SIZE"
    and "map_of (ul_items l) n = Some t \<Longrightarrow> tx_nonce A (ptx_tx t) = n \<and> tx_sender A (ptx_tx t) = a"
  using assms by (auto simp: user_list_ok_def dest: map_of_SomeD)

lemma user_list_ok_filter:
  assumes "user_list_ok A a l" and "ul_items l' = filter P (ul_items l)"
  shows "user_list_ok A a l'"
  using assms by (auto simp: user_list_ok_def bt_ok_filter intro: le_trans [OF length_filter_le])

lemma fold_bt_remove: "fold bt_remove ks m = filter (\<lambda>p. fst p \<notin> set ks) m"
proof (induction ks arbitrary: m)
  case (Cons k ks)
  have "filter (\<lambda>p. fst p \<notin> set ks) (bt_remove k m) = filter (\<lambda>p. fst p \<notin> set (k # ks)) m"
    by (auto simp: bt_remove_def intro: filter_cong)
  with Cons show ?case by simp
qed simp

lemma map_of_fold_remove: "map_of (fold bt_remove ks m) k = (if k \<in> set ks then None else map_of m k)"
  unfolding fold_bt_remove using map_of_filter_key [of "\<lambda>x. x \<notin> set ks" m k] by auto

lemma remove_nonces_spec:
  "remove_nonces ns m = (hs, m') \<Longrightarrow>
   m' = filter (\<lambda>p. fst p \<notin> set ns) m \<and>
   (\<forall>h \<in> set hs. \<exists>n t. n \<in> set ns \<and> map_of m n = Some t \<and> h = ptx_hash t)"
proof (induction ns m arbitrary: hs m' rule: remove_nonces.induct)
  case (1 m)
  then show ?case by simp
next
  case (2 item removed m)
  show ?case
  proof (cases "map_of m item")
    case None
    then have "filter (\<lambda>p. fst p \<notin> set removed) m = filter (\<lambda>p. fst p \<notin> set (item # removed)) m"
      by (auto simp: map_of_eq_None_iff intro!: filter_cong)
    moreover have "remove_nonces removed m = (hs, m')" using "2.prems" None by simp
    from "2.IH"(1) [OF None this] have "m' = filter (\<lambda>p. fst p \<notin> set removed) m"
      and "\<forall>h\<in>set hs. \<exists>n t. n \<in> set removed \<and> map_of m n = Some t \<and> h = ptx_hash t" by auto
    ultimately show ?thesis by (metis list.set_intros(2))
  next
    case (Some tx)
    obtain hs1 where run: "remove_nonces removed (bt_remove item m) = (hs1, m')" and hs: "hs = ptx_hash tx # hs1"
      using "2.prems" Some by (auto split: prod.splits)
    from "2.IH"(2) [OF Some run] have "m' = filter (\<lambda>p. fst p \<notin> set removed) (bt_remove item m)"
      and "\<forall>h\<in>set hs1. \<exists>n t. n \<in> set removed \<and> map_of (bt_remove item m) n = Some t \<and> h = ptx_hash t" by auto
    moreover have "filter (\<lambda>p. fst p \<notin> set removed) (bt_remove item m) = filter (\<lambda>p. fst p \<notin> set (item # removed)) m"
      by (auto simp: bt_remove_def intro: filter_cong)
    ultimately show ?thesis using Some by (auto simp: hs split: if_splits) fast
  qed
qed

lemma clean_underprice_spec:
  assumes "user_tx_list_clean_underprice A b limit l = (hs, l')"
  shows "\<exists>ns. ul_items l' = filter (\<lambda>p. fst p \<notin> set ns) (ul_items l) \<and>
    (\<forall>h \<in> set hs. \<exists>n t. n \<in> set ns \<and> map_of (ul_items l) n = Some t \<and> h = ptx_hash t)"
  using assms
  by (auto simp: user_tx_list_clean_underprice_def sorted_map_clean_underprice_def Let_def split: prod.splits
      dest!: remove_nonces_spec)

lemma user_tx_list_remove_items:
  assumes "user_list_ok A a l"
  shows "user_tx_list_remove A n l =
    (if map_of (ul_items l) n = None then (False, l)
     else (True, l\<lparr>ul_txs := (ul_txs l)\<lparr>sm_items := filter (\<lambda>p. n < fst p) (ul_items l)\<rparr>\<rparr>))"
proof -
  have key: "tx_nonce A (ptx_tx (snd p)) = fst p" if "p \<in> set (ul_items l)" for p
    using assms that by (auto simp: user_list_ok_def)
  have dist: "distinct (map fst (ul_items l))" using user_list_okD(1) [OF assms] by (rule bt_ok_distinct)
  have "fst p \<notin> fst ` {x \<in> set (bt_remove n (ul_items l)). case x of (_, tx) \<Rightarrow> tx_nonce A (ptx_tx tx) < n} \<and> fst p \<noteq> n \<longleftrightarrow> n < fst p"
    if p: "p \<in> set (ul_items l)" for p
  proof -
    have "fst p \<in> fst ` {x \<in> set (bt_remove n (ul_items l)). case x of (_, tx) \<Rightarrow> tx_nonce A (ptx_tx tx) < n} \<longleftrightarrow> fst p < n"
      using p key by (force simp: bt_remove_def)
    then show ?thesis by auto
  qed
  then have "filter (\<lambda>p. fst p \<notin> fst ` {x \<in> set (bt_remove n (ul_items l)). case x of (_, tx) \<Rightarrow> tx_nonce A (ptx_tx tx) < n})
      (bt_remove n (ul_items l)) = filter (\<lambda>p. n < fst p) (ul_items l)"
    unfolding bt_remove_def [of n "ul_items l"] filter_filter by (intro filter_cong) (auto simp: bt_remove_def)
  then show ?thesis
    by (simp add: user_tx_list_remove_def sorted_map_remove_def bt_contains_key_def sorted_map_filter_def fold_bt_remove
        Let_def)
qed


lemma user_tx_list_add_0:
  "user_tx_list_add A tx 0 l =
     Some (case map_of (ul_items l) (tx_nonce A (ptx_tx tx)) of
        Some old \<Rightarrow>
          if tx_max_fee_per_gas A (ptx_tx tx) \<le> tx_max_fee_per_gas A (ptx_tx old) \<or>
             tx_max_priority_fee_per_gas A (ptx_tx tx) \<le> tx_max_priority_fee_per_gas A (ptx_tx old)
          then (False, l) else (True, l\<lparr>ul_txs := sorted_map_put A tx (ul_txs l)\<rparr>)
      | None \<Rightarrow> (True, l\<lparr>ul_txs := sorted_map_put A tx (ul_txs l)\<rparr>))"
  by (auto simp: user_tx_list_add_def sorted_map_get_def Let_def split: option.splits)

lemma user_tx_list_add_total: "\<exists>r l'. user_tx_list_add A tx 0 l = Some (r, l')"
  by (auto simp: user_tx_list_add_0 split: option.splits)

lemma sorted_map_put_items:
  assumes "bt_ok (sm_items s)" and "length (sm_items s) \<le> TXPOOL_USER_MAX_SIZE"
  shows "bt_ok (sm_items (sorted_map_put A tx s)) \<and> length (sm_items (sorted_map_put A tx s)) \<le> TXPOOL_USER_MAX_SIZE \<and>
    sm_items (sorted_map_put A tx s) \<noteq> [] \<and>
    (\<forall>n t. map_of (sm_items (sorted_map_put A tx s)) n = Some t \<longrightarrow>
       n = tx_nonce A (ptx_tx tx) \<and> t = tx \<or> map_of (sm_items s) n = Some t)"
proof -
  let ?i = "bt_insert (tx_nonce A (ptx_tx tx)) tx (sm_items s)"
  have ok: "bt_ok ?i" using assms(1) by simp
  have len: "length ?i \<le> Suc TXPOOL_USER_MAX_SIZE" "?i \<noteq> []"
    using assms length_bt_insert [OF assms(1), of "tx_nonce A (ptx_tx tx)" tx] by (auto simp: bt_insert_def)
  have sub: "map_of (butlast ?i) n = Some t \<Longrightarrow> map_of ?i n = Some t" for n t
    using bt_ok_in_set [OF ok] bt_ok_in_set [OF bt_ok_butlast [OF ok]] in_set_butlastD by metis
  show ?thesis
  proof (cases "TXPOOL_USER_MAX_SIZE < length ?i")
    case True
    then have items: "sm_items (sorted_map_put A tx s) = butlast ?i"
      using len(2) by (simp add: sorted_map_put_def Let_def bt_pop_last_def)
    have "butlast ?i \<noteq> []" using True len(2) by (auto simp: TXPOOL_USER_MAX_SIZE_def dest: arg_cong [of _ _ length])
    moreover have "map_of (sm_items s) n = Some t" if "map_of (butlast ?i) n = Some t" "\<not> (n = tx_nonce A (ptx_tx tx) \<and> t = tx)" for n t
      using sub [OF that(1)] that(2) by (auto split: if_splits)
    ultimately show ?thesis
      unfolding items using bt_ok_butlast [OF ok] len(1) by auto
  next
    case False
    then have items: "sm_items (sorted_map_put A tx s) = ?i" by (simp add: sorted_map_put_def Let_def)
    show ?thesis unfolding items using ok len(2) False by (auto split: if_splits)
  qed
qed

lemma user_list_ok_add:
  assumes "user_list_ok A a l" and "tx_sender A (ptx_tx tx) = a" and "user_tx_list_add A tx 0 l = Some (r, l')"
  shows "user_list_ok A a l'"
    and "map_of (ul_items l') n = Some t \<Longrightarrow> t = tx \<or> map_of (ul_items l) n = Some t"
    and "r \<or> ul_items l \<noteq> [] \<Longrightarrow> ul_items l' \<noteq> []"
proof -
  note put = sorted_map_put_items [OF user_list_okD(1,2) [OF assms(1)], of A tx]
  consider "l' = l" "\<not> r" | "l' = l\<lparr>ul_txs := sorted_map_put A tx (ul_txs l)\<rparr>"
    using assms(3) unfolding user_tx_list_add_0 by (auto split: option.splits if_splits)
  note cases = this
  show "map_of (ul_items l') n = Some t \<Longrightarrow> t = tx \<or> map_of (ul_items l) n = Some t" for n t
    using cases by cases (use put in auto)
  show "r \<or> ul_items l \<noteq> [] \<Longrightarrow> ul_items l' \<noteq> []" using cases by cases (use put in auto)
  show "user_list_ok A a l'"
    using cases
  proof cases
    case 2
    have "tx_nonce A (ptx_tx t) = n \<and> tx_sender A (ptx_tx t) = a" if "(n, t) \<in> set (ul_items l')" for n t
    proof -
      have "map_of (ul_items l') n = Some t" using that put by (simp add: 2 bt_ok_in_set)
      then show ?thesis using put user_list_okD(3) [OF assms(1), of n t] assms(2) by (auto simp: 2)
    qed
    with put show ?thesis by (auto simp: user_list_ok_def 2)
  qed (use assms(1) in simp)
qed

section \<open>The invariant of the pool\<close>

definition cached :: "(h256, 'tx) btree_map \<Rightarrow> 'tx pool_tx \<Rightarrow> bool" where
  "cached caches t \<longleftrightarrow> map_of caches (ptx_hash t) = Some (ptx_tx t)"

definition pending_ok :: "'tx tx_api \<Rightarrow> (h160, 'tx user_tx_list) btree_map \<Rightarrow> (h256, 'tx) btree_map \<Rightarrow> bool" where
  "pending_ok A pending caches \<longleftrightarrow>
     (\<forall>(a, l) \<in> set pending. user_list_ok A a l \<and> (\<forall>(n, t) \<in> set (ul_items l). cached caches t))"

definition price_inv :: "'tx tx_api \<Rightarrow> 'tx price_pool \<Rightarrow> bool" where
  "price_inv A p \<longleftrightarrow> bt_ok (pp_pending p) \<and> bt_ok (pp_caches p) \<and> pending_ok A (pp_pending p) (pp_caches p) \<and>
     (\<forall>(a, l) \<in> set (pp_pending p). ul_items l \<noteq> [])"

text \<open>The transaction pending for an account and a nonce.\<close>

definition pend :: "'tx price_pool \<Rightarrow> h160 \<Rightarrow> u64 \<Rightarrow> 'tx pool_tx option" where
  "pend p a n = (case map_of (pp_pending p) a of None \<Rightarrow> None | Some l \<Rightarrow> map_of (ul_items l) n)"

lemma pending_okD:
  assumes "pending_ok A pending caches" and "(a, l) \<in> set pending"
  shows "user_list_ok A a l" and "(n, t) \<in> set (ul_items l) \<Longrightarrow> cached caches t"
    and "map_of (ul_items l) n = Some t \<Longrightarrow> cached caches t \<and> tx_nonce A (ptx_tx t) = n \<and> tx_sender A (ptx_tx t) = a"
  using assms unfolding pending_ok_def
  by (auto dest!: bspec [of _ _ "(a, l)"] dest: map_of_SomeD simp: user_list_ok_def)

lemma price_inv_known:
  assumes "price_inv A p" and "map_of (pp_pending p) a = Some l"
  shows "user_list_ok A a l" "ul_items l \<noteq> []"
    and "map_of (ul_items l) n = Some t \<Longrightarrow> cached (pp_caches p) t \<and> tx_nonce A (ptx_tx t) = n \<and> tx_sender A (ptx_tx t) = a"
  using assms pending_okD [of A "pp_pending p" "pp_caches p" a l] map_of_SomeD [OF assms(2)]
  by (auto simp: price_inv_def)

text \<open>Replacing one account's list and the caches.\<close>

lemma price_inv_update:
  assumes inv: "price_inv A p" and ok: "bt_ok pending'" "bt_ok caches'"
    and look: "\<And>b. map_of pending' b =
      (if b = a then if ul_items l' = [] then None else Some l' else map_of (pp_pending p) b)"
    and l': "user_list_ok A a l'" "\<And>n t. map_of (ul_items l') n = Some t \<Longrightarrow> cached caches' t"
    and keep: "\<And>t. cached (pp_caches p) t \<Longrightarrow> tx_sender A (ptx_tx t) \<noteq> a \<Longrightarrow> cached caches' t"
  shows "price_inv A (p\<lparr>pp_caches := caches', pp_pending := pending'\<rparr>)"
proof -
  have "user_list_ok A b m \<and> (\<forall>(n, t) \<in> set (ul_items m). cached caches' t) \<and> ul_items m \<noteq> []"
    if mem: "(b, m) \<in> set pending'" for b m
  proof (cases "b = a")
    case True
    then have "m = l'" "ul_items l' \<noteq> []" using mem look [of b] bt_ok_in_set [OF ok(1)] by (auto split: if_splits)
    then show ?thesis using True l' bt_ok_in_set [OF user_list_okD(1) [OF l'(1)]] by auto
  next
    case False
    then have m: "map_of (pp_pending p) b = Some m" using mem look [of b] bt_ok_in_set [OF ok(1)] by simp
    note known = price_inv_known [OF inv m]
    have "cached caches' t" if "(n, t) \<in> set (ul_items m)" for n t
      using known(3) [of n t] that bt_ok_in_set [OF user_list_okD(1) [OF known(1)]] keep False by auto
    with known show ?thesis by blast
  qed
  with ok show ?thesis by (fastforce simp: price_inv_def pending_ok_def)
qed

lemma price_inv_new: "price_inv A (price_pool_new n)"
  by (simp add: price_inv_def price_pool_new_def pending_ok_def)

lemma price_inv_clear: "price_inv A p \<Longrightarrow> price_inv A (price_pool_clear p)"
  by (simp add: price_inv_def price_pool_clear_def pending_ok_def)

text \<open>\<open>push\<close> never panics; what it does to the caches and to the account of the sender.\<close>

lemma price_pool_push_eq:
  "price_pool_push A tx p =
     (if price_pool_contains p (ptx_hash tx) then Some (Inl AlreadyKnowned, p)
      else
        let a = tx_sender A (ptx_tx tx);
            l = (case map_of (pp_pending p) a of Some l \<Rightarrow> l | None \<Rightarrow> user_tx_list_new);
            l' = snd (the (user_tx_list_add A tx 0 l))
        in Some (Inr (ptx_hash tx),
             p\<lparr>pp_caches := bt_insert (ptx_hash tx) (ptx_tx tx) (pp_caches p),
               pp_pending := (if map_of (pp_pending p) a = None then bt_insert a l' (pp_pending p)
                              else bt_adjust a (\<lambda>_. l') (pp_pending p))\<rparr>))"
  by (auto simp: price_pool_push_def price_pool_contains_def Let_def user_tx_list_add_0 split: option.splits)

lemma price_inv_push:
  assumes inv: "price_inv A p" and push: "price_pool_push A tx p = Some (r, p')"
  shows "price_inv A p'"
proof (cases "price_pool_contains p (ptx_hash tx)")
  case True
  with assms show ?thesis by (simp add: price_pool_push_eq)
next
  case False
  let ?a = "tx_sender A (ptx_tx tx)" and ?caches = "bt_insert (ptx_hash tx) (ptx_tx tx) (pp_caches p)"
  define l where "l = (case map_of (pp_pending p) ?a of Some l \<Rightarrow> l | None \<Rightarrow> user_tx_list_new)"
  obtain r l' where add: "user_tx_list_add A tx 0 l = Some (r, l')"
    using user_tx_list_add_total by blast
  define pending' where "pending' = (if map_of (pp_pending p) ?a = None then bt_insert ?a l' (pp_pending p)
    else bt_adjust ?a (\<lambda>_. l') (pp_pending p))"
  have p': "p' = p\<lparr>pp_caches := ?caches, pp_pending := pending'\<rparr>"
    using push False
    unfolding price_pool_push_eq Let_def l_def [symmetric] add option.sel snd_conv pending'_def [symmetric] by simp
  have keep: "cached ?caches t" if "cached (pp_caches p) t" for t
    using that False by (auto simp: cached_def price_pool_contains_def bt_contains_key_def)
  have l_ok: "user_list_ok A ?a l" and l_cached: "map_of (ul_items l) n = Some t \<Longrightarrow> cached (pp_caches p) t" for n t
    using price_inv_known [OF inv, of ?a]
    by (auto simp: l_def user_list_ok_def user_tx_list_new_def sorted_map_new_def split: option.splits)
  note add_ok = user_list_ok_add [OF l_ok refl add]
  have ne: "ul_items l' \<noteq> []"
    using add add_ok(3) price_inv_known(2) [OF inv, of ?a]
    by (auto simp: l_def user_tx_list_add_0 user_tx_list_new_def sorted_map_new_def split: option.splits)
  show ?thesis
    unfolding p'
  proof (rule price_inv_update [OF inv _ _ _ add_ok(1)])
    show "bt_ok pending'" "bt_ok ?caches" using inv by (simp_all add: pending'_def price_inv_def)
    show "map_of pending' b = (if b = ?a then if ul_items l' = [] then None else Some l' else map_of (pp_pending p) b)" for b
      using ne by (auto simp: pending'_def)
    show "cached ?caches t" if "cached (pp_caches p) t" for t using that by (rule keep)
    show "cached ?caches t" if "map_of (ul_items l') n = Some t" for n t
      using add_ok(2) [OF that]
    proof
      assume "t = tx"
      then show ?thesis by (simp add: cached_def)
    next
      assume "map_of (ul_items l) n = Some t"
      then show ?thesis by (rule keep [OF l_cached])
    qed
  qed
qed

text \<open>Two cached transactions of the same hash are the same, so they have one account and one nonce.\<close>

lemma cached_same: "cached c t \<Longrightarrow> cached c u \<Longrightarrow> ptx_hash t = ptx_hash u \<Longrightarrow> ptx_tx t = ptx_tx u"
  by (simp add: cached_def)

lemma cached_fold_remove: "cached c t \<Longrightarrow> ptx_hash t \<notin> set hs \<Longrightarrow> cached (fold bt_remove hs c) t"
  by (simp add: cached_def map_of_fold_remove)

lemma price_inv_remove:
  assumes inv: "price_inv A p"
  shows "price_inv A (snd (price_pool_remove A h p))"
proof (cases "map_of (pp_caches p) h")
  case None
  with inv show ?thesis by (simp add: price_pool_remove_def)
next
  case (Some tx)
  let ?a = "tx_sender A tx" and ?n = "tx_nonce A tx" and ?caches = "bt_remove h (pp_caches p)"
  define l where "l = (case map_of (pp_pending p) ?a of Some l \<Rightarrow> l | None \<Rightarrow> user_tx_list_new)"
  have l_ok: "user_list_ok A ?a l"
    and l_cached: "map_of (ul_items l) n = Some t \<Longrightarrow> cached (pp_caches p) t \<and> tx_nonce A (ptx_tx t) = n" for n t
    using price_inv_known [OF inv, of ?a]
    by (auto simp: l_def user_list_ok_def user_tx_list_new_def sorted_map_new_def split: option.splits)
  have l_ne: "ul_items l = [] \<longleftrightarrow> map_of (pp_pending p) ?a = None"
    using price_inv_known(2) [OF inv, of ?a]
    by (auto simp: l_def user_tx_list_new_def sorted_map_new_def split: option.splits)
  have keep: "cached ?caches t" if "cached (pp_caches p) t" "tx_sender A (ptx_tx t) \<noteq> ?a \<or> tx_nonce A (ptx_tx t) \<noteq> ?n" for t
    using that Some by (auto simp: cached_def)
  define l' where "l' = snd (user_tx_list_remove A ?n l)"
  have l': "l' = (if map_of (ul_items l) ?n = None then l
      else l\<lparr>ul_txs := (ul_txs l)\<lparr>sm_items := filter (\<lambda>p. ?n < fst p) (ul_items l)\<rparr>\<rparr>)"
    by (simp add: l'_def user_tx_list_remove_items [OF l_ok])
  have l'_sub: "map_of (ul_items l) n = Some t \<and> n \<noteq> ?n" if "map_of (ul_items l') n = Some t" for n t
    using that map_of_filter_key [of "\<lambda>x. ?n < x" "ul_items l" n] by (auto simp: l' split: if_splits)
  define pending' where "pending' = (if ul_items l' = [] then bt_remove ?a (pp_pending p)
    else bt_adjust ?a (\<lambda>_. l') (pp_pending p))"
  have same: "bt_adjust ?a (\<lambda>_. l) (pp_pending p) = pp_pending p" if "map_of (pp_pending p) ?a = Some l"
    using that inv bt_ok_in_set [of "pp_pending p"] by (auto simp: bt_adjust_def price_inv_def intro!: map_idI)
  have "snd (price_pool_remove A h p) = p\<lparr>pp_caches := ?caches, pp_pending := pending'\<rparr>"
  proof (cases "map_of (pp_pending p) ?a")
    case None
    then show ?thesis using Some l_ne
      by (simp add: price_pool_remove_def pending'_def l' bt_remove_id)
  next
    case m: (Some m)
    then have l: "map_of (pp_pending p) ?a = Some l" "ul_items l \<noteq> []" using l_ne by (simp_all add: l_def)
    with Some same [OF l(1)] show ?thesis
      by (simp add: price_pool_remove_def Let_def pending'_def l' user_tx_list_remove_items [OF l_ok] user_tx_list_len_def
          sorted_map_len_def)
  qed
  moreover have "price_inv A (p\<lparr>pp_caches := ?caches, pp_pending := pending'\<rparr>)"
  proof (rule price_inv_update [OF inv])
    show "bt_ok pending'" "bt_ok ?caches" using inv by (simp_all add: pending'_def price_inv_def)
    show "user_list_ok A ?a l'"
      using l_ok by (auto simp: l' intro: user_list_ok_filter)
    show "map_of pending' b = (if b = ?a then if ul_items l' = [] then None else Some l' else map_of (pp_pending p) b)" for b
      using l_ne by (auto simp: pending'_def l' split: if_splits)
    show "cached ?caches t" if "map_of (ul_items l') n = Some t" for n t
      using l'_sub [OF that] l_cached [of n t] by (intro keep) auto
    show "cached ?caches t" if "cached (pp_caches p) t" "tx_sender A (ptx_tx t) \<noteq> ?a" for t
      using that by (intro keep) auto
  qed
  ultimately show ?thesis by simp
qed


section \<open>\<open>flatten\<close> and \<open>list\<close>\<close>

text \<open>Consecutive nonces, without a wrap-around.\<close>

definition next_nonce :: "'tx tx_api \<Rightarrow> 'tx pool_tx \<Rightarrow> 'tx pool_tx \<Rightarrow> bool" where
  "next_nonce A x y \<longleftrightarrow> unat (tx_nonce A (ptx_tx y)) = Suc (unat (tx_nonce A (ptx_tx x)))"

lemma next_nonce_word: "\<not> (n \<le> (m::u64) \<or> n - m \<noteq> 1) \<Longrightarrow> unat n = Suc (unat m)"
proof -
  assume "\<not> (n \<le> m \<or> n - m \<noteq> 1)"
  then have "m \<le> n" "n - m = 1" by auto
  then have "unat n - unat m = 1" by (metis unat_sub unat_1)
  then show ?thesis using \<open>m \<le> n\<close> by (simp add: word_le_nat_alt)
qed

lemma flatten_loop_spec:
  assumes "flatten_loop A b items fltr nc nl = (txs, d, fltr')"
    and "\<And>n t. (n, t) \<in> set items \<Longrightarrow> tx_nonce A (ptx_tx t) = n"
  shows "\<exists>ys. txs = nl @ ys \<and> set ys \<subseteq> snd ` set items \<and>
    (\<forall>y \<in> set ys. tx_effective_gas_tip A (ptx_tx y) b \<noteq> None) \<and>
    (successively (next_nonce A) nl \<longrightarrow> successively (next_nonce A) txs)"
  using assms
proof (induction A b items fltr nc nl rule: flatten_loop.induct)
  case (1 A b fltr nc nl)
  then show ?case by simp
next
  case (2 A b nonce t items fltr nc nl)
  let ?skip = "\<not> nc \<and> map_of fltr (ptx_hash t) = Some True" and ?stop = "\<not> nc \<and> map_of fltr (ptx_hash t) = Some False"
  let ?low = "tx_effective_gas_tip A (ptx_tx t) b = None"
  let ?gap = "nl \<noteq> [] \<and> (let old_nonce = tx_nonce A (ptx_tx (last nl)) in nonce \<le> old_nonce \<or> nonce - old_nonce \<noteq> 1)"
  consider "?skip" | "\<not> ?skip" "?stop \<or> ?low \<or> ?gap" | "\<not> ?skip" "\<not> ?stop" "\<not> ?low" "\<not> ?gap" by blast
  then show ?case
  proof cases
    case 1
    with "2.IH"(1) "2.prems" show ?thesis by fastforce
  next
    case 2
    with "2.prems"(1) have "txs = nl" by (auto split: if_splits)
    then show ?thesis by simp
  next
    case 3
    have run: "flatten_loop A b items fltr True (nl @ [t]) = (txs, d, fltr')" using "2.prems"(1) 3 by simp
    have "tx_nonce A (ptx_tx t) = nonce" using "2.prems"(2) by simp
    moreover have "successively (next_nonce A) (nl @ [t])" if "successively (next_nonce A) nl"
      using that 3(4) next_nonce_word [of nonce "tx_nonce A (ptx_tx (last nl))"] calculation
      by (cases "nl = []") (auto simp: successively_append_iff next_nonce_def Let_def)
    ultimately show ?thesis
      using "2.IH"(2) [OF 3(1) 3(2) 3(3) 3(4) run] "2.prems"(2) 3(3) by fastforce
  qed
qed

lemma user_list_flatten:
  assumes "user_list_ok A a l" and "user_tx_list_flatten A fltr b l = (txs, d, fltr')"
  shows "set txs \<subseteq> snd ` set (ul_items l)" and "\<And>t. t \<in> set txs \<Longrightarrow> tx_effective_gas_tip A (ptx_tx t) b \<noteq> None"
    and "successively (next_nonce A) txs" and "\<And>t. t \<in> set txs \<Longrightarrow> tx_sender A (ptx_tx t) = a"
proof -
  have keys: "\<And>n t. (n, t) \<in> set (ul_items l) \<Longrightarrow> tx_nonce A (ptx_tx t) = n"
    and own: "\<And>n t. (n, t) \<in> set (ul_items l) \<Longrightarrow> tx_sender A (ptx_tx t) = a"
    using assms(1) by (auto simp: user_list_ok_def)
  have run: "flatten_loop A b (ul_items l) fltr False [] = (txs, d, fltr')"
    using assms(2) by (simp add: user_tx_list_flatten_def sorted_map_flatten_def)
  from flatten_loop_spec [OF run keys] show "set txs \<subseteq> snd ` set (ul_items l)"
    "\<And>t. t \<in> set txs \<Longrightarrow> tx_effective_gas_tip A (ptx_tx t) b \<noteq> None" "successively (next_nonce A) txs"
    by auto
  then show "\<And>t. t \<in> set txs \<Longrightarrow> tx_sender A (ptx_tx t) = a" using own by fastforce
qed


text \<open>Dropping underpriced transactions of an account, and their hashes from the caches.\<close>

lemma clean_keeps:
  assumes l: "user_list_ok A a l" "\<forall>(n, t) \<in> set (ul_items l). cached caches t"
    and clean: "user_tx_list_clean_underprice A b limit l = (hs, l')"
  shows "user_list_ok A a l'" and "(n, t) \<in> set (ul_items l') \<Longrightarrow> cached (fold bt_remove hs caches) t"
    and "cached caches t \<Longrightarrow> tx_sender A (ptx_tx t) \<noteq> a \<Longrightarrow> cached (fold bt_remove hs caches) t"
proof -
  obtain ns where items: "ul_items l' = filter (\<lambda>p. fst p \<notin> set ns) (ul_items l)"
    and hs: "\<And>h. h \<in> set hs \<Longrightarrow> \<exists>n u. n \<in> set ns \<and> map_of (ul_items l) n = Some u \<and> h = ptx_hash u"
    using clean_underprice_spec [OF clean] by blast
  show "user_list_ok A a l'" by (rule user_list_ok_filter [OF l(1) items])
  have gone: "tx_sender A (ptx_tx t) = a \<and> tx_nonce A (ptx_tx t) \<in> set ns"
    if t: "cached caches t" "ptx_hash t \<in> set hs" for t
  proof -
    obtain n u where u: "n \<in> set ns" "map_of (ul_items l) n = Some u" "ptx_hash t = ptx_hash u" using hs [OF t(2)] by blast
    then have "ptx_tx t = ptx_tx u" using cached_same [OF t(1)] l(2) map_of_SomeD [OF u(2)] by blast
    with user_list_okD(3) [OF l(1) u(2)] u(1) show ?thesis by simp
  qed
  show "cached (fold bt_remove hs caches) t" if "(n, t) \<in> set (ul_items l')"
  proof (rule cached_fold_remove)
    have t: "(n, t) \<in> set (ul_items l)" "n \<notin> set ns" using that by (auto simp: items)
    then show "cached caches t" using l(2) by blast
    moreover have "tx_nonce A (ptx_tx t) = n" using t(1) l(1) by (auto simp: user_list_ok_def)
    ultimately show "ptx_hash t \<notin> set hs" using gone t(2) by auto
  qed
  show "cached (fold bt_remove hs caches) t" if "cached caches t" "tx_sender A (ptx_tx t) \<noteq> a"
    using that gone by (intro cached_fold_remove) auto
qed

lemma bt_ok_fold_remove: "bt_ok m \<Longrightarrow> bt_ok (fold bt_remove ks m)"
  by (simp add: fold_bt_remove bt_ok_filter)

lemma clean_account_keeps:
  assumes l: "user_list_ok A a l" "\<forall>(n, t) \<in> set (ul_items l). cached caches t" "ul_items l \<noteq> []"
    and run: "clean_account A b limited a d tot l caches rem = (l', caches', tot', rem')"
  shows "user_list_ok A a l'" and "(n, t) \<in> set (ul_items l') \<Longrightarrow> cached caches' t"
    and "cached caches t \<Longrightarrow> tx_sender A (ptx_tx t) \<noteq> a \<Longrightarrow> cached caches' t"
    and "bt_ok caches \<Longrightarrow> bt_ok caches'"
    and "rem' = (if ul_items l' = [] then rem @ [a] else rem)"
proof -
  show "user_list_ok A a l'" using run l clean_keeps(1) [OF l(1,2)]
    by (auto simp: clean_account_def split: if_splits prod.splits)
  show "(n, t) \<in> set (ul_items l') \<Longrightarrow> cached caches' t" using run l clean_keeps(2) [OF l(1,2)]
    by (auto simp: clean_account_def split: if_splits prod.splits)
  show "cached caches t \<Longrightarrow> tx_sender A (ptx_tx t) \<noteq> a \<Longrightarrow> cached caches' t" using run l clean_keeps(3) [OF l(1,2)]
    by (auto simp: clean_account_def split: if_splits prod.splits)
  show "bt_ok caches \<Longrightarrow> bt_ok caches'" using run
    by (auto simp: clean_account_def bt_ok_fold_remove split: if_splits prod.splits)
  show "rem' = (if ul_items l' = [] then rem @ [a] else rem)" using run l(3)
    by (auto simp: clean_account_def user_tx_list_len_def sorted_map_len_def split: if_splits prod.splits)
qed

text \<open>The two ways a round of the loop goes: it breaks, or it cleans the account and goes on.\<close>

lemma price_list_loop_Cons:
  assumes "price_list_loop A b limit limited ((a, l) # pending) result caches fltr tot rem = (pending', result', caches', fltr', rem')"
  obtains (stop) txs d where "user_tx_list_flatten A fltr b l = (txs, d, fltr')" "txs \<noteq> []" "result' = bt_insert a txs result"
      "pending' = (a, l) # pending" "caches' = caches" "rem' = rem"
  | (go) txs d fltr1 l1 caches1 tot1 rem1 pending1 where
      "user_tx_list_flatten A fltr b l = (txs, d, fltr1)"
      "txs \<noteq> [] \<Longrightarrow> length (bt_insert a txs result) < unat limit"
      "clean_account A b limited a d (tot + user_tx_list_len l) l caches rem = (l1, caches1, tot1, rem1)"
      "price_list_loop A b limit limited pending (if txs \<noteq> [] then bt_insert a txs result else result)
         caches1 fltr1 tot1 rem1 = (pending1, result', caches', fltr', rem')"
      "pending' = (a, l1) # pending1"
proof -
  obtain txs d fltr1 where f: "user_tx_list_flatten A fltr b l = (txs, d, fltr1)" by (metis prod_cases3)
  obtain l1 caches1 tot1 rem1 where
    c: "clean_account A b limited a d (tot + user_tx_list_len l) l caches rem = (l1, caches1, tot1, rem1)"
    by (metis prod_cases4)
  show thesis
  proof (cases "txs \<noteq> [] \<and> unat limit \<le> length (bt_insert a txs result)")
    case True
    with assms f show thesis by (intro stop [of txs d]) simp_all
  next
    case False
    obtain pending1 result2 caches2 fltr2 rem2 where
      r: "price_list_loop A b limit limited pending (if txs \<noteq> [] then bt_insert a txs result else result)
         caches1 fltr1 tot1 rem1 = (pending1, result2, caches2, fltr2, rem2)" by (metis prod_cases5)
    have "(pending', result', caches', fltr', rem') = ((a, l1) # pending1, result2, caches2, fltr2, rem2)"
      using assms False f c r by (simp split: if_splits)
    with f c r False show thesis by (intro go [of txs d fltr1 l1 caches1 tot1 rem1 pending1]) auto
  qed
qed

lemma price_list_loop_keeps:
  assumes "price_list_loop A b limit limited pending result caches fltr tot rem = (pending', result', caches', fltr', rem')"
    and "distinct (map fst pending)" and "pending_ok A pending caches" and "\<And>a l. (a, l) \<in> set pending \<Longrightarrow> ul_items l \<noteq> []"
    and "bt_ok caches"
  shows "map fst pending' = map fst pending \<and> pending_ok A pending' caches' \<and> bt_ok caches' \<and>
    (\<forall>t. cached caches t \<longrightarrow> tx_sender A (ptx_tx t) \<notin> fst ` set pending \<longrightarrow> cached caches' t) \<and>
    (\<forall>a l. (a, l) \<in> set pending' \<longrightarrow> ul_items l = [] \<longrightarrow> a \<in> set rem') \<and> set rem \<subseteq> set rem'"
  using assms
proof (induction pending arbitrary: result caches fltr tot rem pending')
  case Nil
  then show ?case by (auto simp: pending_ok_def)
next
  case (Cons e pending)
  obtain a l where e: "e = (a, l)" by (cases e)
  have l: "user_list_ok A a l" "\<forall>(n, t) \<in> set (ul_items l). cached caches t" "ul_items l \<noteq> []"
    using Cons.prems(3) Cons.prems(4) [of a l] by (simp_all add: e pending_ok_def)
  from Cons.prems(1) [unfolded e] show ?case
  proof (cases rule: price_list_loop_Cons)
    case (stop txs d)
    with Cons.prems show ?thesis by (auto simp: e)
  next
    case (go txs d fltr1 l1 caches1 tot1 rem1 pending1)
    note clean = clean_account_keeps [OF l go(3)]
    have own: "tx_sender A (ptx_tx t) = c" if "(c, m) \<in> set pending" "(n, t) \<in> set (ul_items m)" for c m n t
      using pending_okD(1) [OF Cons.prems(3), of c m] that by (auto simp: user_list_ok_def e)
    have "pending_ok A pending caches1"
      unfolding pending_ok_def
    proof (clarify, intro conjI, goal_cases)
      case (1 c m)
      then show ?case using pending_okD(1) [OF Cons.prems(3), of c m] by (simp add: e)
    next
      case (2 c m)
      then show ?case
        using own [OF 2] clean(3) pending_okD(2) [OF Cons.prems(3), of c m] Cons.prems(2) by (force simp: e)
    qed
    with Cons.IH [OF go(4)] Cons.prems clean(4)
    have IH: "map fst pending1 = map fst pending" "pending_ok A pending1 caches'" "bt_ok caches'"
      "\<And>t. cached caches1 t \<Longrightarrow> tx_sender A (ptx_tx t) \<notin> fst ` set pending \<Longrightarrow> cached caches' t"
      "\<And>a l. (a, l) \<in> set pending1 \<Longrightarrow> ul_items l = [] \<Longrightarrow> a \<in> set rem'" "set rem1 \<subseteq> set rem'"
      by (auto simp: e)
    have "cached caches' t" if "(n, t) \<in> set (ul_items l1)" for n t
      using clean(1,2) that Cons.prems(2) by (intro IH(4)) (auto simp: user_list_ok_def e)
    with IH(2) clean(1) have "pending_ok A pending' caches'"
      unfolding go(5) pending_ok_def by auto
    then show ?thesis
      using IH clean(3,5) by (auto simp: e go(5) split: if_splits)
  qed
qed


lemma price_inv_list:
  assumes inv: "price_inv A p" and run: "price_pool_list A fltr b limit p = (result, fltr', p')"
  shows "price_inv A p'"
proof -
  obtain pending' caches' rem' where
    loop: "price_list_loop A b limit (pp_limited_size p) (pp_pending p) [] (pp_caches p) fltr 0 [] =
      (pending', result, caches', fltr', rem')"
    and p': "p' = p\<lparr>pp_pending := fold bt_remove rem' pending', pp_caches := caches'\<rparr>"
    using run by (auto simp: price_pool_list_def split: prod.splits)
  have parts: "bt_ok (pp_pending p)" "bt_ok (pp_caches p)" "pending_ok A (pp_pending p) (pp_caches p)"
    "\<And>a l. (a, l) \<in> set (pp_pending p) \<Longrightarrow> ul_items l \<noteq> []" using inv by (auto simp: price_inv_def)
  from price_list_loop_keeps [OF loop bt_ok_distinct [OF parts(1)] parts(3,4,2)]
  have keep: "map fst pending' = map fst (pp_pending p)" "pending_ok A pending' caches'" "bt_ok caches'"
    "\<And>a l. (a, l) \<in> set pending' \<Longrightarrow> ul_items l = [] \<Longrightarrow> a \<in> set rem'" by auto
  have "bt_ok pending'" using parts(1) keep(1) by (simp add: bt_ok_def)
  then show ?thesis
    using keep(2-4) by (auto simp: price_inv_def p' fold_bt_remove bt_ok_filter pending_ok_def)
qed

text \<open>What \<open>list\<close> returns: accounts with a nonempty run of consecutive, paying transactions of their own.\<close>

definition listed_ok ::
  "'tx tx_api \<Rightarrow> u256 option \<Rightarrow> (h160, 'tx user_tx_list) btree_map \<Rightarrow> h160 \<Rightarrow> 'tx pool_tx list \<Rightarrow> bool" where
  "listed_ok A b pending a txs \<longleftrightarrow> txs \<noteq> [] \<and> successively (next_nonce A) txs \<and>
     (\<forall>t \<in> set txs. tx_effective_gas_tip A (ptx_tx t) b \<noteq> None \<and> tx_sender A (ptx_tx t) = a \<and>
        (\<exists>l. map_of pending a = Some l \<and> map_of (ul_items l) (tx_nonce A (ptx_tx t)) = Some t))"

lemma user_list_flatten_listed:
  assumes "user_list_ok A a l" and "user_tx_list_flatten A fltr b l = (txs, d, fltr')" and "txs \<noteq> []"
    and "map_of pending a = Some l"
  shows "listed_ok A b pending a txs"
proof -
  note flat = user_list_flatten [OF assms(1,2)]
  have "map_of (ul_items l) (tx_nonce A (ptx_tx t)) = Some t" if "t \<in> set txs" for t
  proof -
    from subsetD [OF flat(1) that] obtain n where "(n, t) \<in> set (ul_items l)" by auto
    then have "map_of (ul_items l) n = Some t" by (simp add: bt_ok_in_set [OF user_list_okD(1) [OF assms(1)]])
    with user_list_okD(3) [OF assms(1) this] show ?thesis by simp
  qed
  with flat assms(3,4) show ?thesis by (simp add: listed_ok_def)
qed

lemma price_list_loop_result:
  assumes "price_list_loop A b limit limited pending result caches fltr tot rem = (pending', result', caches', fltr', rem')"
    and "\<And>a l. (a, l) \<in> set pending \<Longrightarrow> user_list_ok A a l \<and> map_of P a = Some l"
    and "bt_ok result" and "\<And>a txs. map_of result a = Some txs \<Longrightarrow> listed_ok A b P a txs" 
  shows "bt_ok result' \<and> (\<forall>a txs. map_of result' a = Some txs \<longrightarrow> listed_ok A b P a txs) \<and>
    (length result < unat limit \<or> result = [] \<longrightarrow> length result' \<le> max 1 (unat limit))"
  using assms
proof (induction pending arbitrary: result caches fltr tot rem pending')
  case Nil
  then show ?case by auto
next
  case (Cons e pending)
  obtain a l where e: "e = (a, l)" by (cases e)
  have l: "user_list_ok A a l" "map_of P a = Some l" using Cons.prems(2) [of a l] by (simp_all add: e)
  from Cons.prems(1) [unfolded e] show ?case
  proof (cases rule: price_list_loop_Cons)
    case (stop txs d)
    have "length (bt_insert a txs result) \<le> max 1 (unat limit)" if "length result < unat limit \<or> result = []"
      using that length_bt_insert [OF Cons.prems(3), of a txs] by auto
    then show ?thesis
      using Cons.prems(3,4) user_list_flatten_listed [OF l(1) stop(1,2) l(2)] stop(3) by auto
  next
    case (go txs d fltr1 l1 caches1 tot1 rem1 pending1)
    let ?r = "if txs \<noteq> [] then bt_insert a txs result else result"
    have "bt_ok ?r" using Cons.prems(3) by simp
    moreover have "listed_ok A b P c ts" if "map_of ?r c = Some ts" for c ts
      using that Cons.prems(4) [of c ts] user_list_flatten_listed [OF l(1) go(1) _ l(2)] by (auto split: if_splits)
    moreover have "length ?r < unat limit \<or> ?r = []" if "length result < unat limit \<or> result = []" using that go(2) by auto
    ultimately show ?thesis using Cons.IH [OF go(4)] Cons.prems(2) by auto
  qed
qed


section \<open>Reachable pools\<close>

inductive price_pool_run :: "'tx tx_api \<Rightarrow> 'tx price_pool \<Rightarrow> bool" for A where
  new: "price_pool_run A (price_pool_new limited_size)"
| push: "price_pool_run A p \<Longrightarrow> price_pool_push A tx p = Some (r, p') \<Longrightarrow> price_pool_run A p'"
| remove: "price_pool_run A p \<Longrightarrow> price_pool_run A (snd (price_pool_remove A h p))"
| list: "price_pool_run A p \<Longrightarrow> price_pool_list A fltr b limit p = (result, fltr', p') \<Longrightarrow> price_pool_run A p'"
| clear: "price_pool_run A p \<Longrightarrow> price_pool_run A (price_pool_clear p)"

lemma price_pool_run_inv: "price_pool_run A p \<Longrightarrow> price_inv A p"
  by (induction rule: price_pool_run.induct)
    (auto intro: price_inv_new price_inv_push price_inv_remove price_inv_list price_inv_clear)

lemma pend_known:
  "price_inv A p \<Longrightarrow> pend p a n = Some t \<Longrightarrow>
     cached (pp_caches p) t \<and> tx_nonce A (ptx_tx t) = n \<and> tx_sender A (ptx_tx t) = a"
  by (auto simp: pend_def split: option.splits dest: price_inv_known(3))

lemma bt_last_key:
  assumes "bt_ok m" and "m \<noteq> []"
  shows "fst (last m) = Max (fst ` set m)"
    and "map_of (butlast m) k = (if k = Max (fst ` set m) then None else map_of m k)"
proof -
  obtain xs k v where m: "m = xs @ [(k, v)]" using assms(2) by (metis append_butlast_last_id surj_pair)
  have lt: "\<forall>j \<in> fst ` set xs. j < k" and "bt_ok xs" using assms(1) by (auto simp: m bt_ok_def sorted_wrt_append)
  then have mx: "Max (fst ` set m) = k"
    by (intro Max_eqI) (auto simp: m less_imp_le)
  then show "fst (last m) = Max (fst ` set m)" by (simp add: m)
  have "map_of xs k = None" using lt by (auto simp: map_of_eq_None_iff)
  then show "map_of (butlast m) j = (if j = Max (fst ` set m) then None else map_of m j)" for j
    unfolding mx by (auto simp: m map_add_def split: option.splits)
qed

text \<open>The nonces pending for an account.\<close>

definition nonces :: "'tx price_pool \<Rightarrow> h160 \<Rightarrow> u64 set" where
  "nonces p a = {n. pend p a n \<noteq> None}"

text \<open>Whether \<open>push\<close> would refuse to replace the pending transaction of the same nonce.\<close>

definition underpriced :: "'tx tx_api \<Rightarrow> 'tx pool_tx \<Rightarrow> 'tx price_pool \<Rightarrow> bool" where
  "underpriced A tx p \<longleftrightarrow>
     (case pend p (tx_sender A (ptx_tx tx)) (tx_nonce A (ptx_tx tx)) of
        None \<Rightarrow> False
      | Some old \<Rightarrow> tx_max_fee_per_gas A (ptx_tx tx) \<le> tx_max_fee_per_gas A (ptx_tx old) \<or>
          tx_max_priority_fee_per_gas A (ptx_tx tx) \<le> tx_max_priority_fee_per_gas A (ptx_tx old))"

text \<open>The slots of the sender after \<open>push\<close>.\<close>

definition pushed :: "'tx tx_api \<Rightarrow> 'tx pool_tx \<Rightarrow> 'tx price_pool \<Rightarrow> u64 \<Rightarrow> 'tx pool_tx option" where
  "pushed A tx p n =
     (let a = tx_sender A (ptx_tx tx); m = tx_nonce A (ptx_tx tx)
      in if TXPOOL_USER_MAX_SIZE < card (insert m (nonces p a)) \<and> n = Max (insert m (nonces p a)) then None
         else if n = m then Some tx else pend p a n)"

lemma sorted_map_put_lookup:
  assumes "bt_ok (sm_items s)"
  shows "map_of (sm_items (sorted_map_put A tx s)) n =
    (let m = tx_nonce A (ptx_tx tx); K = insert m (fst ` set (sm_items s))
     in if TXPOOL_USER_MAX_SIZE < card K \<and> n = Max K then None
        else if n = m then Some tx else map_of (sm_items s) n)"
proof -
  let ?m = "tx_nonce A (ptx_tx tx)" and ?i = "bt_insert (tx_nonce A (ptx_tx tx)) tx (sm_items s)"
  have ok: "bt_ok ?i" using assms by simp
  have ne: "?i \<noteq> []" by (simp add: bt_insert_def)
  have keys: "fst ` set ?i = insert ?m (fst ` set (sm_items s))" by (rule fst_set_bt_insert)
  have "length ?i = card (set (map fst ?i))" using bt_ok_distinct [OF ok] by (metis distinct_card length_map)
  then have len: "length ?i = card (insert ?m (fst ` set (sm_items s)))" using keys by simp
  have items: "sm_items (sorted_map_put A tx s) =
      (if TXPOOL_USER_MAX_SIZE < card (insert ?m (fst ` set (sm_items s))) then butlast ?i else ?i)"
    using ne by (simp add: sorted_map_put_def Let_def bt_pop_last_def len)
  show ?thesis
    unfolding items if_distrib [of map_of] if_distribR bt_last_key(2) [OF ok ne] keys by (simp add: Let_def)
qed

lemma price_pool_push_pend:
  assumes inv: "price_inv A p" and new: "\<not> price_pool_contains p (ptx_hash tx)"
    and push: "price_pool_push A tx p = Some (r, p')"
  shows "r = Inr (ptx_hash tx)" and "price_pool_contains p' h \<longleftrightarrow> h = ptx_hash tx \<or> price_pool_contains p h"
    and "pend p' b n = (if b = tx_sender A (ptx_tx tx) \<and> \<not> underpriced A tx p then pushed A tx p n else pend p b n)"
proof -
  let ?a = "tx_sender A (ptx_tx tx)"
  define l where "l = (case map_of (pp_pending p) ?a of Some l \<Rightarrow> l | None \<Rightarrow> user_tx_list_new)"
  define l' where "l' = snd (the (user_tx_list_add A tx 0 l))"
  have p': "r = Inr (ptx_hash tx)" "p' = p\<lparr>pp_caches := bt_insert (ptx_hash tx) (ptx_tx tx) (pp_caches p),
      pp_pending := (if map_of (pp_pending p) ?a = None then bt_insert ?a l' (pp_pending p)
        else bt_adjust ?a (\<lambda>_. l') (pp_pending p))\<rparr>"
    using push new unfolding price_pool_push_eq Let_def l_def [symmetric] l'_def [symmetric] by auto
  show "r = Inr (ptx_hash tx)" by (rule p'(1))
  show "price_pool_contains p' h \<longleftrightarrow> h = ptx_hash tx \<or> price_pool_contains p h"
    by (simp add: p'(2) price_pool_contains_def bt_contains_key_def)
  have old: "pend p ?a n = map_of (ul_items l) n" for n
    by (simp add: pend_def l_def user_tx_list_new_def sorted_map_new_def split: option.splits)
  have ok: "bt_ok (ul_items l)"
    using price_inv_known(1) [OF inv, of ?a] user_list_okD(1)
    by (auto simp: l_def user_tx_list_new_def sorted_map_new_def split: option.splits)
  have keys: "nonces p ?a = fst ` set (ul_items l)"
    unfolding nonces_def old by (auto simp: dom_map_of_conv_image_fst [symmetric])
  have look: "pend p' b n = (if b = ?a then map_of (ul_items l') n else pend p b n)"
    by (auto simp: pend_def p'(2))
  have "map_of (ul_items l') n = (if underpriced A tx p then pend p ?a n else pushed A tx p n)"
    using sorted_map_put_lookup [OF ok, of A tx n]
    by (auto simp: l'_def user_tx_list_add_0 underpriced_def old pushed_def keys Let_def split: option.splits if_splits)
  then show "pend p' b n = (if b = ?a \<and> \<not> underpriced A tx p then pushed A tx p n else pend p b n)"
    by (auto simp: look)
qed


lemma price_pool_remove_pend:
  assumes inv: "price_inv A p" and tx: "map_of (pp_caches p) h = Some tx"
  shows "fst (price_pool_remove A h p) \<longleftrightarrow> pend p (tx_sender A tx) (tx_nonce A tx) \<noteq> None"
    and "pend (snd (price_pool_remove A h p)) b n =
      (if b = tx_sender A tx \<and> pend p b (tx_nonce A tx) \<noteq> None \<and> n \<le> tx_nonce A tx then None else pend p b n)"
    and "price_pool_contains (snd (price_pool_remove A h p)) k \<longleftrightarrow> k \<noteq> h \<and> price_pool_contains p k"
proof -
  let ?a = "tx_sender A tx" and ?n = "tx_nonce A tx"
  have "(fst (price_pool_remove A h p) \<longleftrightarrow> pend p ?a ?n \<noteq> None) \<and>
    pend (snd (price_pool_remove A h p)) b n = (if b = ?a \<and> pend p b ?n \<noteq> None \<and> n \<le> ?n then None else pend p b n) \<and>
    (price_pool_contains (snd (price_pool_remove A h p)) k \<longleftrightarrow> k \<noteq> h \<and> price_pool_contains p k)"
  proof (cases "map_of (pp_pending p) ?a")
    case None
    with tx show ?thesis
      by (simp add: price_pool_remove_def pend_def price_pool_contains_def bt_contains_key_def)
  next
    case (Some l)
    note rem = user_tx_list_remove_items [OF price_inv_known(1) [OF inv Some], of ?n]
    show ?thesis
    proof (cases "map_of (ul_items l) ?n")
      case None
      with tx Some show ?thesis
        by (auto simp: price_pool_remove_def Let_def rem pend_def price_pool_contains_def bt_contains_key_def)
    next
      case t: (Some t)
      have flt: "map_of (filter (\<lambda>p. ?n < fst p) (ul_items l)) n = (if ?n < n then map_of (ul_items l) n else None)"
        by (rule map_of_filter_key)
      have empty: "map_of (ul_items l) n = None" if "filter (\<lambda>p. ?n < fst p) (ul_items l) = []" "?n < n"
        using flt that by simp
      show ?thesis
        using tx Some t flt empty
        by (auto simp: price_pool_remove_def Let_def rem pend_def price_pool_contains_def bt_contains_key_def
            user_tx_list_len_def sorted_map_len_def not_less not_le)
    qed
  qed
  then show "fst (price_pool_remove A h p) \<longleftrightarrow> pend p ?a ?n \<noteq> None"
    and "pend (snd (price_pool_remove A h p)) b n = (if b = ?a \<and> pend p b ?n \<noteq> None \<and> n \<le> ?n then None else pend p b n)"
    and "price_pool_contains (snd (price_pool_remove A h p)) k \<longleftrightarrow> k \<noteq> h \<and> price_pool_contains p k"
    by blast+
qed


lemma price_pool_push_total: "\<exists>r p'. price_pool_push A tx p = Some (r, p')"
  by (simp add: price_pool_push_eq Let_def)

lemma price_pool_run_push: "price_pool_run A p \<Longrightarrow> price_pool_run A (snd (the (price_pool_push A tx p)))"
  using price_pool_push_total [of A tx p] by (auto intro: price_pool_run.push)

lemma price_list_accounts:
  assumes inv: "price_inv A p" and run: "price_pool_list A fltr b limit p = (result, fltr', p')"
  shows "bt_ok result" and "map_of result a = Some txs \<Longrightarrow> listed_ok A b (pp_pending p) a txs"
    and "length result \<le> max 1 (unat limit)" and "accounts_ok A result"
proof -
  obtain pending' caches' rem' where
    loop: "price_list_loop A b limit (pp_limited_size p) (pp_pending p) [] (pp_caches p) fltr 0 [] =
      (pending', result, caches', fltr', rem')"
    using run by (auto simp: price_pool_list_def split: prod.splits)
  have own: "user_list_ok A a l \<and> map_of (pp_pending p) a = Some l" if "(a, l) \<in> set (pp_pending p)" for a l
  proof -
    have "map_of (pp_pending p) a = Some l" using inv that by (simp add: price_inv_def bt_ok_in_set)
    with price_inv_known(1) [OF inv this] show ?thesis by simp
  qed
  have res: "bt_ok result" "\<And>a txs. map_of result a = Some txs \<Longrightarrow> listed_ok A b (pp_pending p) a txs"
    "length result \<le> max 1 (unat limit)"
    using price_list_loop_result [OF loop own] by auto
  then show "bt_ok result" "map_of result a = Some txs \<Longrightarrow> listed_ok A b (pp_pending p) a txs"
    "length result \<le> max 1 (unat limit)" by blast+
  have mem: "tx_sender A (ptx_tx t) = c \<and> cached (pp_caches p) t" if "(c, l) \<in> set result" and t: "t \<in> set l" for c l t
  proof -
    have "listed_ok A b (pp_pending p) c l" using res(2) that(1) by (simp add: bt_ok_in_set [OF res(1)])
    then obtain m where "tx_sender A (ptx_tx t) = c" and m: "map_of (pp_pending p) c = Some m"
      "map_of (ul_items m) (tx_nonce A (ptx_tx t)) = Some t" using t unfolding listed_ok_def by blast
    then show ?thesis using price_inv_known(3) [OF inv m] by simp
  qed
  have "c = c'" if "(c, l) \<in> set result" "(c', l') \<in> set result" "x \<in> set l" "y \<in> set l'" "ptx_hash x = ptx_hash y"
    for c l c' l' x y
    using mem [OF that(1,3)] mem [OF that(2,4)] cached_same [OF _ _ that(5)] by metis
  then show "accounts_ok A result" using res(1) mem by (fastforce simp: accounts_ok_def)
qed

section \<open>Properties\<close>

text \<open>In every pool the methods can produce, an account has between 1 and 20 pending transactions,
  each pending under its own sender and nonce, and every pending transaction is known to \<open>contains\<close>.\<close>

theorem price_pool_wellformed:
  assumes "price_pool_run A p"
  shows "(\<forall>(a, l) \<in> set (pp_pending p). 1 \<le> user_tx_list_len l \<and> user_tx_list_len l \<le> 20) \<and>
    price_pool_account_len p = length (pp_pending p) \<and>
    (\<forall>a n t. pend p a n = Some t \<longrightarrow>
       tx_sender A (ptx_tx t) = a \<and> tx_nonce A (ptx_tx t) = n \<and> price_pool_contains p (ptx_hash t))"
proof -
  note inv = price_pool_run_inv [OF assms]
  have len: "1 \<le> user_tx_list_len l \<and> user_tx_list_len l \<le> 20" if "(a, l) \<in> set (pp_pending p)" for a l
  proof -
    have "map_of (pp_pending p) a = Some l" using inv that by (simp add: price_inv_def bt_ok_in_set)
    from price_inv_known(1,2) [OF inv this] show ?thesis
      by (auto simp: user_tx_list_len_def sorted_map_len_def user_list_ok_def TXPOOL_USER_MAX_SIZE_def Suc_le_eq)
  qed
  moreover have "filter (\<lambda>item. 0 < user_tx_list_len (snd item)) (pp_pending p) = pp_pending p"
    using len by (fastforce simp: filter_id_conv)
  moreover have "tx_sender A (ptx_tx t) = a \<and> tx_nonce A (ptx_tx t) = n \<and> price_pool_contains p (ptx_hash t)"
    if "pend p a n = Some t" for a n t
    using pend_known [OF inv that] by (simp add: cached_def price_pool_contains_def bt_contains_key_def)
  ultimately show ?thesis by (auto simp: price_pool_account_len_def)
qed

definition demo_price_pool :: "demo_tx price_pool" where
  "demo_price_pool =
     snd (the (price_pool_push demo_api (demo_ptx 7 2 22 9 5)
       (snd (the (price_pool_push demo_api (demo_ptx 8 1 33 9 3)
         (snd (the (price_pool_push demo_api (demo_ptx 7 1 11 9 1) (price_pool_new 100)))))))))"

lemma demo_price_pool_run: "price_pool_run demo_api demo_price_pool"
  unfolding demo_price_pool_def by (intro price_pool_run_push price_pool_run.new)

theorem price_pool_wellformed_witness:
  "map fst (pp_pending demo_price_pool) = [7, 8] \<and>
   price_pool_account_len demo_price_pool = 2 \<and> price_pool_contains demo_price_pool 22"
proof -
  have keys: "map fst (pp_pending demo_price_pool) = [7, 8]"
    and slot: "map_option ptx_hash (pend demo_price_pool 7 2) = Some 22" by code_simp+
  from arg_cong [OF keys, of length] have "length (pp_pending demo_price_pool) = 2" by simp
  moreover obtain t where "pend demo_price_pool 7 2 = Some t" "ptx_hash t = 22" using slot by auto
  ultimately show ?thesis using price_pool_wellformed [OF demo_price_pool_run] keys by metis
qed


text \<open>C7: \<open>push\<close> never panics.  A known hash gives \<open>AlreadyKnowned\<close> and no change.  Otherwise the result is
  \<open>Ok\<close> and the hash is known; a transaction that does not raise both the fee cap and the tip of the pending
  one with its nonce leaves the pending transactions as they are; any other one is put under its nonce,
  and if the account then has more than 20 transactions the one of the largest nonce is dropped.\<close>

theorem price_pool_push_slots:
  assumes "price_pool_run A p"
  shows "if price_pool_contains p (ptx_hash tx) then price_pool_push A tx p = Some (Inl AlreadyKnowned, p)
    else \<exists>p'. price_pool_push A tx p = Some (Inr (ptx_hash tx), p') \<and>
      (\<forall>h. price_pool_contains p' h \<longleftrightarrow> h = ptx_hash tx \<or> price_pool_contains p h) \<and>
      (\<forall>b n. pend p' b n =
         (if b = tx_sender A (ptx_tx tx) \<and> \<not> underpriced A tx p then pushed A tx p n else pend p b n))"
proof (cases "price_pool_contains p (ptx_hash tx)")
  case True
  then show ?thesis by (simp add: price_pool_push_eq)
next
  case False
  obtain r p' where push: "price_pool_push A tx p = Some (r, p')" using price_pool_push_total by blast
  from price_pool_push_pend [OF price_pool_run_inv [OF assms] False push] False push show ?thesis by simp
qed

theorem price_pool_push_slots_witness:
  "\<exists>p'. price_pool_push demo_api (demo_ptx 7 1 44 10 2) demo_price_pool = Some (Inr 44, p') \<and>
     map_option ptx_hash (pend p' 7 1) = Some 44 \<and> price_pool_contains p' 11"
proof -
  let ?tx = "demo_ptx 7 1 44 10 2"
  have new: "\<not> price_pool_contains demo_price_pool (ptx_hash ?tx)" and old: "price_pool_contains demo_price_pool 11"
    by code_simp+
  then obtain p' where push: "price_pool_push demo_api ?tx demo_price_pool = Some (Inr (ptx_hash ?tx), p')"
    and known: "\<forall>h. price_pool_contains p' h \<longleftrightarrow> h = ptx_hash ?tx \<or> price_pool_contains demo_price_pool h"
    using price_pool_push_slots [OF demo_price_pool_run, of ?tx] by auto
  have "map_option ptx_hash (pend (snd (the (price_pool_push demo_api ?tx demo_price_pool))) 7 1) = Some 44"
    by code_simp
  with push known old show ?thesis by (auto simp: demo_ptx_def)
qed

text \<open>C8: \<open>remove\<close> of a known hash forgets the hash.  It returns true exactly if a transaction of its
  sender and nonce is pending, which may be a replacement with another hash; then that one and every
  pending transaction of the sender with a smaller nonce goes, the rest stays.  An unknown hash
  changes nothing.\<close>

theorem price_pool_remove_slots:
  assumes "price_pool_run A p"
  shows "case map_of (pp_caches p) h of
      None \<Rightarrow> price_pool_remove A h p = (False, p)
    | Some tx \<Rightarrow>
        (fst (price_pool_remove A h p) \<longleftrightarrow> pend p (tx_sender A tx) (tx_nonce A tx) \<noteq> None) \<and>
        (\<forall>b n. pend (snd (price_pool_remove A h p)) b n =
           (if b = tx_sender A tx \<and> pend p b (tx_nonce A tx) \<noteq> None \<and> n \<le> tx_nonce A tx then None else pend p b n)) \<and>
        (\<forall>k. price_pool_contains (snd (price_pool_remove A h p)) k \<longleftrightarrow> k \<noteq> h \<and> price_pool_contains p k)"
proof (cases "map_of (pp_caches p) h")
  case None
  then show ?thesis by (simp add: price_pool_remove_def)
next
  case (Some tx)
  with price_pool_remove_pend [OF price_pool_run_inv [OF assms] Some] show ?thesis by simp
qed

theorem price_pool_remove_slots_witness:
  "pend (snd (price_pool_remove demo_api 22 demo_price_pool)) 7 1 = None \<and>
   price_pool_contains (snd (price_pool_remove demo_api 22 demo_price_pool)) 11"
proof -
  have c: "map_option d_nonce (map_of (pp_caches demo_price_pool) 22) = Some 2"
    "map_option d_sender (map_of (pp_caches demo_price_pool) 22) = Some 7" by code_simp+
  have "pend demo_price_pool 7 2 \<noteq> None" "price_pool_contains demo_price_pool 11" by code_simp+
  moreover from c obtain tx where "map_of (pp_caches demo_price_pool) 22 = Some tx" "d_nonce tx = 2" "d_sender tx = 7"
    by auto
  ultimately show ?thesis using price_pool_remove_slots [OF demo_price_pool_run, of 22] by simp
qed


text \<open>C6: \<open>list\<close> returns, for at most \<open>limit\<close> accounts (one if the limit is 0), a nonempty run of
  pending transactions of the account with consecutive nonces, each of which pays the base fee; no
  two accounts share a hash, so the accounts are fit for \<open>TransactionsByPriceAndNonce\<close>.\<close>

theorem price_pool_list_runs:
  assumes "price_pool_run A p" and "price_pool_list A fltr b limit p = (result, fltr', p')"
  shows "accounts_ok A result \<and> length result \<le> max 1 (unat limit) \<and>
    (\<forall>(a, txs) \<in> set result. txs \<noteq> [] \<and>
       successively (\<lambda>x y. unat (tx_nonce A (ptx_tx y)) = Suc (unat (tx_nonce A (ptx_tx x)))) txs \<and>
       (\<forall>t \<in> set txs. tx_effective_gas_tip A (ptx_tx t) b \<noteq> None \<and> pend p a (tx_nonce A (ptx_tx t)) = Some t))"
proof -
  note res = price_list_accounts [OF price_pool_run_inv [OF assms(1)] assms(2)]
  have "txs \<noteq> [] \<and> successively (\<lambda>x y. unat (tx_nonce A (ptx_tx y)) = Suc (unat (tx_nonce A (ptx_tx x)))) txs \<and>
       (\<forall>t \<in> set txs. tx_effective_gas_tip A (ptx_tx t) b \<noteq> None \<and> pend p a (tx_nonce A (ptx_tx t)) = Some t)"
    if "(a, txs) \<in> set result" for a txs
  proof -
    have "listed_ok A b (pp_pending p) a txs" using res(2) that by (simp add: bt_ok_in_set [OF res(1)])
    then show ?thesis by (auto simp: listed_ok_def next_nonce_def [abs_def] pend_def)
  qed
  with res(3,4) show ?thesis by blast
qed

theorem price_pool_list_runs_witness:
  "map (\<lambda>(a, txs). (a, map ptx_hash txs)) (fst (price_pool_list demo_api [] (Some 4) 5 demo_price_pool)) = [(7, [11, 22]), (8, [33])] \<and>
   accounts_ok demo_api (fst (price_pool_list demo_api [] (Some 4) 5 demo_price_pool))"
proof -
  have "map (\<lambda>(a, txs). (a, map ptx_hash txs)) (fst (price_pool_list demo_api [] (Some 4) 5 demo_price_pool)) = [(7, [11, 22]), (8, [33])]"
    by code_simp
  moreover obtain r f q where "price_pool_list demo_api [] (Some 4) 5 demo_price_pool = (r, f, q)" by (metis prod_cases3)
  ultimately show ?thesis using price_pool_list_runs [OF demo_price_pool_run] by fastforce
qed

end
