(* ===== verification/Seq_Pool.thy ===== *)
theory Seq_Pool
  imports Seq_List
begin

text \<open>
  The sequential pool of private transactions: \<open>SeqPool\<close> of \<open>src/common/txpool/src/seq_pool.rs\<close>,
  the \<open>SeqPoolList\<close> behind a mutex with a maximal length.

  \<open>pool_inv\<close> is kept by every method, \<open>seq_pool_run\<close> are the reachable pools, and
  \<open>seq_view\<close> is the abstraction function to the list of transactions on which \<open>spec_push\<close> says what
  \<open>push\<close> does.  The eviction loop is an \<open>evicting_store\<close>.
\<close>

record 'tx seq_pool =
  sp_max :: nat
  sp_list :: "'tx seq_pool_list"

section \<open>\<open>SeqPool\<close>\<close>

definition seq_pool_new :: "nat \<Rightarrow> 'tx seq_pool" where
  "seq_pool_new mx = \<lparr>sp_max = mx, sp_list = seq_list_empty\<rparr>"

definition seq_pool_len :: "'tx seq_pool \<Rightarrow> nat" where
  "seq_pool_len p = length (sl_txs (sp_list p))"

definition seq_pool_swap :: "'tx seq_pool \<Rightarrow> 'tx seq_pool \<Rightarrow> 'tx seq_pool \<times> 'tx seq_pool" where
  "seq_pool_swap p q = (p\<lparr>sp_list := sp_list q\<rparr>, q\<lparr>sp_list := sp_list p\<rparr>)"

definition seq_pool_get :: "'tx seq_pool \<Rightarrow> h256 \<Rightarrow> 'tx pool_tx option" where
  "seq_pool_get p h = (case map_of (sl_txs (sp_list p)) h of None \<Rightarrow> None | Some n \<Rightarrow> Some (ti_tx n))"

definition seq_pool_contains :: "'tx seq_pool \<Rightarrow> h256 \<Rightarrow> bool" where
  "seq_pool_contains p h = bt_contains_key h (sl_txs (sp_list p))"

definition seq_pool_filter :: "'tx tx_api \<Rightarrow> 'tx seq_pool \<Rightarrow> 'tx list \<Rightarrow> 'tx list" where
  "seq_pool_filter A p txs = filter (\<lambda>tx. \<not> seq_pool_contains p (tx_hash A tx)) txs"

definition seq_pool_mark_fail :: "h256 \<Rightarrow> string \<Rightarrow> 'tx seq_pool \<Rightarrow> 'tx seq_pool" where
  "seq_pool_mark_fail h reason p =
     p\<lparr>sp_list := (sp_list p)\<lparr>sl_txs :=
        bt_adjust h (\<lambda>t. t\<lparr>ti_failure_reason := Some reason\<rparr>) (sl_txs (sp_list p))\<rparr>\<rparr>"

definition seq_pool_get_reason :: "'tx seq_pool \<Rightarrow> h256 \<Rightarrow> string option" where
  "seq_pool_get_reason p h =
     (case map_of (sl_txs (sp_list p)) h of Some t \<Rightarrow> ti_failure_reason t | None \<Rightarrow> None)"

definition seq_pool_get_submit_time :: "nat \<Rightarrow> 'tx seq_pool \<Rightarrow> h256 \<Rightarrow> nat option" where
  "seq_pool_get_submit_time now p h =
     (case map_of (sl_txs (sp_list p)) h of Some t \<Rightarrow> Some (now - ti_submit_time t) | None \<Rightarrow> None)"

definition seq_pool_get_submit_to :: "'tx seq_pool \<Rightarrow> h256 \<Rightarrow> u64 list option" where
  "seq_pool_get_submit_to p h =
     (case map_of (sl_txs (sp_list p)) h of Some t \<Rightarrow> Some (ti_submit_to t) | None \<Rightarrow> None)"

definition seq_pool_clear :: "'tx seq_pool \<Rightarrow> 'tx seq_pool" where
  "seq_pool_clear p = p\<lparr>sp_list := (sp_list p)\<lparr>sl_accounts := [], sl_txs := [], sl_order := []\<rparr>\<rparr>"

text \<open>The loop of \<open>push\<close> that evicts while the list is longer than \<open>max\<close>.\<close>

lemma seq_list_pop_shorter:
  "seq_list_pop A l = (r, l') \<Longrightarrow> 0 < seq_list_len l \<Longrightarrow> seq_list_len l' < seq_list_len l"
  by (cases "sl_order l") (auto simp: seq_list_pop_def seq_list_len_def split: option.splits prod.splits)

function seq_pool_evict :: "'tx tx_api \<Rightarrow> nat \<Rightarrow> 'tx seq_pool_list \<Rightarrow> 'tx seq_pool_list" where
  "seq_pool_evict A mx l =
     (if mx < seq_list_len l
      then (case seq_list_pop A l of
              (None, l') \<Rightarrow> l'
            | (Some _, l') \<Rightarrow> seq_pool_evict A mx l')
      else l)"
  by pat_completeness auto
termination
proof (relation "measure (\<lambda>(A, mx, l). seq_list_len l)", goal_cases)
  case 1
  show ?case by simp
next
  case (2 A mx l r l' t)
  then show ?case using seq_list_pop_shorter [of A l] by (metis case_prod_conv in_measure not_less_zero neq0_conv)
qed

declare seq_pool_evict.simps [simp del]

definition seq_pool_push ::
  "'tx tx_api \<Rightarrow> nat \<Rightarrow> 'tx pool_tx \<Rightarrow> 'tx seq_pool \<Rightarrow> (pool_error + h256) \<times> 'tx seq_pool" where
  "seq_pool_push A now tx p =
     (if bt_contains_key (ptx_hash tx) (sl_txs (sp_list p)) then (Inl AlreadyKnowned, p)
      else
        let (hash, l) = seq_list_push A now tx (sp_list p)
        in (Inr hash, p\<lparr>sp_list := seq_pool_evict A (sp_max p) l\<rparr>))"

definition submitted :: "u64 \<Rightarrow> 'tx tx_info \<Rightarrow> 'tx tx_info" where
  "submitted number t =
     (let t = t\<lparr>ti_failure_reason := None\<rparr>
      in if number \<in> set (ti_submit_to t) then t
         else t\<lparr>ti_submit_to := sort (ti_submit_to t @ [number])\<rparr>)"

definition seq_pool_mark_submited :: "u64 \<Rightarrow> h256 list \<Rightarrow> 'tx seq_pool \<Rightarrow> 'tx seq_pool" where
  "seq_pool_mark_submited number hashes p =
     p\<lparr>sp_list := (sp_list p)\<lparr>sl_txs :=
        fold (\<lambda>h. bt_adjust h (submitted number)) hashes (sl_txs (sp_list p))\<rparr>\<rparr>"

definition seq_pool_get_live_time :: "nat \<Rightarrow> 'tx seq_pool \<Rightarrow> h256 \<Rightarrow> nat option" where
  "seq_pool_get_live_time now p h =
     (case map_of (sl_txs (sp_list p)) h of Some n \<Rightarrow> Some (now - ti_submit_time n) | None \<Rightarrow> None)"

definition seq_pool_list_by_seq :: "'tx seq_pool \<Rightarrow> 'tx pool_tx list" where
  "seq_pool_list_by_seq p =
     List.map_filter (\<lambda>(_, hash). map_option ti_tx (map_of (sl_txs (sp_list p)) hash)) (sl_order (sp_list p))"

definition seq_pool_remove :: "h256 \<Rightarrow> 'tx seq_pool \<Rightarrow> bool \<times> 'tx seq_pool" where
  "seq_pool_remove h p = (let (r, l) = seq_list_remove h (sp_list p) in (r, p\<lparr>sp_list := l\<rparr>))"

text \<open>\<open>remove_tx_list\<close> takes the hashes of the given transactions.\<close>

definition seq_pool_remove_tx_list :: "h256 list \<Rightarrow> 'tx seq_pool \<Rightarrow> 'tx seq_pool" where
  "seq_pool_remove_tx_list hashes p =
     p\<lparr>sp_list := fold (\<lambda>h l. snd (seq_list_remove h l)) hashes (sp_list p)\<rparr>"

definition unsubmitted :: "u64 \<Rightarrow> 'tx tx_info \<Rightarrow> 'tx tx_info" where
  "unsubmitted number t = t\<lparr>ti_submit_to := remove_first (\<lambda>n. n = number) (ti_submit_to t)\<rparr>"

definition seq_pool_remove_list :: "u64 \<Rightarrow> h256 list \<Rightarrow> 'tx seq_pool \<Rightarrow> 'tx seq_pool" where
  "seq_pool_remove_list number hashes p =
     (let l = fold (\<lambda>h l. snd (seq_list_remove h l)) hashes (sp_list p)
      in p\<lparr>sp_list := l\<lparr>sl_txs := map (\<lambda>(h, t). (h, unsubmitted number t)) (sl_txs l)\<rparr>\<rparr>)"

section \<open>Every operation keeps the invariant\<close>

definition pool_inv :: "'tx tx_api \<Rightarrow> 'tx seq_pool \<Rightarrow> bool" where
  "pool_inv A p \<longleftrightarrow> seq_inv A (sp_list p) \<and> seq_list_len (sp_list p) \<le> sp_max p"

lemma seq_inv_empty: "seq_inv A (l\<lparr>sl_accounts := [], sl_txs := [], sl_order := []\<rparr>)"
  by (simp add: seq_inv_def seq_inv_parts)

text \<open>A change of the bookkeeping fields of a transaction.\<close>

lemma seq_inv_touch:
  assumes inv: "seq_inv A l" and ok: "bt_ok txs'"
    and touch: "\<And>h. map_of txs' h = map_option (f h) (map_of (sl_txs l) h)"
    and same: "\<And>h t. ti_tx (f h t) = ti_tx t \<and> ti_seq (f h t) = ti_seq t"
  shows "seq_inv A (l\<lparr>sl_txs := txs'\<rparr>)"
proof -
  have ex: "(\<exists>t. map_of txs' h = Some t \<and> P (ti_tx t) (ti_seq t)) \<longleftrightarrow>
      (\<exists>t. map_of (sl_txs l) h = Some t \<and> P (ti_tx t) (ti_seq t))" for h P
    using same by (cases "map_of (sl_txs l) h") (auto simp: touch)
  have old: "\<exists>u. map_of (sl_txs l) h = Some u \<and> ti_tx u = ti_tx t \<and> ti_seq u = ti_seq t"
    if "map_of txs' h = Some t" for h t
    using that same unfolding touch by (auto simp: map_option_eq_Some)
  have "order_agrees (sl_order l) txs'"
    using inv unfolding seq_inv_def order_agrees_def ex [of _ "\<lambda>_ s. s = _"] by simp
  moreover have "txs_filed (sl_seq l) txs'"
    using inv by (fastforce simp: seq_inv_def txs_filed_def dest: old)
  moreover have "nonce_sequenced A txs'"
    unfolding nonce_sequenced_def
  proof (intro allI impI)
    fix h t h' t'
    assume "map_of txs' h = Some t" "map_of txs' h' = Some t'"
      and lt: "ti_caller t = ti_caller t'" "ti_nonce A t < ti_nonce A t'"
    with old obtain u u' where "map_of (sl_txs l) h = Some u" "ti_tx u = ti_tx t" "ti_seq u = ti_seq t"
      and "map_of (sl_txs l) h' = Some u'" "ti_tx u' = ti_tx t'" "ti_seq u' = ti_seq t'" by blast
    with nonce_sequencedD [of A "sl_txs l" h u h' u'] inv lt show "ti_seq t < ti_seq t'"
      by (simp add: seq_inv_def)
  qed
  moreover have "accounts_agree A (sl_accounts l) txs'"
  proof -
    have "map_of (sl_accounts l) (ti_caller t) \<noteq> None" if t: "map_of txs' h = Some t" for h t
      using old [OF t] inv accounts_agree_known [of A "sl_accounts l" "sl_txs l" h] by (auto simp: seq_inv_def)
    then show ?thesis
      using inv
      unfolding seq_inv_def accounts_agree_def ex [of _ "\<lambda>x _. ptx_caller x = _ \<and> tx_nonce A (ptx_tx x) = _"]
      by blast
  qed
  ultimately show ?thesis using inv ok by (simp add: seq_inv_def)
qed


lemma submitted_same: "ti_tx (submitted n t) = ti_tx t \<and> ti_seq (submitted n t) = ti_seq t"
  by (simp add: submitted_def Let_def)

lemma fold_submitted_same:
  "ti_tx (fold (\<lambda>h. if h = k then submitted n else id) hs t) = ti_tx t \<and>
   ti_seq (fold (\<lambda>h. if h = k then submitted n else id) hs t) = ti_seq t"
  by (induction hs arbitrary: t) (auto simp: submitted_same)

lemma seq_list_remove_shorter: "seq_list_len (snd (seq_list_remove h l)) \<le> seq_list_len l"
  by (auto simp: seq_list_remove_def seq_list_len_def bt_remove_def split: option.splits)

lemma fold_remove_inv:
  "seq_inv A l \<Longrightarrow> seq_inv A (fold (\<lambda>h l. snd (seq_list_remove h l)) hs l) \<and>
     seq_list_len (fold (\<lambda>h l. snd (seq_list_remove h l)) hs l) \<le> seq_list_len l"
proof (induction hs arbitrary: l)
  case (Cons h hs)
  from Cons.IH [OF seq_list_remove_inv [OF Cons.prems, of h]] seq_list_remove_shorter [of h l]
  show ?case by auto
qed simp

lemma seq_list_pop_Some:
  assumes "seq_inv A l" and "0 < seq_list_len l"
  shows "\<exists>t l'. seq_list_pop A l = (Some t, l')"
proof -
  obtain s h ord where o: "sl_order l = (s, h) # ord"
    using assms(2) by (cases "sl_order l") (auto simp: seq_list_len_def)
  then have "map_of (sl_order l) s = Some h" by simp
  with assms(1) show ?thesis
    by (auto simp: seq_list_pop_def o seq_inv_def dest!: order_agreesD(2))
qed

text \<open>The eviction loop is the loop of a bounded store.\<close>

interpretation seq_evict:
  evicting_store seq_list_len "\<lambda>l. snd (seq_list_pop A l)" mx "seq_pool_evict A mx" "seq_inv A" for A mx
proof (unfold_locales, goal_cases)
  case (1 l)
  then show ?case using seq_list_pop_shorter [of A l] by (metis gr_zeroI not_less0 prod.collapse)
next
  case (2 l)
  then show ?case by (simp add: seq_list_pop_inv)
next
  case (3 l)
  show ?case
  proof (cases "mx < seq_list_len l")
    case True
    then obtain t l' where "seq_list_pop A l = (Some t, l')" using 3 seq_list_pop_Some [of A l] by auto
    with True show ?thesis by (simp add: seq_pool_evict.simps [of A mx l])
  qed (simp add: seq_pool_evict.simps [of A mx l])
qed

lemma seq_pool_push_inv: "pool_inv A p \<Longrightarrow> pool_inv A (snd (seq_pool_push A now tx p))"
  using seq_list_push_inv [of A "sp_list p" tx now] seq_evict.loop_bounded [of A] seq_evict.loop_invar [of A]
  by (auto simp: pool_inv_def seq_pool_push_def bt_contains_key_def split: prod.splits)

lemma seq_pool_mark_fail_inv: "pool_inv A p \<Longrightarrow> pool_inv A (seq_pool_mark_fail h r p)"
  unfolding pool_inv_def seq_pool_mark_fail_def
  using seq_inv_touch [of A "sp_list p" _ "\<lambda>k t. if k = h then t\<lparr>ti_failure_reason := Some r\<rparr> else t"]
  by (auto simp: seq_list_len_def seq_inv_def option.map_ident)

lemma seq_pool_mark_submited_inv: "pool_inv A p \<Longrightarrow> pool_inv A (seq_pool_mark_submited n hs p)"
  unfolding pool_inv_def seq_pool_mark_submited_def
  using seq_inv_touch [of A "sp_list p" _ "\<lambda>k. fold (\<lambda>h. if h = k then submitted n else id) hs"]
  by (auto simp: seq_list_len_def map_of_fold_adjust fold_submitted_same seq_inv_def)

lemma seq_pool_clear_inv: "pool_inv A p \<Longrightarrow> pool_inv A (seq_pool_clear p)"
  by (simp add: pool_inv_def seq_pool_clear_def seq_inv_empty seq_list_len_def)

lemma seq_pool_remove_inv: "pool_inv A p \<Longrightarrow> pool_inv A (snd (seq_pool_remove h p))"
  using seq_list_remove_inv [of A "sp_list p" h] seq_list_remove_shorter [of h "sp_list p"]
  by (auto simp: pool_inv_def seq_pool_remove_def split: prod.splits)

lemma seq_pool_remove_tx_list_inv: "pool_inv A p \<Longrightarrow> pool_inv A (seq_pool_remove_tx_list hs p)"
  using fold_remove_inv [of A "sp_list p" hs]
  by (auto simp: pool_inv_def seq_pool_remove_tx_list_def)

lemma seq_pool_remove_list_inv:
  assumes "pool_inv A p"
  shows "pool_inv A (seq_pool_remove_list n hs p)"
proof -
  define l where "l = fold (\<lambda>h l. snd (seq_list_remove h l)) hs (sp_list p)"
  have l: "seq_inv A l" "seq_list_len l \<le> sp_max p"
    using fold_remove_inv [of A "sp_list p" hs] assms by (auto simp: l_def pool_inv_def)
  have "seq_inv A (l\<lparr>sl_txs := map (\<lambda>(h, t). (h, unsubmitted n t)) (sl_txs l)\<rparr>)"
    using l(1) by (intro seq_inv_touch [of A l _ "\<lambda>_. unsubmitted n"])
      (auto simp: map_of_map_value seq_inv_def, auto simp: unsubmitted_def)
  with l(2) show ?thesis
    by (simp add: pool_inv_def seq_pool_remove_list_def l_def [symmetric] seq_list_len_def)
qed

lemma seq_pool_new_inv: "pool_inv A (seq_pool_new mx)"
  using seq_inv_empty [of A seq_list_empty]
  by (simp add: pool_inv_def seq_pool_new_def seq_list_empty_def seq_list_len_def)

lemma seq_pool_swap_inv:
  "pool_inv A p \<Longrightarrow> pool_inv A q \<Longrightarrow> sp_max p = sp_max q \<Longrightarrow>
   pool_inv A (fst (seq_pool_swap p q)) \<and> pool_inv A (snd (seq_pool_swap p q))"
  by (simp add: pool_inv_def seq_pool_swap_def)


section \<open>The pool as a list\<close>

text \<open>
  The abstract view of the pool is the list \<open>list_by_seq\<close> returns.  On it, \<open>push\<close> takes out the
  sender's transactions from the pushed nonce on, puts the new transaction and then those of
  larger nonce at the end, and drops from the front what exceeds the maximum.
\<close>

definition spec_push :: "'tx tx_api \<Rightarrow> nat \<Rightarrow> 'tx pool_tx \<Rightarrow> 'tx pool_tx list \<Rightarrow> 'tx pool_tx list" where
  "spec_push A mx tx xs =
     trim_front mx
       (filter (\<lambda>x. \<not> (ptx_caller x = ptx_caller tx \<and> tx_nonce A (ptx_tx tx) \<le> tx_nonce A (ptx_tx x))) xs @
        tx # filter (\<lambda>x. ptx_caller x = ptx_caller tx \<and> tx_nonce A (ptx_tx tx) < tx_nonce A (ptx_tx x)) xs)"

definition tx_at :: "(h256, 'tx tx_info) btree_map \<Rightarrow> h256 \<Rightarrow> 'tx pool_tx" where
  "tx_at txs h = ti_tx (the (map_of txs h))"

definition seq_view :: "'tx seq_pool_list \<Rightarrow> 'tx pool_tx list" where
  "seq_view l = map (tx_at (sl_txs l)) (map snd (sl_order l))"

lemma order_known:
  assumes "bt_ok ord" and "order_agrees ord txs" and "(s, h) \<in> set ord"
  shows "\<exists>t. map_of txs h = Some t \<and> ti_seq t = s"
  using assms order_agreesD(2) by (metis bt_ok_in_set)

lemma list_by_seq_view: "seq_inv A (sp_list p) \<Longrightarrow> seq_pool_list_by_seq p = seq_view (sp_list p)"
  unfolding seq_pool_list_by_seq_def seq_view_def map_map seq_inv_def
  by (rule map_filter_all_Some) (auto simp: tx_at_def dest!: order_known)

lemma order_hashes:
  assumes "bt_ok ord" and "order_agrees ord txs"
  shows "distinct (map snd ord)" and "set (map snd ord) = {h. map_of txs h \<noteq> None}"
proof -
  have "x = y" if "x \<in> set ord" "y \<in> set ord" "snd x = snd y" for x y
    using order_known [OF assms] that by (metis option.inject prod.collapse)
  moreover have "distinct ord" using bt_ok_distinct [OF assms(1)] by (simp add: distinct_map)
  ultimately show "distinct (map snd ord)" by (simp add: distinct_map inj_on_def)
  show "set (map snd ord) = {h. map_of txs h \<noteq> None}"
    using order_known [OF assms] order_agreesD(1) [OF assms(2)] by (force dest: map_of_SomeD)
qed

lemma order_below:
  "bt_ok ord \<Longrightarrow> order_agrees ord txs \<Longrightarrow> txs_filed sq txs \<Longrightarrow> x \<in> set ord \<Longrightarrow> fst x < sq"
  using order_known [of ord txs "fst x" "snd x"] unfolding txs_filed_def by (metis prod.collapse)

lemma remove_seq_hashes:
  assumes "bt_ok ord" and "order_agrees ord txs" and "map_of txs h = Some t"
  shows "map snd (bt_remove (ti_seq t) ord) = filter (\<lambda>k. k \<noteq> h) (map snd ord)"
proof -
  have "fst x \<noteq> ti_seq t \<longleftrightarrow> snd x \<noteq> h" if "x \<in> set ord" for x
    using order_known [OF assms(1,2)] order_agrees_inj [OF assms(2,3)] assms(3) that
    by (metis option.inject prod.collapse)
  then show ?thesis by (simp add: bt_remove_def filter_map comp_def cong: filter_cong)
qed


lemma seq_reorder_hashes:
  assumes "seq_reorder rest acct ord txs sq = (acct', ord', txs', sq')"
    and "order_agrees ord txs" and "txs_filed sq txs" and "bt_ok ord"
    and "distinct (map snd rest)"
  shows "map snd ord' =
    filter (\<lambda>k. k \<notin> snd ` {e \<in> set rest. map_of txs (snd e) \<noteq> None}) (map snd ord) @
    map snd (filter (\<lambda>e. map_of txs (snd e) \<noteq> None) rest)"
  using assms
proof (induction rest acct ord txs sq rule: seq_reorder.induct)
  case (1 acct ord txs sq)
  then show ?case by simp
next
  case (2 n h rest acct ord txs sq)
  show ?case
  proof (cases "map_of txs h")
    case None
    then have "{e \<in> set ((n, h) # rest). map_of txs (snd e) \<noteq> None} = {e \<in> set rest. map_of txs (snd e) \<noteq> None}"
      by auto
    with None 2 show ?thesis by simp
  next
    case (Some t)
    let ?ord = "bt_insert sq h (bt_remove (ti_seq t) ord)" and ?txs = "bt_adjust h (\<lambda>t. t\<lparr>ti_seq := sq\<rparr>) txs"
    have known: "map_of ?txs k \<noteq> None \<longleftrightarrow> map_of txs k \<noteq> None" for k by auto
    have "bt_insert sq h (bt_remove (ti_seq t) ord) = bt_remove (ti_seq t) ord @ [(sq, h)]"
      using order_below [OF "2.prems"(4,2,3)] by (intro bt_insert_end) (auto simp: bt_remove_def)
    then have hs: "map snd ?ord = filter (\<lambda>k. k \<noteq> h) (map snd ord) @ [h]"
      using remove_seq_hashes [OF "2.prems"(4,2) Some] by simp
    have "map snd ord' = filter (\<lambda>k. k \<notin> snd ` {e \<in> set rest. map_of txs (snd e) \<noteq> None}) (map snd ?ord) @
        map snd (filter (\<lambda>e. map_of txs (snd e) \<noteq> None) rest)"
      using "2.IH"(2) [OF Some] "2.prems" Some unfolding known
      by (simp add: order_agrees_reseq txs_filed_reseq)
    moreover have "h \<notin> snd ` {e \<in> set rest. map_of txs (snd e) \<noteq> None}" using "2.prems"(5) by auto
    moreover have "snd ` {e \<in> set ((n, h) # rest). map_of txs (snd e) \<noteq> None} =
        insert h (snd ` {e \<in> set rest. map_of txs (snd e) \<noteq> None})" using Some by force
    ultimately show ?thesis
      using Some unfolding hs by (simp add: conj_commute)
  qed
qed

lemma scan_drop_hashes:
  assumes "scan_drop nonce hi ord txs = (ord', txs')" and "order_agrees ord txs" and "bt_ok ord"
  shows "map snd ord' = filter (\<lambda>k. map_of txs' k \<noteq> None) (map snd ord)"
proof -
  have all: "filter (\<lambda>k. map_of txs k \<noteq> None) (map snd ord) = map snd ord"
    using order_hashes(2) [OF assms(3,2)] by (auto simp: filter_id_conv)
  have "ord' = ord \<and> txs' = txs \<or>
      (\<exists>h t. map_of txs h = Some t \<and> ord' = bt_remove (ti_seq t) ord \<and> txs' = bt_remove h txs)"
    using assms(1) by (cases hi) (auto simp: scan_drop_def split: if_splits option.splits, blast+)
  then consider "ord' = ord" "txs' = txs"
    | h t where "map_of txs h = Some t" "ord' = bt_remove (ti_seq t) ord" "txs' = bt_remove h txs"
    by blast
  then show ?thesis
  proof cases
    case 1
    with all show ?thesis by simp
  next
    case (2 h t)
    have "filter (\<lambda>k. map_of txs' k \<noteq> None) (map snd ord) =
        filter (\<lambda>k. k \<noteq> h) (filter (\<lambda>k. map_of txs k \<noteq> None) (map snd ord))"
      unfolding filter_filter 2 by (rule filter_cong) auto
    then show ?thesis using remove_seq_hashes [OF assms(3,2) 2(1)] by (simp only: all 2)
  qed
qed

lemma order_sorted_by_seq:
  assumes "bt_ok ord" and "order_agrees ord txs"
  shows "sorted_wrt (\<lambda>x y. seq_of txs x < seq_of txs y) (map snd ord)"
proof -
  have "sorted_wrt (\<lambda>x y. fst x < fst y) ord" using assms(1) by (simp add: bt_ok_def sorted_wrt_map)
  moreover have "seq_of txs (snd x) = fst x" if "x \<in> set ord" for x
    using order_known [OF assms, of "fst x" "snd x"] that by (auto simp: seq_of_def)
  ultimately show ?thesis
    unfolding sorted_wrt_map by (auto elim: sorted_wrt_weaken)
qed


text \<open>A sender's entries from the pushed nonce on, and their order in the pool.\<close>

lemma account_later:
  assumes inv: "seq_inv A l"
  shows "map snd (filter (\<lambda>p. nonce < fst p) (account_of c l)) =
    filter (\<lambda>k. \<exists>t. map_of (sl_txs l) k = Some t \<and> ti_caller t = c \<and> nonce < ti_nonce A t)
      (map snd (sl_order l))"
proof (rule sorted_wrt_unique [of "seq_of (sl_txs l)"])
  note acc = account_of_agrees [where c = c, OF inv]
  have parts: "bt_ok (sl_order l)" "order_agrees (sl_order l) (sl_txs l)" "nonce_sequenced A (sl_txs l)"
    using inv by (simp_all add: seq_inv_def)
  let ?R = "\<lambda>x y. seq_of (sl_txs l) x < seq_of (sl_txs l) y"
  have "sorted_wrt (\<lambda>x y. ?R (snd x) (snd y)) (account_of c l)"
    using acc(1)
  proof (rule sorted_wrt_weaken)
    fix x y assume xy: "x \<in> set (account_of c l)" "y \<in> set (account_of c l)" "fst x < fst y"
    from xy(1) acc(2) [of "fst x" "snd x"] obtain t
      where t: "map_of (sl_txs l) (snd x) = Some t" "ti_caller t = c" "ti_nonce A t = fst x" by auto
    from xy(2) acc(2) [of "fst y" "snd y"] obtain u
      where u: "map_of (sl_txs l) (snd y) = Some u" "ti_caller u = c" "ti_nonce A u = fst y" by auto
    from nonce_sequencedD [OF parts(3) t(1) u(1)] t u xy(3)
    show "?R (snd x) (snd y)" by (simp add: seq_of_def)
  qed
  then show "sorted_wrt ?R (map snd (filter (\<lambda>p. nonce < fst p) (account_of c l)))"
    by (simp add: sorted_wrt_map sorted_wrt_filter)
  show "sorted_wrt ?R (filter (\<lambda>k. \<exists>t. map_of (sl_txs l) k = Some t \<and> ti_caller t = c \<and> nonce < ti_nonce A t)
      (map snd (sl_order l)))"
    by (rule sorted_wrt_filter [OF order_sorted_by_seq [OF parts(1,2)]])
  show "set (map snd (filter (\<lambda>p. nonce < fst p) (account_of c l))) =
    set (filter (\<lambda>k. \<exists>t. map_of (sl_txs l) k = Some t \<and> ti_caller t = c \<and> nonce < ti_nonce A t)
      (map snd (sl_order l)))"
  proof (rule set_eqI)
    fix k
    have "k \<in> set (map snd (filter (\<lambda>p. nonce < fst p) (account_of c l))) \<longleftrightarrow>
        (\<exists>n. (n, k) \<in> set (account_of c l) \<and> nonce < n)" by force
    also have "\<dots> \<longleftrightarrow> (\<exists>t. map_of (sl_txs l) k = Some t \<and> ti_caller t = c \<and> nonce < ti_nonce A t)"
      unfolding acc(2) by blast
    finally show "k \<in> set (map snd (filter (\<lambda>p. nonce < fst p) (account_of c l))) \<longleftrightarrow>
      k \<in> set (filter (\<lambda>k. \<exists>t. map_of (sl_txs l) k = Some t \<and> ti_caller t = c \<and> nonce < ti_nonce A t)
        (map snd (sl_order l)))"
      using order_hashes(2) [OF parts(1,2)] by auto
  qed
qed

text \<open>The hashes \<open>push\<close> leaves, in order: what stays in place, the new one, the sender's later ones.\<close>

lemma push_hashes:
  assumes inv: "seq_inv A l" and fresh: "map_of (sl_txs l) h = None"
    and drp: "scan_drop nonce hi (sl_order l) (sl_txs l) = (ord, txs)"
    and hi: "hi = dropWhile (\<lambda>p. fst p < nonce) (account_of c l)"
    and v: "ti_seq v = sl_seq l" "ptx_hash (ti_tx v) = h"
    and run: "seq_reorder hi acct (bt_insert (sl_seq l) h ord) (bt_insert h v txs) (Suc (sl_seq l)) = (acct', ord', txs', sq')"
  defines "later \<equiv> \<lambda>k. \<exists>t. map_of (sl_txs l) k = Some t \<and> ti_caller t = c \<and> nonce < ti_nonce A t"
    and "equal \<equiv> \<lambda>k. \<exists>t. map_of (sl_txs l) k = Some t \<and> ti_caller t = c \<and> ti_nonce A t = nonce"
  shows "map snd ord' = filter (\<lambda>k. \<not> later k \<and> \<not> equal k) (map snd (sl_order l)) @
    h # filter later (map snd (sl_order l))"
proof -
  let ?H = "map snd (sl_order l)" and ?M = "map snd (filter (\<lambda>e. map_of (bt_insert h v txs) (snd e) \<noteq> None) hi)"
  have parts: "bt_ok (sl_order l)" "order_agrees (sl_order l) (sl_txs l)" "bt_ok (sl_txs l)"
    "txs_filed (sl_seq l) (sl_txs l)" using inv by (simp_all add: seq_inv_def)
  have keep: "order_agrees ord txs \<and> txs_filed (sl_seq l) txs \<and> bt_ok ord \<and> bt_ok txs"
    using parts by (intro scan_drop_keeps [OF drp])
  note K = scan_drop_txs [OF inv drp [unfolded hi]]
  have none: "map_of txs h = None" using K [of h] fresh by (cases "map_of txs h") auto
  have hi2: "filter (\<lambda>e. map_of (bt_insert h v txs) (snd e) \<noteq> None) hi =
      filter (\<lambda>e. nonce < fst e) (account_of c l)"
    unfolding hi dropWhile_less_filter [OF account_of_agrees(1) [OF inv]] filter_filter
    using push_known [OF inv fresh drp [unfolded hi]] by (intro filter_cong) auto
  then have M: "?M = filter later ?H"
    using account_later [OF inv] by (simp only: later_def)
  have dist: "distinct (map snd hi)"
    unfolding hi dropWhile_less_filter [OF account_of_agrees(1) [OF inv]]
    by (rule distinct_map_filter [OF account_hashes_distinct [OF inv]])
  have set_M: "snd ` {e \<in> set hi. map_of (bt_insert h v txs) (snd e) \<noteq> None} = set ?M" by auto
  have "map snd ord' = filter (\<lambda>k. k \<notin> set ?M) (map snd (bt_insert (sl_seq l) h ord)) @ ?M"
    using seq_reorder_hashes [OF run, unfolded set_M] keep none v dist
    by (simp add: order_agrees_insert txs_filed_insert)
  also have "map snd (bt_insert (sl_seq l) h ord) = filter (\<lambda>k. map_of txs k \<noteq> None) ?H @ [h]"
    using scan_drop_hashes [OF drp parts(2,1)] keep order_below [of ord txs] by (subst bt_insert_end) auto
  also have "filter (\<lambda>k. map_of txs k \<noteq> None) ?H = filter (\<lambda>k. \<not> equal k) ?H"
  proof (rule filter_cong [OF refl])
    fix k assume "k \<in> set ?H"
    then obtain t where "map_of (sl_txs l) k = Some t" using order_hashes(2) [OF parts(1,2)] by auto
    with K [of k] show "map_of txs k \<noteq> None \<longleftrightarrow> \<not> equal k" unfolding equal_def by (metis not_None_eq option.inject)
  qed
  finally have run: "map snd ord' =
      filter (\<lambda>k. k \<notin> set (filter later ?H)) (filter (\<lambda>k. \<not> equal k) ?H @ [h]) @ filter later ?H"
    unfolding M .
  have "\<not> later h" using fresh by (simp add: later_def)
  then have "filter (\<lambda>k. k \<notin> set (filter later ?H)) (filter (\<lambda>k. \<not> equal k) ?H @ [h]) =
      filter (\<lambda>k. \<not> later k \<and> \<not> equal k) ?H @ [h]"
    unfolding filter_append filter_filter by (auto intro: filter_cong)
  with run show ?thesis by simp
qed

lemma seq_order_known:
  assumes "seq_inv A l" and "k \<in> set (map snd (sl_order l))"
  shows "\<exists>t. map_of (sl_txs l) k = Some t \<and> ptx_hash (ti_tx t) = k"
  using assms order_hashes(2) [of "sl_order l" "sl_txs l"] by (auto simp: seq_inv_def txs_filed_def)

lemma seq_view_hashes:
  assumes "seq_inv A l"
  shows "map ptx_hash (seq_view l) = map snd (sl_order l)"
proof -
  have "ptx_hash (tx_at (sl_txs l) (snd e)) = snd e" if "e \<in> set (sl_order l)" for e
    using seq_order_known [OF assms, of "snd e"] that by (auto simp: tx_at_def)
  then show ?thesis by (simp add: seq_view_def)
qed

lemma seq_list_push_view:
  assumes inv: "seq_inv A l" and fresh: "map_of (sl_txs l) (ptx_hash tx) = None"
  shows "seq_view (snd (seq_list_push A now tx l)) =
    filter (\<lambda>x. \<not> (ptx_caller x = ptx_caller tx \<and> tx_nonce A (ptx_tx tx) \<le> tx_nonce A (ptx_tx x))) (seq_view l) @
    tx # filter (\<lambda>x. ptx_caller x = ptx_caller tx \<and> tx_nonce A (ptx_tx tx) < tx_nonce A (ptx_tx x)) (seq_view l)"
proof (rule seq_list_push_runE [OF assms, of now])
  fix lo hi v ord txs acct' ord' txs' sq' accounts
  let ?nonce = "tx_nonce A (ptx_tx tx)" and ?c = "ptx_caller tx" and ?h = "ptx_hash tx"
  assume hi: "hi = dropWhile (\<lambda>p. fst p < ?nonce) (account_of ?c l)"
    and v: "ti_tx v = tx" "ti_seq v = sl_seq l"
    and drp: "scan_drop ?nonce hi (sl_order l) (sl_txs l) = (ord, txs)"
    and run: "seq_reorder hi (lo @ [(?nonce, ?h)]) (bt_insert (sl_seq l) ?h ord)
      (bt_insert ?h v txs) (Suc (sl_seq l)) = (acct', ord', txs', sq')"
    and eq: "seq_list_push A now tx l =
      (?h, \<lparr>sl_order = ord', sl_txs = txs', sl_accounts = accounts, sl_seq = sq'\<rparr>)"
  let ?H = "map snd (sl_order l)"
  let ?later = "\<lambda>k. \<exists>t. map_of (sl_txs l) k = Some t \<and> ti_caller t = ?c \<and> ?nonce < ti_nonce A t"
  let ?equal = "\<lambda>k. \<exists>t. map_of (sl_txs l) k = Some t \<and> ti_caller t = ?c \<and> ti_nonce A t = ?nonce"
  have "ptx_hash (ti_tx v) = ?h" using v by simp
  note hashes = push_hashes [OF inv fresh drp hi v(2) this run]
  have known: "\<exists>t. map_of (sl_txs l) k = Some t" if "k \<in> set ?H" for k
    using seq_order_known [OF inv that] by blast
  have tx: "tx_at txs' ?h = tx" using seq_reorder_frame [OF run, of ?h] v by (auto simp: tx_at_def)
  have same: "tx_at txs' k = tx_at (sl_txs l) k" if "k \<in> set ?H" "\<not> ?equal k" for k
  proof -
    obtain t where t: "map_of (sl_txs l) k = Some t" using known \<open>k \<in> set ?H\<close> by blast
    then have "map_of txs k = Some t" "k \<noteq> ?h"
      using that fresh scan_drop_txs [OF inv drp [unfolded hi], of k t] by auto
    then show ?thesis using seq_reorder_frame [OF run, of k] t by (auto simp: tx_at_def)
  qed
  have later: "?later k \<longleftrightarrow> ptx_caller (tx_at (sl_txs l) k) = ?c \<and> ?nonce < tx_nonce A (ptx_tx (tx_at (sl_txs l) k))"
    and equal: "?equal k \<longleftrightarrow> ptx_caller (tx_at (sl_txs l) k) = ?c \<and> tx_nonce A (ptx_tx (tx_at (sl_txs l) k)) = ?nonce"
    if "k \<in> set ?H" for k
    using known [OF that] by (auto simp: tx_at_def)
  have m1: "map (tx_at txs') (filter (\<lambda>k. \<not> ?later k \<and> \<not> ?equal k) ?H) =
      map (tx_at (sl_txs l)) (filter (\<lambda>k. \<not> ?later k \<and> \<not> ?equal k) ?H)"
    using same by (intro map_cong) auto
  have f1: "filter (\<lambda>k. \<not> ?later k \<and> \<not> ?equal k) ?H = filter (\<lambda>k. \<not> (ptx_caller (tx_at (sl_txs l) k) = ?c \<and>
      ?nonce \<le> tx_nonce A (ptx_tx (tx_at (sl_txs l) k)))) ?H"
    using later equal by (intro filter_cong) (auto simp: order_le_less)
  have "\<not> ?equal k" if "?later k" for k using that by auto
  then have m2: "map (tx_at txs') (filter ?later ?H) = map (tx_at (sl_txs l)) (filter ?later ?H)"
    by (intro map_cong refl same) (auto simp only: set_filter mem_Collect_eq)
  have f2: "filter ?later ?H = filter (\<lambda>k. ptx_caller (tx_at (sl_txs l) k) = ?c \<and>
      ?nonce < tx_nonce A (ptx_tx (tx_at (sl_txs l) k))) ?H"
    using later by (intro filter_cong) auto
  show ?thesis
    unfolding seq_view_def eq snd_conv seq_pool_list.simps hashes map_append list.map tx m1 m2
      filter_map [of _ "tx_at (sl_txs l)"] comp_def
    by (simp only: f1 f2)
qed

lemma seq_list_drop_view:
  assumes inv: "seq_inv A l" and t: "map_of (sl_txs l) h = Some t"
  shows "map (tx_at (bt_remove h (sl_txs l))) (map snd (bt_remove (ti_seq t) (sl_order l))) =
    filter (\<lambda>x. ptx_hash x \<noteq> h) (seq_view l)"
proof -
  have parts: "bt_ok (sl_order l)" "order_agrees (sl_order l) (sl_txs l)" "txs_filed (sl_seq l) (sl_txs l)"
    using inv by (simp_all add: seq_inv_def)
  have "ptx_hash (tx_at (sl_txs l) k) = k" if "k \<in> set (map snd (sl_order l))" for k
    using seq_order_known [OF inv that] by (auto simp: tx_at_def)
  then have "filter (\<lambda>x. ptx_hash x \<noteq> h) (seq_view l) =
      map (tx_at (sl_txs l)) (filter (\<lambda>k. k \<noteq> h) (map snd (sl_order l)))"
    unfolding seq_view_def filter_map comp_def by (intro map_cong filter_cong refl) auto
  then show ?thesis
    unfolding remove_seq_hashes [OF parts(1,2) t] by (auto simp: tx_at_def)
qed

lemma seq_list_remove_view:
  assumes inv: "seq_inv A l"
  shows "seq_view (snd (seq_list_remove h l)) = filter (\<lambda>x. ptx_hash x \<noteq> h) (seq_view l)"
proof (cases "map_of (sl_txs l) h")
  case (Some t)
  then show ?thesis using seq_list_drop_view [OF inv Some] by (simp add: seq_list_remove_def seq_view_def)
next
  case None
  have "h \<notin> set (map ptx_hash (seq_view l))"
    unfolding seq_view_hashes [OF inv] using seq_order_known [OF inv] None by fastforce
  then have "filter (\<lambda>x. ptx_hash x \<noteq> h) (seq_view l) = seq_view l" by (auto simp: filter_id_conv)
  with None show ?thesis by (simp add: seq_list_remove_def)
qed

lemma seq_list_pop_view:
  assumes inv: "seq_inv A l"
  shows "seq_view (snd (seq_list_pop A l)) = tl (seq_view l)"
proof (cases "sl_order l")
  case Nil
  then show ?thesis by (simp add: seq_list_pop_def seq_view_def)
next
  case (Cons e ord)
  then obtain t where t: "map_of (sl_txs l) (snd e) = Some t" using seq_order_known [OF inv, of "snd e"] by auto
  have "distinct (map snd (sl_order l))" using inv order_hashes(1) by (auto simp: seq_inv_def)
  then have "map (tx_at (bt_remove (snd e) (sl_txs l))) (map snd ord) = map (tx_at (sl_txs l)) (map snd ord)"
    unfolding Cons by (auto simp: tx_at_def image_iff)
  with t show ?thesis by (cases e) (simp add: seq_list_pop_def seq_view_def Cons)
qed

lemma length_seq_view: "length (seq_view l) = seq_list_len l"
  by (simp add: seq_view_def seq_list_len_def)

lemma seq_evict_view:
  assumes "seq_inv A l"
  shows "seq_view (seq_pool_evict A mx l) = trim_front mx (seq_view l)"
  using assms
proof (induction l rule: seq_evict.loop_induct [where mx = mx])
  case (step l)
  then obtain x xs where v: "seq_view l = x # xs" and len: "seq_list_len l = Suc (length xs)"
    using length_seq_view [of l] by (cases "seq_view l") auto
  with step show ?case
    by (simp add: seq_evict.loop_unfold [of A l mx] seq_list_pop_view)
next
  case (stop l)
  then show ?case
    by (simp add: seq_evict.loop_unfold [of A l mx] front.loop_idle length_seq_view)
qed

lemma seq_pool_push_view:
  assumes "seq_inv A (sp_list p)" and "\<not> seq_pool_contains p (ptx_hash tx)"
  shows "seq_view (sp_list (snd (seq_pool_push A now tx p))) = spec_push A (sp_max p) tx (seq_view (sp_list p))"
proof -
  have fresh: "map_of (sl_txs (sp_list p)) (ptx_hash tx) = None"
    using assms(2) by (simp add: seq_pool_contains_def bt_contains_key_def)
  from seq_list_push_inv [OF assms(1) this, of now] seq_list_push_view [OF assms(1) this, of now] fresh
  show ?thesis
    by (auto simp: seq_pool_push_def bt_contains_key_def spec_push_def seq_evict_view split: prod.splits)
qed


section \<open>Reachable pools\<close>

text \<open>The pools that the methods of \<open>SeqPool\<close> can produce from a new one with maximum \<open>mx\<close>.\<close>

inductive seq_pool_run :: "'tx tx_api \<Rightarrow> nat \<Rightarrow> 'tx seq_pool \<Rightarrow> bool" for A mx where
  new: "seq_pool_run A mx (seq_pool_new mx)"
| push: "seq_pool_run A mx p \<Longrightarrow> seq_pool_run A mx (snd (seq_pool_push A now tx p))"
| mark_fail: "seq_pool_run A mx p \<Longrightarrow> seq_pool_run A mx (seq_pool_mark_fail h reason p)"
| mark_submited: "seq_pool_run A mx p \<Longrightarrow> seq_pool_run A mx (seq_pool_mark_submited number hs p)"
| clear: "seq_pool_run A mx p \<Longrightarrow> seq_pool_run A mx (seq_pool_clear p)"
| remove: "seq_pool_run A mx p \<Longrightarrow> seq_pool_run A mx (snd (seq_pool_remove h p))"
| remove_tx_list: "seq_pool_run A mx p \<Longrightarrow> seq_pool_run A mx (seq_pool_remove_tx_list hs p)"
| remove_list: "seq_pool_run A mx p \<Longrightarrow> seq_pool_run A mx (seq_pool_remove_list number hs p)"
| swap: "seq_pool_run A mx p \<Longrightarrow> seq_pool_run A mx q \<Longrightarrow> seq_pool_run A mx (fst (seq_pool_swap p q))"

lemmas seq_pool_ops_inv =
  seq_pool_new_inv seq_pool_push_inv seq_pool_mark_fail_inv seq_pool_mark_submited_inv seq_pool_clear_inv
  seq_pool_remove_inv seq_pool_remove_tx_list_inv seq_pool_remove_list_inv

lemma seq_pool_run_inv: "seq_pool_run A mx p \<Longrightarrow> pool_inv A p \<and> sp_max p = mx"
proof (induction rule: seq_pool_run.induct)
  case (swap p q)
  then show ?case using seq_pool_swap_inv [of A p q] by (simp add: seq_pool_swap_def)
qed (auto simp: seq_pool_ops_inv,
  auto simp: seq_pool_new_def seq_pool_push_def seq_pool_mark_fail_def seq_pool_mark_submited_def seq_pool_clear_def
    seq_pool_remove_def seq_pool_remove_tx_list_def seq_pool_remove_list_def Let_def split: prod.splits)

lemma pool_inv_list: "pool_inv A p \<Longrightarrow> seq_inv A (sp_list p)"
  by (simp add: pool_inv_def)

lemma seq_inv_length:
  assumes "seq_inv A l"
  shows "length (sl_txs l) = seq_list_len l"
proof -
  have parts: "bt_ok (sl_order l)" "order_agrees (sl_order l) (sl_txs l)" "bt_ok (sl_txs l)"
    using assms by (simp_all add: seq_inv_def)
  have "set (map snd (sl_order l)) = set (map fst (sl_txs l))"
    unfolding order_hashes(2) [OF parts(1,2)] by (auto simp: dom_map_of_conv_image_fst [symmetric])
  then have "length (map snd (sl_order l)) = length (map fst (sl_txs l))"
    using order_hashes(1) [OF parts(1,2)] bt_ok_distinct [OF parts(3)] by (metis distinct_card)
  then show ?thesis by (simp add: seq_list_len_def)
qed

lemma sorted_fst_unique:
  "sorted_wrt (\<lambda>x y. fst x < fst y) (xs :: ('a::linorder \<times> 'b) list) \<Longrightarrow> (n, h) \<in> set xs \<Longrightarrow> (n, k) \<in> set xs \<Longrightarrow> h = k"
  by (induction xs) auto

lemma seq_view_nonces:
  assumes inv: "seq_inv A l"
  shows "sorted_wrt (\<lambda>x y. ptx_caller x = ptx_caller y \<longrightarrow> tx_nonce A (ptx_tx x) < tx_nonce A (ptx_tx y)) (seq_view l)"
proof -
  have parts: "bt_ok (sl_order l)" "order_agrees (sl_order l) (sl_txs l)" "nonce_sequenced A (sl_txs l)"
    using inv by (simp_all add: seq_inv_def)
  show ?thesis
    unfolding seq_view_def sorted_wrt_map [of _ "tx_at (sl_txs l)"]
  proof (rule sorted_wrt_weaken [OF order_sorted_by_seq [OF parts(1,2)]])
    fix h k
    assume "h \<in> set (map snd (sl_order l))" "k \<in> set (map snd (sl_order l))"
      and lt: "seq_of (sl_txs l) h < seq_of (sl_txs l) k"
    then obtain t u where t: "map_of (sl_txs l) h = Some t" and u: "map_of (sl_txs l) k = Some u"
      using seq_order_known [OF inv] by blast
    have "ti_nonce A t < ti_nonce A u" if c: "ti_caller t = ti_caller u"
    proof (rule ccontr)
      assume "\<not> ti_nonce A t < ti_nonce A u"
      then consider "ti_nonce A u < ti_nonce A t" | "ti_nonce A t = ti_nonce A u" by force
      then show False
      proof cases
        case 1
        with nonce_sequencedD [OF parts(3) u t] c lt show False by (simp add: seq_of_def t u)
      next
        case 2
        then have "(ti_nonce A u, h) \<in> set (account_of (ti_caller u) l)"
          "(ti_nonce A u, k) \<in> set (account_of (ti_caller u) l)"
          using account_of_agrees(2) [OF inv] t u c by auto
        with account_of_agrees(1) [OF inv, of "ti_caller u"] have "h = k"
          by (metis sorted_fst_unique)
        with lt show False by simp
      qed
    qed
    then show "ptx_caller (tx_at (sl_txs l) h) = ptx_caller (tx_at (sl_txs l) k) \<longrightarrow>
       tx_nonce A (ptx_tx (tx_at (sl_txs l) h)) < tx_nonce A (ptx_tx (tx_at (sl_txs l) k))"
      by (simp add: tx_at_def t u)
  qed
qed


lemma seq_run_view:
  assumes "seq_pool_run A mx p"
  shows "seq_pool_list_by_seq p = seq_view (sp_list p)" "seq_inv A (sp_list p)" "sp_max p = mx"
  using seq_pool_run_inv [OF assms] list_by_seq_view [of A p] by (simp_all add: pool_inv_def)

lemma find_distinct_hash:
  "distinct (map f xs) \<Longrightarrow> x \<in> set xs \<Longrightarrow> find (\<lambda>y. f y = f x) xs = Some x"
  by (induction xs) auto

lemma seq_get_view:
  assumes inv: "seq_inv A (sp_list p)"
  shows "seq_pool_get p h = find (\<lambda>x. ptx_hash x = h) (seq_view (sp_list p))"
proof -
  let ?l = "sp_list p"
  have parts: "bt_ok (sl_order ?l)" "order_agrees (sl_order ?l) (sl_txs ?l)" using inv by (simp_all add: seq_inv_def)
  note hs = seq_view_hashes [OF inv]
  show ?thesis
  proof (cases "map_of (sl_txs ?l) h")
    case None
    then have "h \<notin> set (map ptx_hash (seq_view ?l))" unfolding hs using order_hashes(2) [OF parts] by auto
    then have "find (\<lambda>x. ptx_hash x = h) (seq_view ?l) = None" by (auto simp: find_None_iff)
    with None show ?thesis by (simp add: seq_pool_get_def)
  next
    case (Some t)
    then have "h \<in> set (map snd (sl_order ?l))" using order_hashes(2) [OF parts] by auto
    then have mem: "ti_tx t \<in> set (seq_view ?l)" unfolding seq_view_def set_map [of "tx_at (sl_txs ?l)"]
      by (rule rev_image_eqI) (simp add: tx_at_def Some)
    have "ptx_hash (ti_tx t) = h" using inv Some by (simp add: seq_inv_def txs_filed_def)
    with find_distinct_hash [OF _ mem, of ptx_hash] order_hashes(1) [OF parts] Some show ?thesis
      by (simp add: hs seq_pool_get_def)
  qed
qed

lemma seq_contains_view:
  assumes "seq_inv A (sp_list p)"
  shows "seq_pool_contains p h \<longleftrightarrow> h \<in> ptx_hash ` set (seq_view (sp_list p))"
proof -
  have "seq_pool_contains p h \<longleftrightarrow> seq_pool_get p h \<noteq> None"
    by (auto simp: seq_pool_contains_def bt_contains_key_def seq_pool_get_def split: option.splits)
  then show ?thesis unfolding seq_get_view [OF assms] by (auto simp: find_None_iff)
qed

lemma fold_remove_view:
  "seq_inv A l \<Longrightarrow> seq_view (fold (\<lambda>h l. snd (seq_list_remove h l)) hs l) = filter (\<lambda>x. ptx_hash x \<notin> set hs) (seq_view l)"
proof (induction hs arbitrary: l)
  case (Cons h hs)
  then show ?case
    by (simp add: seq_list_remove_inv seq_list_remove_view)
qed simp

text \<open>What is listed depends on the transactions only, not on their bookkeeping fields.\<close>

lemma list_by_seq_touch:
  "(\<And>k. map_option ti_tx (map_of txs' k) = map_option ti_tx (map_of (sl_txs l) k)) \<Longrightarrow>
   seq_pool_list_by_seq (p\<lparr>sp_list := l\<lparr>sl_txs := txs'\<rparr>\<rparr>) = seq_pool_list_by_seq (p\<lparr>sp_list := l\<rparr>)"
  by (simp add: seq_pool_list_by_seq_def)

section \<open>Properties\<close>

text \<open>C1: In every pool the methods can produce, the number of transactions is at most the maximum,
  \<open>list_by_seq\<close> lists every transaction exactly once and agrees with \<open>get\<close>, and it lists the
  transactions of a sender by strictly increasing nonce, so that executing the list in order never
  meets a sender's nonces out of order.\<close>

theorem seq_pool_ordered:
  assumes "seq_pool_run A mx p"
  shows "seq_pool_len p \<le> mx \<and> length (seq_pool_list_by_seq p) = seq_pool_len p \<and>
    distinct (map ptx_hash (seq_pool_list_by_seq p)) \<and>
    (\<forall>h. seq_pool_get p h = find (\<lambda>x. ptx_hash x = h) (seq_pool_list_by_seq p)) \<and>
    sorted_wrt (\<lambda>x y. ptx_caller x = ptx_caller y \<longrightarrow> tx_nonce A (ptx_tx x) < tx_nonce A (ptx_tx y))
      (seq_pool_list_by_seq p)"
proof -
  note view = seq_run_view [OF assms]
  have "seq_pool_len p = seq_list_len (sp_list p)" by (simp add: seq_pool_len_def seq_inv_length [OF view(2)])
  moreover have "seq_list_len (sp_list p) \<le> mx" using seq_pool_run_inv [OF assms] by (auto simp: pool_inv_def)
  moreover have "distinct (map snd (sl_order (sp_list p)))"
    using view(2) order_hashes(1) by (auto simp: seq_inv_def)
  ultimately show ?thesis
    using seq_view_nonces [OF view(2)] seq_get_view [OF view(2)]
    by (simp add: view(1) length_seq_view seq_view_hashes [OF view(2)])
qed


definition demo_seq_pool :: "demo_tx seq_pool" where
  "demo_seq_pool =
     snd (seq_pool_push demo_api 3 (demo_ptx 7 1 11 9 1)
       (snd (seq_pool_push demo_api 2 (demo_ptx 8 1 33 9 1)
         (snd (seq_pool_push demo_api 1 (demo_ptx 7 2 22 9 1) (seq_pool_new 2))))))"

lemma demo_seq_pool_run: "seq_pool_run demo_api 2 demo_seq_pool"
  unfolding demo_seq_pool_def by (intro seq_pool_run.intros)

lemma demo_seq_pool_list:
  "map ptx_hash (seq_pool_list_by_seq demo_seq_pool) = [11, 22]"
  by code_simp

theorem seq_pool_ordered_witness:
  "map ptx_hash (seq_pool_list_by_seq demo_seq_pool) = [11, 22] \<and> seq_pool_len demo_seq_pool \<le> 2"
  using seq_pool_ordered [OF demo_seq_pool_run] demo_seq_pool_list by simp

text \<open>C2: \<open>push\<close> of a hash the pool holds returns \<open>AlreadyKnowned\<close> and changes nothing.
  Otherwise it returns the hash and implements \<open>spec_push\<close> on the listed transactions: the
  sender's transaction of the same nonce is replaced, his transactions of larger nonce move behind
  the new one, everything else keeps its place, and the oldest transactions beyond the maximum are
  dropped.\<close>

theorem seq_pool_push_refines:
  assumes "seq_pool_run A mx p"
  shows "if seq_pool_contains p (ptx_hash tx) then seq_pool_push A now tx p = (Inl AlreadyKnowned, p)
    else fst (seq_pool_push A now tx p) = Inr (ptx_hash tx) \<and>
      seq_pool_list_by_seq (snd (seq_pool_push A now tx p)) = spec_push A mx tx (seq_pool_list_by_seq p)"
proof (cases "seq_pool_contains p (ptx_hash tx)")
  case True
  then show ?thesis by (simp add: seq_pool_push_def seq_pool_contains_def)
next
  case False
  note view = seq_run_view [OF assms]
  have fresh: "map_of (sl_txs (sp_list p)) (ptx_hash tx) = None"
    using False by (simp add: seq_pool_contains_def bt_contains_key_def)
  have "fst (seq_list_push A now tx (sp_list p)) = ptx_hash tx"
    by (rule seq_list_push_runE [OF view(2) fresh, of now]) simp
  then have "fst (seq_pool_push A now tx p) = Inr (ptx_hash tx)"
    using fresh by (auto simp: seq_pool_push_def bt_contains_key_def split: prod.splits)
  then show ?thesis
    using False seq_pool_push_view [OF view(2) False, of now] view(1,3) seq_run_view(1) [OF seq_pool_run.push [OF assms]]
    by simp
qed

theorem seq_pool_push_refines_witness:
  "seq_pool_list_by_seq (snd (seq_pool_push demo_api 9 (demo_ptx 7 2 44 9 1) demo_seq_pool)) =
     spec_push demo_api 2 (demo_ptx 7 2 44 9 1) (seq_pool_list_by_seq demo_seq_pool) \<and>
   seq_pool_push demo_api 9 (demo_ptx 7 2 22 9 1) demo_seq_pool = (Inl AlreadyKnowned, demo_seq_pool)"
proof -
  have "\<not> seq_pool_contains demo_seq_pool (ptx_hash (demo_ptx 7 2 44 9 1))"
    "seq_pool_contains demo_seq_pool (ptx_hash (demo_ptx 7 2 22 9 1))"
    by code_simp+
  then show ?thesis
    using seq_pool_push_refines [OF demo_seq_pool_run, of "demo_ptx 7 2 44 9 1" 9]
      seq_pool_push_refines [OF demo_seq_pool_run, of "demo_ptx 7 2 22 9 1" 9]
    by simp
qed

text \<open>C3: A transaction that \<open>push\<close> accepts is in the pool afterwards exactly if fewer than \<open>max\<close>
  transactions of the same sender and larger nonce are there: those are moved behind it, and the
  bound on the pool evicts from the front.\<close>

theorem seq_pool_push_kept:
  assumes "seq_pool_run A mx p" and "\<not> seq_pool_contains p (ptx_hash tx)"
  shows "seq_pool_contains (snd (seq_pool_push A now tx p)) (ptx_hash tx) \<longleftrightarrow>
    length (filter (\<lambda>x. ptx_caller x = ptx_caller tx \<and> tx_nonce A (ptx_tx tx) < tx_nonce A (ptx_tx x))
      (seq_pool_list_by_seq p)) < mx"
proof -
  let ?p = "snd (seq_pool_push A now tx p)"
  let ?stay = "filter (\<lambda>x. \<not> (ptx_caller x = ptx_caller tx \<and> tx_nonce A (ptx_tx tx) \<le> tx_nonce A (ptx_tx x))) (seq_view (sp_list p))"
  let ?later = "filter (\<lambda>x. ptx_caller x = ptx_caller tx \<and> tx_nonce A (ptx_tx tx) < tx_nonce A (ptx_tx x)) (seq_view (sp_list p))"
  note view = seq_run_view [OF assms(1)]
  have new: "ptx_hash tx \<notin> ptx_hash ` set (seq_view (sp_list p))"
    using assms(2) by (simp add: seq_contains_view [OF view(2)])
  then have later: "ptx_hash tx \<notin> ptx_hash ` set (drop n ?later)" for n by (auto dest: in_set_dropD)
  have "seq_view (sp_list ?p) = drop (length ?stay + Suc (length ?later) - mx) (?stay @ tx # ?later)"
    unfolding seq_pool_push_view [OF view(2) assms(2)] view(3) spec_push_def trim_front_drop by simp
  also have "\<dots> = (if length ?later < mx then drop (length ?stay + Suc (length ?later) - mx) ?stay @ tx # ?later
       else drop (length ?later - mx) ?later)"
    by (auto simp: drop_Cons' not_less Suc_diff_le)
  finally have "ptx_hash tx \<in> ptx_hash ` set (seq_view (sp_list ?p)) \<longleftrightarrow> length ?later < mx"
    using later by simp
  then show ?thesis
    by (simp add: view(1) seq_contains_view [OF seq_run_view(2) [OF seq_pool_run.push [OF assms(1)]]])
qed

theorem seq_pool_push_kept_witness:
  "\<not> seq_pool_contains (snd (seq_pool_push demo_api 9 (demo_ptx 7 0 44 9 1) demo_seq_pool)) 44 \<and>
   seq_pool_contains (snd (seq_pool_push demo_api 9 (demo_ptx 7 3 44 9 1) demo_seq_pool)) 44"
proof -
  have "\<not> seq_pool_contains demo_seq_pool (ptx_hash (demo_ptx 7 0 44 9 1))"
    "\<not> seq_pool_contains demo_seq_pool (ptx_hash (demo_ptx 7 3 44 9 1))"
    by code_simp+
  moreover have
    "length (filter (\<lambda>x. ptx_caller x = 7 \<and> (0::u64) < d_nonce (ptx_tx x)) (seq_pool_list_by_seq demo_seq_pool)) = 2"
    "length (filter (\<lambda>x. ptx_caller x = 7 \<and> (3::u64) < d_nonce (ptx_tx x)) (seq_pool_list_by_seq demo_seq_pool)) = 0"
    by code_simp+
  ultimately show ?thesis
    using seq_pool_push_kept [OF demo_seq_pool_run, of "demo_ptx 7 0 44 9 1" 9]
      seq_pool_push_kept [OF demo_seq_pool_run, of "demo_ptx 7 3 44 9 1" 9]
    by (simp add: demo_ptx_def)
qed

text \<open>The removals take out exactly the transactions of the given hashes and keep the order of
  the rest; \<open>remove\<close> says whether there was one; marking a failure or a submission does not
  change what is listed.\<close>

theorem seq_pool_removals:
  assumes "seq_pool_run A mx p"
  shows "seq_pool_list_by_seq (snd (seq_pool_remove h p)) = filter (\<lambda>x. ptx_hash x \<noteq> h) (seq_pool_list_by_seq p) \<and>
    fst (seq_pool_remove h p) = seq_pool_contains p h \<and>
    seq_pool_list_by_seq (seq_pool_remove_list number hs p) =
      filter (\<lambda>x. ptx_hash x \<notin> set hs) (seq_pool_list_by_seq p) \<and>
    seq_pool_list_by_seq (seq_pool_remove_tx_list hs p) =
      filter (\<lambda>x. ptx_hash x \<notin> set hs) (seq_pool_list_by_seq p) \<and>
    seq_pool_list_by_seq (seq_pool_mark_fail h reason p) = seq_pool_list_by_seq p \<and>
    seq_pool_list_by_seq (seq_pool_mark_submited number hs p) = seq_pool_list_by_seq p"
proof (intro conjI)
  note view = seq_run_view [OF assms]
  let ?R = "fold (\<lambda>h l. snd (seq_list_remove h l)) hs (sp_list p)"
  have "snd (seq_pool_remove h p) = p\<lparr>sp_list := snd (seq_list_remove h (sp_list p))\<rparr>"
    by (simp add: seq_pool_remove_def split: prod.splits)
  then show "seq_pool_list_by_seq (snd (seq_pool_remove h p)) = filter (\<lambda>x. ptx_hash x \<noteq> h) (seq_pool_list_by_seq p)"
    using list_by_seq_view [of A "p\<lparr>sp_list := snd (seq_list_remove h (sp_list p))\<rparr>"] view
    by (simp add: seq_list_remove_inv seq_list_remove_view)
  show "fst (seq_pool_remove h p) = seq_pool_contains p h"
    by (auto simp: seq_pool_remove_def seq_list_remove_def seq_pool_contains_def bt_contains_key_def
        split: option.splits prod.splits)
  have "seq_pool_list_by_seq (p\<lparr>sp_list := ?R\<rparr>) = filter (\<lambda>x. ptx_hash x \<notin> set hs) (seq_pool_list_by_seq p)"
    using list_by_seq_view [of A "p\<lparr>sp_list := ?R\<rparr>"] fold_remove_inv [OF view(2)] view
    by (simp add: fold_remove_view)
  moreover have "map_option ti_tx (map_of (map (\<lambda>(h, t). (h, unsubmitted number t)) m) k) = map_option ti_tx (map_of m k)"
    for m k
    by (simp add: map_of_map_value option.map_comp comp_def unsubmitted_def)
  note list_by_seq_touch [OF this, of ?R p]
  ultimately show "seq_pool_list_by_seq (seq_pool_remove_list number hs p) =
      filter (\<lambda>x. ptx_hash x \<notin> set hs) (seq_pool_list_by_seq p)"
    and "seq_pool_list_by_seq (seq_pool_remove_tx_list hs p) =
      filter (\<lambda>x. ptx_hash x \<notin> set hs) (seq_pool_list_by_seq p)"
    by (simp_all add: seq_pool_remove_list_def seq_pool_remove_tx_list_def Let_def)
  show "seq_pool_list_by_seq (seq_pool_mark_fail h reason p) = seq_pool_list_by_seq p"
    and "seq_pool_list_by_seq (seq_pool_mark_submited number hs p) = seq_pool_list_by_seq p"
    using list_by_seq_touch [of _ "sp_list p" p]
    by (simp_all add: seq_pool_mark_fail_def seq_pool_mark_submited_def option.map_comp comp_def
        map_of_fold_adjust fold_submitted_same)
qed

theorem seq_pool_removals_witness:
  "map ptx_hash (seq_pool_list_by_seq (snd (seq_pool_remove 11 demo_seq_pool))) = [22] \<and>
   fst (seq_pool_remove 11 demo_seq_pool)"
  using seq_pool_removals [OF demo_seq_pool_run, of 11] demo_seq_pool_list
  by (auto simp: seq_contains_view [OF seq_run_view(2) [OF demo_seq_pool_run]] seq_run_view(1) [OF demo_seq_pool_run])

end
