(* ===== verification/Bundle_Pool.thy ===== *)
theory Bundle_Pool
  imports Price_Pool Seq_Pool "HOL-Library.Char_ord" "HOL-Library.List_Lexorder"
begin

text \<open>
  The pool of bundles, \<open>src/common/txpool/src/bundle.rs\<close>; the translation of a bundle request,
  \<open>SendBundleRequest::to_bundle\<close> of \<open>src/common/txpool/src/types.rs\<close>; and the three pools together,
  \<open>src/common/txpool/src/txpool.rs\<close>.

  The hash of a bundle, the decoding of a transaction, \<open>PoolTx::with_tx\<close> and the text of hashes and
  durations come from crates that are not part of the repository: they are arguments.  The log
  messages are left out.
\<close>

record bundle_stat =
  bs_hash :: h256
  bs_block_number :: u64
  bs_status :: string
  bs_num_txs :: nat
  bs_process_time :: u64

record 'tx bundle_pool_list =
  bl_uuid :: "(string, 'tx eth_bundle) btree_map"
  bl_history :: "bundle_stat list"

text \<open>What the sources use of \<open>Bundle\<close> and of the formatting of hashes.\<close>

record 'tx bundle_api =
  bundle_hash :: "'tx eth_bundle \<Rightarrow> h256"
  show_hash :: "h256 \<Rightarrow> string"

definition bundle_pool_new :: "'tx bundle_pool_list" where
  "bundle_pool_new = \<lparr>bl_uuid = [], bl_history = []\<rparr>"

definition bundle_pool_len :: "'tx bundle_pool_list \<Rightarrow> nat" where
  "bundle_pool_len l = length (bl_uuid l)"

text \<open>\<open>get_stat\<close> returns a reference into the history: the index, and the list that holds it.\<close>

definition get_stat :: "'tx bundle_api \<Rightarrow> 'tx eth_bundle \<Rightarrow> 'tx bundle_pool_list \<Rightarrow> nat \<times> 'tx bundle_pool_list" where
  "get_stat B bundle l =
     (let hash = bundle_hash B bundle
      in case position (\<lambda>stat. bs_hash stat = hash) (bl_history l) of
           Some idx \<Rightarrow> (idx, l)
         | None \<Rightarrow>
             (0, l\<lparr>bl_history := take 100
                (\<lparr>bs_hash = hash, bs_block_number = b_block_number bundle, bs_status = ''unknown'',
                  bs_num_txs = length (b_txs bundle), bs_process_time = 0\<rparr> # bl_history l)\<rparr>))"

text \<open>An assignment through the reference.\<close>

definition update_stat ::
  "'tx bundle_api \<Rightarrow> 'tx eth_bundle \<Rightarrow> (bundle_stat \<Rightarrow> bundle_stat) \<Rightarrow> 'tx bundle_pool_list \<Rightarrow> 'tx bundle_pool_list" where
  "update_stat B bundle f l =
     (let (idx, l) = get_stat B bundle l
      in l\<lparr>bl_history := (bl_history l)[idx := f (bl_history l ! idx)]\<rparr>)"

definition bundle_pool_add ::
  "'tx bundle_api \<Rightarrow> 'tx eth_bundle \<Rightarrow> string \<Rightarrow> 'tx bundle_pool_list \<Rightarrow> string \<times> 'tx bundle_pool_list" where
  "bundle_pool_add B bundle dur l =
     (let old = map_of (bl_uuid l) (b_uuid bundle);
          l = l\<lparr>bl_uuid := bt_insert (b_uuid bundle) bundle (bl_uuid l)\<rparr>;
          l = (case old of
                 Some old \<Rightarrow>
                   update_stat B old
                     (\<lambda>stat. if bs_status stat \<noteq> ''submitted''
                              then stat\<lparr>bs_status := ''replaced by '' @ show_hash B (bundle_hash B bundle)\<rparr>
                              else stat) l
               | None \<Rightarrow> l);
          l = update_stat B bundle (\<lambda>stat. stat\<lparr>bs_status := ''pending: '' @ dur\<rparr>) l
      in (b_uuid bundle, l))"

definition bundle_pool_get :: "string \<Rightarrow> 'tx bundle_pool_list \<Rightarrow> 'tx eth_bundle option" where
  "bundle_pool_get uuid l = map_of (bl_uuid l) uuid"

definition bundle_pool_set_history ::
  "'tx bundle_api \<Rightarrow> u64 \<Rightarrow> 'tx eth_bundle \<Rightarrow> string \<Rightarrow> 'tx bundle_pool_list \<Rightarrow> 'tx bundle_pool_list" where
  "bundle_pool_set_history B now bundle status l =
     update_stat B bundle (\<lambda>stat. stat\<lparr>bs_status := status, bs_process_time := now\<rparr>) l"

definition bundle_pool_stat :: "(bundle_stat list \<Rightarrow> 'e) \<Rightarrow> 'tx bundle_pool_list \<Rightarrow> 'e" where
  "bundle_pool_stat f l = f (bl_history l)"

text \<open>The two conditions of the loop of \<open>list\<close>.\<close>

definition bundle_expired :: "u64 \<Rightarrow> u64 \<Rightarrow> 'tx eth_bundle \<Rightarrow> bool" where
  "bundle_expired block_number block_timestamp bundle \<longleftrightarrow>
     b_block_number bundle < block_number \<or>
     (case b_max_timestamp bundle of None \<Rightarrow> - 1 | Some t \<Rightarrow> t) < block_timestamp"

definition bundle_early :: "u64 \<Rightarrow> u64 \<Rightarrow> 'tx eth_bundle \<Rightarrow> bool" where
  "bundle_early block_number block_timestamp bundle \<longleftrightarrow>
     block_number < b_block_number bundle \<or>
     block_timestamp < (case b_min_timestamp bundle of None \<Rightarrow> 0 | Some t \<Rightarrow> t)"

fun bundle_scan ::
  "u64 \<Rightarrow> u64 \<Rightarrow> (string, 'tx eth_bundle) btree_map \<Rightarrow> 'tx eth_bundle list \<times> string list" where
  "bundle_scan block_number block_timestamp [] = ([], [])"
| "bundle_scan block_number block_timestamp ((uuid, bundle) # rest) =
     (let (out, removed) = bundle_scan block_number block_timestamp rest
      in if bundle_expired block_number block_timestamp bundle then (out, uuid # removed)
         else if bundle_early block_number block_timestamp bundle then (out, removed)
         else (bundle # out, removed))"

definition bundle_expire :: "'tx bundle_api \<Rightarrow> string \<Rightarrow> 'tx bundle_pool_list \<Rightarrow> 'tx bundle_pool_list" where
  "bundle_expire B uuid l =
     (case map_of (bl_uuid l) uuid of
        Some item \<Rightarrow>
          update_stat B item (\<lambda>stat. stat\<lparr>bs_status := ''expired''\<rparr>) (l\<lparr>bl_uuid := bt_remove uuid (bl_uuid l)\<rparr>)
      | None \<Rightarrow> l)"

definition bundle_pool_list_bundles ::
  "'tx bundle_api \<Rightarrow> u64 \<Rightarrow> u64 \<Rightarrow> 'tx bundle_pool_list \<Rightarrow> 'tx eth_bundle list \<times> 'tx bundle_pool_list" where
  "bundle_pool_list_bundles B block_number block_timestamp l =
     (let (out, removed) = bundle_scan block_number block_timestamp (bl_uuid l)
      in (out, fold (bundle_expire B) removed l))"

section \<open>Bundle requests\<close>

record send_bundle_request =
  sb_txs :: "u8 list list"
  sb_block_number :: u64
  sb_min_timestamp :: "u64 option"
  sb_max_timestamp :: "u64 option"
  sb_reverting_tx_hashes :: "h256 list option"
  sb_uuid :: "string option"
  sb_replacement_uuid :: "string option"
  sb_refund_percent :: "u64 option"
  sb_refund_recipient :: "h160 option"

text \<open>\<open>TransactionInner::from_bytes\<close> and \<open>PoolTx::with_tx\<close>.\<close>

record 'tx tx_codec =
  from_bytes :: "u8 list \<Rightarrow> string + 'tx"
  with_tx :: "'tx \<Rightarrow> 'tx pool_tx"

text \<open>The loop over the raw transactions: the first decoding error is returned.\<close>

fun bundle_txs :: "'tx tx_api \<Rightarrow> 'tx tx_codec \<Rightarrow> h256 list \<Rightarrow> u8 list list \<Rightarrow> string + 'tx pool_tx list" where
  "bundle_txs A C reverting [] = Inr []"
| "bundle_txs A C reverting (raw # raws) =
     (case from_bytes C raw of
        Inl err \<Rightarrow> Inl err
      | Inr tx \<Rightarrow>
          (case bundle_txs A C reverting raws of
             Inl err \<Rightarrow> Inl err
           | Inr txs \<Rightarrow> Inr ((with_tx C tx)\<lparr>ptx_allow_revert := tx_hash A tx \<in> set reverting\<rparr> # txs)))"

text \<open>\<open>rand_uuid\<close> is the text of the random bytes that name a bundle without a uuid.\<close>

definition to_bundle ::
  "'tx tx_api \<Rightarrow> 'tx tx_codec \<Rightarrow> string \<Rightarrow> send_bundle_request \<Rightarrow> string + 'tx eth_bundle" where
  "to_bundle A C rand_uuid req =
     (let reverting = (case sb_reverting_tx_hashes req of Some hashes \<Rightarrow> hashes | None \<Rightarrow> [])
      in if length (sb_txs req) = 0 then Inl ''empty transactions''
         else
           (case bundle_txs A C reverting (sb_txs req) of
              Inl err \<Rightarrow> Inl err
            | Inr txs \<Rightarrow>
                Inr \<lparr>b_block_number = sb_block_number req, b_min_timestamp = sb_min_timestamp req,
                     b_max_timestamp = sb_max_timestamp req,
                     b_uuid = (case sb_replacement_uuid req of
                                 Some uuid \<Rightarrow> uuid
                               | None \<Rightarrow> (case sb_uuid req of Some uuid \<Rightarrow> uuid | None \<Rightarrow> rand_uuid)),
                     b_refund_percent = (case sb_refund_percent req of None \<Rightarrow> 0 | Some v \<Rightarrow> v),
                     b_refund_recipient = (case sb_refund_recipient req of
                                             None \<Rightarrow> ptx_caller (hd txs)
                                           | Some recipient \<Rightarrow> recipient),
                     b_txs = txs\<rparr>))"

section \<open>\<open>TxPool\<close>\<close>

record 'tx tx_pool =
  tp_seq_pool :: "'tx seq_pool"
  tp_price_pool :: "'tx price_pool"
  tp_bundle_pool :: "'tx bundle_pool_list"

definition tx_pool_new :: "nat \<Rightarrow> 'tx tx_pool" where
  "tx_pool_new limit =
     \<lparr>tp_seq_pool = seq_pool_new limit, tp_price_pool = price_pool_new limit, tp_bundle_pool = bundle_pool_new\<rparr>"

section \<open>The history\<close>

definition history_ok :: "'tx bundle_pool_list \<Rightarrow> bool" where
  "history_ok l \<longleftrightarrow> distinct (map bs_hash (bl_history l)) \<and> length (bl_history l) \<le> 100"

definition bundle_inv :: "'tx bundle_pool_list \<Rightarrow> bool" where
  "bundle_inv l \<longleftrightarrow> history_ok l \<and> bt_ok (bl_uuid l) \<and> (\<forall>u b. map_of (bl_uuid l) u = Some b \<longrightarrow> b_uuid b = u)"

lemma get_stat_ok:
  assumes "get_stat B b l = (idx, l')" and "history_ok l"
  shows "history_ok l'" and "idx < length (bl_history l')" and "bs_hash (bl_history l' ! idx) = bundle_hash B b"
    and "bl_uuid l' = bl_uuid l"
  using assms
  by (auto simp: get_stat_def Let_def history_ok_def take_map [symmetric] take_Cons' dest: position_SomeD
      split: option.splits intro!: distinct_take) (fastforce dest: in_set_takeD)

lemma update_stat_ok:
  assumes "history_ok l" and "\<And>s. bs_hash (f s) = bs_hash s"
  shows "history_ok (update_stat B b f l)" and "bl_uuid (update_stat B b f l) = bl_uuid l"
proof -
  obtain idx l' where g: "get_stat B b l = (idx, l')" by fastforce
  note ok = get_stat_ok [OF g assms(1)]
  have "map bs_hash ((bl_history l')[idx := f (bl_history l' ! idx)]) = map bs_hash (bl_history l')"
    using ok(2) assms(2) by (simp add: map_update list_update_same_conv)
  with ok show "history_ok (update_stat B b f l)" "bl_uuid (update_stat B b f l) = bl_uuid l"
    by (simp_all add: update_stat_def g history_ok_def)
qed


lemma bundle_inv_update:
  "bundle_inv l \<Longrightarrow> (\<And>s. bs_hash (f s) = bs_hash s) \<Longrightarrow> bundle_inv (update_stat B b f l)"
  by (simp add: bundle_inv_def update_stat_ok)

lemma bundle_expire_ok:
  assumes "bundle_inv l"
  shows "bundle_inv (bundle_expire B u l)" and "bl_uuid (bundle_expire B u l) = bt_remove u (bl_uuid l)"
proof -
  have "bundle_inv (l\<lparr>bl_uuid := bt_remove u (bl_uuid l)\<rparr>)"
    using assms by (auto simp: bundle_inv_def history_ok_def split: if_splits)
  then have inv: "bundle_inv (update_stat B b f (l\<lparr>bl_uuid := bt_remove u (bl_uuid l)\<rparr>))"
    "bl_uuid (update_stat B b f (l\<lparr>bl_uuid := bt_remove u (bl_uuid l)\<rparr>)) = bt_remove u (bl_uuid l)"
    if "\<And>s. bs_hash (f s) = bs_hash s" for b f
    using that by (auto simp: bundle_inv_update bundle_inv_def update_stat_ok)
  show "bundle_inv (bundle_expire B u l)" "bl_uuid (bundle_expire B u l) = bt_remove u (bl_uuid l)"
    using assms inv by (auto simp: bundle_expire_def bt_remove_id split: option.splits)
qed

lemma fold_expire_ok:
  "bundle_inv l \<Longrightarrow> bundle_inv (fold (bundle_expire B) us l) \<and> bl_uuid (fold (bundle_expire B) us l) = fold bt_remove us (bl_uuid l)"
  by (induction us arbitrary: l) (auto simp: bundle_expire_ok)

lemma bundle_scan_eq:
  "bundle_scan n ts m =
     (map snd (filter (\<lambda>p. \<not> bundle_expired n ts (snd p) \<and> \<not> bundle_early n ts (snd p)) m),
      map fst (filter (\<lambda>p. bundle_expired n ts (snd p)) m))"
  by (induction n ts m rule: bundle_scan.induct) (auto simp: Let_def)

lemma bundle_inv_insert:
  "bundle_inv l \<Longrightarrow> bundle_inv (l\<lparr>bl_uuid := bt_insert (b_uuid b) b (bl_uuid l)\<rparr>)"
  by (auto simp: bundle_inv_def history_ok_def split: if_splits)

lemma bundle_pool_add_ok:
  assumes "bundle_inv l"
  shows "bundle_inv (snd (bundle_pool_add B b dur l))"
    and "bl_uuid (snd (bundle_pool_add B b dur l)) = bt_insert (b_uuid b) b (bl_uuid l)"
proof -
  have inv: "bundle_inv (l\<lparr>bl_uuid := bt_insert (b_uuid b) b (bl_uuid l)\<rparr>)" by (rule bundle_inv_insert [OF assms])
  have hist: "bundle_inv m \<Longrightarrow> history_ok m" for m :: "'a bundle_pool_list" by (simp add: bundle_inv_def)
  show "bundle_inv (snd (bundle_pool_add B b dur l))"
    using inv by (auto simp: bundle_pool_add_def Let_def bundle_inv_update split: option.splits)
  show "bl_uuid (snd (bundle_pool_add B b dur l)) = bt_insert (b_uuid b) b (bl_uuid l)"
    using inv by (auto simp: bundle_pool_add_def Let_def bundle_inv_update hist update_stat_ok split: option.splits)
qed

inductive bundle_pool_run :: "'tx bundle_api \<Rightarrow> 'tx bundle_pool_list \<Rightarrow> bool" for B where
  new: "bundle_pool_run B bundle_pool_new"
| add: "bundle_pool_run B l \<Longrightarrow> bundle_pool_run B (snd (bundle_pool_add B bundle dur l))"
| set_history: "bundle_pool_run B l \<Longrightarrow> bundle_pool_run B (bundle_pool_set_history B now bundle status l)"
| list: "bundle_pool_run B l \<Longrightarrow> bundle_pool_run B (snd (bundle_pool_list_bundles B n ts l))"

lemma bundle_pool_run_inv: "bundle_pool_run B l \<Longrightarrow> bundle_inv l"
proof (induction rule: bundle_pool_run.induct)
  case new
  show ?case by (simp add: bundle_pool_new_def bundle_inv_def history_ok_def)
next
  case (add l b dur)
  then show ?case by (simp add: bundle_pool_add_ok)
next
  case (set_history l now b status)
  then show ?case by (simp add: bundle_pool_set_history_def bundle_inv_update)
next
  case (list l n ts)
  then show ?case by (simp add: bundle_pool_list_bundles_def case_prod_beta fold_expire_ok)
qed

section \<open>Properties\<close>

definition demo_bundle_api :: "demo_tx bundle_api" where
  "demo_bundle_api = \<lparr>bundle_hash = (\<lambda>b. of_nat (length (b_uuid b))), show_hash = (\<lambda>_. ''#'')\<rparr>"

definition demo_bundle :: "string \<Rightarrow> u64 \<Rightarrow> u64 option \<Rightarrow> demo_tx eth_bundle" where
  "demo_bundle u n mx =
     \<lparr>b_block_number = n, b_min_timestamp = None, b_max_timestamp = mx, b_uuid = u, b_refund_percent = 0,
      b_refund_recipient = 0, b_txs = [demo_ptx 7 1 11 9 1]\<rparr>"

definition demo_bundles :: "demo_tx bundle_pool_list" where
  "demo_bundles =
     snd (bundle_pool_add demo_bundle_api (demo_bundle ''abc'' 5 (Some 3)) ''1s''
       (snd (bundle_pool_add demo_bundle_api (demo_bundle ''a'' 5 None) ''1s''
         (snd (bundle_pool_add demo_bundle_api (demo_bundle ''ab'' 6 None) ''2s'' bundle_pool_new)))))"

lemma demo_bundles_run: "bundle_pool_run demo_bundle_api demo_bundles"
  unfolding demo_bundles_def by (intro bundle_pool_run.intros)

text \<open>In every reachable bundle pool the history holds at most 100 entries, one per bundle hash, and
  every bundle is stored under its own uuid.\<close>

theorem bundle_pool_wellformed:
  assumes "bundle_pool_run B l"
  shows "length (bl_history l) \<le> 100 \<and> distinct (map bs_hash (bl_history l)) \<and>
    (\<forall>u b. bundle_pool_get u l = Some b \<longrightarrow> b_uuid b = u)"
  using bundle_pool_run_inv [OF assms] by (simp add: bundle_inv_def history_ok_def bundle_pool_get_def)

theorem bundle_pool_wellformed_witness:
  "length (bl_history demo_bundles) = 3 \<and> distinct (map bs_hash (bl_history demo_bundles))"
proof -
  have "length (bl_history demo_bundles) = 3" by code_simp
  then show ?thesis using bundle_pool_wellformed [OF demo_bundles_run] by simp
qed

text \<open>C9: \<open>list\<close> returns, in the order of the uuids, exactly the bundles for the given block number whose
  time window holds the given timestamp, and removes exactly those whose block or window has passed.
  \<open>add\<close> replaces the bundle of the same uuid and touches no other.\<close>

theorem bundle_pool_list_exact:
  assumes "bundle_pool_run B l"
  shows "fst (bundle_pool_list_bundles B n ts l) =
      map snd (filter (\<lambda>(_, b). b_block_number b = n \<and>
        (\<forall>t. b_min_timestamp b = Some t \<longrightarrow> t \<le> ts) \<and> (\<forall>t. b_max_timestamp b = Some t \<longrightarrow> ts \<le> t)) (bl_uuid l)) \<and>
    (\<forall>u. bundle_pool_get u (snd (bundle_pool_list_bundles B n ts l)) =
      (case bundle_pool_get u l of
         None \<Rightarrow> None
       | Some b \<Rightarrow> if b_block_number b < n \<or> (\<exists>t. b_max_timestamp b = Some t \<and> t < ts) then None else Some b)) \<and>
    (\<forall>b dur u. bundle_pool_get u (snd (bundle_pool_add B b dur l)) =
      (if u = b_uuid b then Some b else bundle_pool_get u l))"
proof (intro conjI allI)
  note inv = bundle_pool_run_inv [OF assms]
  have top: "\<not> - 1 < (x :: u64)" for x by (simp add: not_less word_n1_ge)
  have exp: "bundle_expired n ts b \<longleftrightarrow> b_block_number b < n \<or> (\<exists>t. b_max_timestamp b = Some t \<and> t < ts)"
    for b :: "'a eth_bundle" by (auto simp: bundle_expired_def top split: option.splits)
  have win: "\<not> bundle_expired n ts b \<and> \<not> bundle_early n ts b \<longleftrightarrow> b_block_number b = n \<and>
      (\<forall>t. b_min_timestamp b = Some t \<longrightarrow> t \<le> ts) \<and> (\<forall>t. b_max_timestamp b = Some t \<longrightarrow> ts \<le> t)"
    for b :: "'a eth_bundle"
    by (auto simp: exp bundle_early_def not_less split: option.splits)
  show "fst (bundle_pool_list_bundles B n ts l) =
      map snd (filter (\<lambda>(_, b). b_block_number b = n \<and>
        (\<forall>t. b_min_timestamp b = Some t \<longrightarrow> t \<le> ts) \<and> (\<forall>t. b_max_timestamp b = Some t \<longrightarrow> ts \<le> t)) (bl_uuid l))"
    by (simp add: bundle_pool_list_bundles_def bundle_scan_eq win case_prod_unfold)
  fix u
  have "u \<in> fst ` {p \<in> set (bl_uuid l). bundle_expired n ts (snd p)} \<longleftrightarrow>
      (\<exists>b. map_of (bl_uuid l) u = Some b \<and> bundle_expired n ts b)"
    using bt_ok_in_set [of "bl_uuid l" u] inv by (force simp: bundle_inv_def)
  then show "bundle_pool_get u (snd (bundle_pool_list_bundles B n ts l)) =
      (case bundle_pool_get u l of
         None \<Rightarrow> None
       | Some b \<Rightarrow> if b_block_number b < n \<or> (\<exists>t. b_max_timestamp b = Some t \<and> t < ts) then None else Some b)"
    using fold_expire_ok [OF inv]
    by (auto simp: bundle_pool_list_bundles_def bundle_scan_eq bundle_pool_get_def map_of_fold_remove exp split: option.splits)
  show "bundle_pool_get u (snd (bundle_pool_add B b dur l)) = (if u = b_uuid b then Some b else bundle_pool_get u l)" for b dur
    by (simp add: bundle_pool_get_def bundle_pool_add_ok(2) [OF inv])
qed


theorem bundle_pool_list_exact_witness:
  "map b_uuid (fst (bundle_pool_list_bundles demo_bundle_api 5 9 demo_bundles)) = [''a''] \<and>
   bundle_pool_get ''abc'' (snd (bundle_pool_list_bundles demo_bundle_api 5 9 demo_bundles)) = None \<and>
   bundle_pool_get ''ab'' (snd (bundle_pool_list_bundles demo_bundle_api 5 9 demo_bundles)) = Some (demo_bundle ''ab'' 6 None)"
proof -
  have "map b_uuid (fst (bundle_pool_list_bundles demo_bundle_api 5 9 demo_bundles)) = [''a'']" by code_simp
  moreover have "bundle_pool_get ''abc'' demo_bundles = Some (demo_bundle ''abc'' 5 (Some 3))"
    "bundle_pool_get ''ab'' demo_bundles = Some (demo_bundle ''ab'' 6 None)" by code_simp+
  moreover have "(3 :: u64) < 9" "\<not> (6 :: u64) < 5" by code_simp+
  ultimately show ?thesis
    using bundle_pool_list_exact [OF demo_bundles_run, of 5 9] by (simp add: demo_bundle_def)
qed

lemma bundle_txs_Inr:
  "bundle_txs A C rv raws = Inr txs \<Longrightarrow> length txs = length raws \<and>
   (\<forall>i < length raws. \<exists>tx. from_bytes C (raws ! i) = Inr tx \<and>
      txs ! i = (with_tx C tx)\<lparr>ptx_allow_revert := tx_hash A tx \<in> set rv\<rparr>)"
proof (induction raws arbitrary: txs)
  case (Cons raw raws)
  then obtain tx ts where "from_bytes C raw = Inr tx" "bundle_txs A C rv raws = Inr ts"
    "txs = (with_tx C tx)\<lparr>ptx_allow_revert := tx_hash A tx \<in> set rv\<rparr> # ts" by (auto split: sum.splits)
  with Cons.IH show ?case by (auto simp: nth_Cons split: nat.splits)
qed simp

lemma bundle_txs_Inl: "bundle_txs A C rv raws = Inl err \<Longrightarrow> \<exists>raw \<in> set raws. from_bytes C raw = Inl err"
  by (induction raws) (auto split: sum.splits)

text \<open>C10: A bundle request fails exactly on no transactions or on one that does not decode.  Otherwise the
  bundle has the decoded transactions in order, each allowed to revert exactly if its hash is listed;
  the replacement uuid goes before the uuid, and both before a random one; the refund goes
  to the given recipient or else to the sender of the first transaction.\<close>

theorem to_bundle_exact:
  "case to_bundle A C rand req of
     Inl err \<Rightarrow> sb_txs req = [] \<and> err = ''empty transactions'' \<or> (\<exists>raw \<in> set (sb_txs req). from_bytes C raw = Inl err)
   | Inr b \<Rightarrow> sb_txs req \<noteq> [] \<and> length (b_txs b) = length (sb_txs req) \<and>
       (\<forall>i < length (sb_txs req). \<exists>tx. from_bytes C (sb_txs req ! i) = Inr tx \<and>
          b_txs b ! i = (with_tx C tx)\<lparr>ptx_allow_revert :=
            (\<exists>hs. sb_reverting_tx_hashes req = Some hs \<and> tx_hash A tx \<in> set hs)\<rparr>) \<and>
       b_uuid b = (case (sb_replacement_uuid req, sb_uuid req) of
         (Some r, _) \<Rightarrow> r | (None, Some u) \<Rightarrow> u | (None, None) \<Rightarrow> rand) \<and>
       b_refund_recipient b = (case sb_refund_recipient req of Some r \<Rightarrow> r | None \<Rightarrow> ptx_caller (b_txs b ! 0))"
proof (cases "sb_txs req = []")
  case True
  then show ?thesis by (simp add: to_bundle_def Let_def)
next
  case False
  let ?rev = "case sb_reverting_tx_hashes req of Some hashes \<Rightarrow> hashes | None \<Rightarrow> []"
  have rev: "h \<in> set ?rev \<longleftrightarrow> (\<exists>hs. sb_reverting_tx_hashes req = Some hs \<and> h \<in> set hs)" for h
    by (cases "sb_reverting_tx_hashes req") auto
  show ?thesis
  proof (cases "bundle_txs A C ?rev (sb_txs req)")
    case (Inl err)
    then show ?thesis using False bundle_txs_Inl [OF Inl] by (simp add: to_bundle_def Let_def)
  next
    case (Inr txs)
    note ok = bundle_txs_Inr [OF Inr, unfolded rev]
    from ok False have "hd txs = txs ! 0" by (metis hd_conv_nth length_0_conv)
    then show ?thesis using False Inr ok by (auto simp: to_bundle_def Let_def split: option.splits)
  qed
qed

definition demo_codec :: "demo_tx tx_codec" where
  "demo_codec =
     \<lparr>from_bytes = (\<lambda>raw. case raw of [] \<Rightarrow> Inl ''empty'' | b # _ \<Rightarrow> Inr (ptx_tx (demo_ptx 7 1 (ucast b) 9 1))),
      with_tx = (\<lambda>tx. (demo_ptx (d_sender tx) 1 (d_hash tx) 9 1))\<rparr>"

definition demo_request :: send_bundle_request where
  "demo_request =
     \<lparr>sb_txs = [[5], [6]], sb_block_number = 9, sb_min_timestamp = None, sb_max_timestamp = None,
      sb_reverting_tx_hashes = Some [6], sb_uuid = Some ''u'', sb_replacement_uuid = None,
      sb_refund_percent = None, sb_refund_recipient = None\<rparr>"

theorem to_bundle_exact_witness:
  "\<exists>b. to_bundle demo_api demo_codec ''r'' demo_request = Inr b \<and> length (b_txs b) = 2 \<and>
     b_uuid b = ''u'' \<and> b_refund_recipient b = ptx_caller (b_txs b ! 0) \<and> map ptx_allow_revert (b_txs b) = [False, True]"
proof -
  have run: "map_sum id (\<lambda>b. map ptx_allow_revert (b_txs b)) (to_bundle demo_api demo_codec ''r'' demo_request) = Inr [False, True]"
    by code_simp
  then obtain b where b: "to_bundle demo_api demo_codec ''r'' demo_request = Inr b" "map ptx_allow_revert (b_txs b) = [False, True]"
    by (cases "to_bundle demo_api demo_codec ''r'' demo_request") auto
  with to_bundle_exact [where A = demo_api and C = demo_codec and rand = "''r''" and req = demo_request] show ?thesis by (auto simp: demo_request_def)
qed

end
