(* ===== verification/Block_Types.thy ===== *)
theory Block_Types
  imports Bundle_Pool
begin

text \<open>
  The header of the block to build and the tips to pay: \<open>src/common/block_builder/src/types.rs\<close>.

  \<open>calc_gas_limit\<close> is raw \<open>u64\<close> arithmetic, which wraps in the release profile.  The arithmetic on
  \<open>U256\<close>, \<open>SU256\<close> and \<open>SU64\<close> panics on overflow and on division by zero: \<open>None\<close>.  The hash of the
  parent block comes from the crate \<open>eth_types\<close> and is an argument.

  The results bound the gas limit and the base fee as the protocol wants them (a change by less than
  1/1024 and by at most 1/8) and say for which parents the code computes them at all.
\<close>

record build_payload =
  pl_round :: nat
  pl_slot :: u64
  pl_base :: block_header
  pl_coinbase :: h160
  pl_gas_limit :: u64
  pl_timestamp :: u64
  pl_random :: h256
  pl_extra :: "u8 list"
  pl_withdrawals :: "withdrawal list"
  pl_tips_recipient :: "h160 option"

section \<open>\<open>BuildPayload\<close>\<close>

definition calc_gas_limit :: "u64 \<Rightarrow> u64 \<Rightarrow> u64" where
  "calc_gas_limit parent_gas_limit desired_limit =
     (let delta = parent_gas_limit div 1024 - 1;
          desired_limit = (if desired_limit < 5000 then 5000 else desired_limit)
      in if parent_gas_limit < desired_limit
         then (let limit = parent_gas_limit + delta in if desired_limit < limit then desired_limit else limit)
         else if desired_limit < parent_gas_limit
         then (let limit = parent_gas_limit - delta in if limit < desired_limit then desired_limit else limit)
         else parent_gas_limit)"

text \<open>The fee change of \<open>calc_base_fee\<close>: \<open>num * base_fee / target / 8\<close>.\<close>

definition base_fee_change :: "u64 \<Rightarrow> u64 \<Rightarrow> u256 \<Rightarrow> u256 option" where
  "base_fee_change delta parent_gas_target base_fee =
     Option.bind (chk_mul (ucast delta) base_fee) (\<lambda>num.
     Option.bind (chk_div num (ucast parent_gas_target)) (\<lambda>num. chk_div num 8))"

definition calc_base_fee :: "u64 \<Rightarrow> u64 \<Rightarrow> u256 \<Rightarrow> u256 option" where
  "calc_base_fee gas_limit gas_used base_fee =
     (let parent_gas_target = gas_limit div 2
      in if gas_used = parent_gas_target then Some base_fee
         else if parent_gas_target < gas_used
         then Option.bind (base_fee_change (gas_used - parent_gas_target) parent_gas_target base_fee)
                (\<lambda>num. chk_add (max num 1) base_fee)
         else Option.bind (base_fee_change (parent_gas_target - gas_used) parent_gas_target base_fee)
                (\<lambda>num. map_option (\<lambda>base_fee. max base_fee 0) (chk_sub base_fee num)))"

definition next_block :: "(block_header \<Rightarrow> h256) \<Rightarrow> build_payload \<Rightarrow> block_header option" where
  "next_block header_hash p =
     (let gas_limit = calc_gas_limit (h_gas_limit (pl_base p)) (pl_gas_limit p)
      in Option.bind (calc_base_fee (h_gas_limit (pl_base p)) (h_gas_used (pl_base p)) (h_base_fee_per_gas (pl_base p)))
           (\<lambda>base_fee. map_option
              (\<lambda>number.
                 \<lparr>h_parent_hash = header_hash (pl_base p), h_number = number, h_gas_limit = gas_limit,
                  h_gas_used = 0, h_timestamp = pl_timestamp p, h_miner = pl_coinbase p,
                  h_mix_hash = pl_random p, h_extra_data = pl_extra p, h_base_fee_per_gas = base_fee,
                  h_difficulty = 0, h_state_root = 0\<rparr>)
              (chk_add (h_number (pl_base p)) 1)))"

section \<open>\<open>TipsStrategy\<close>\<close>

record tips_strategy_rule =
  ts_start :: u256
  ts_num_increment :: u256
  ts_max_num_increment :: u256
  ts_blocks_increment :: u256
  ts_max_blocks_increment :: u256

record tips_strategy =
  ts_max :: u256
  ts_bundle :: "tips_strategy_rule option"
  ts_internal :: "tips_strategy_rule option"
  ts_normal :: "tips_strategy_rule option"

definition tips_bundle :: "tips_strategy \<Rightarrow> nat \<Rightarrow> u256" where
  "tips_bundle s bundles =
     (case ts_bundle s of Some rule \<Rightarrow> if 0 < bundles then ts_start rule else 0 | None \<Rightarrow> 0)"

definition tips_internal :: "tips_strategy \<Rightarrow> u64 list \<Rightarrow> u256 option" where
  "tips_internal s internals =
     (case ts_internal s of
        None \<Rightarrow> Some 0
      | Some rule \<Rightarrow>
          if internals = [] then Some 0
          else
            Option.bind (chk_mul (ucast (of_nat (length internals) :: u64)) (ts_num_increment rule)) (\<lambda>num.
            Option.bind (chk_mul (ucast (Max (set internals))) (ts_blocks_increment rule)) (\<lambda>blocks.
            Option.bind (chk_add (ts_start rule) (min num (ts_max_num_increment rule))) (\<lambda>t.
            chk_add t (min blocks (ts_max_blocks_increment rule))))))"

definition tips_normal :: "tips_strategy \<Rightarrow> u256" where
  "tips_normal s = (case ts_normal s of Some rule \<Rightarrow> ts_start rule | None \<Rightarrow> 0)"

definition tips_strategy_get :: "tips_strategy \<Rightarrow> u256 \<Rightarrow> u64 list \<Rightarrow> nat \<Rightarrow> u256 option" where
  "tips_strategy_get s reward internals bundles =
     Option.bind (tips_internal s internals) (\<lambda>internal.
       chk_add reward (min (max (max internal (tips_bundle s bundles)) (tips_normal s)) (ts_max s)))"

section \<open>Gas limit\<close>

lemma calc_gas_limit_step:
  fixes parent desired :: u64
  assumes "1024 \<le> parent" and "unat parent + unat parent div 1024 < 2 ^ 64"
  shows "unat (parent div 1024 - 1) = unat parent div 1024 - 1"
    and "unat (parent + (parent div 1024 - 1)) = unat parent + (unat parent div 1024 - 1)"
    and "unat (parent - (parent div 1024 - 1)) = unat parent - (unat parent div 1024 - 1)"
proof -
  have q: "unat (parent div 1024) = unat parent div 1024" by (simp add: unat_div)
  have p: "1024 \<le> unat parent" using assms(1) by (simp add: word_le_nat_alt)
  then have "1 \<le> unat parent div 1024" by simp
  then have "1 \<le> parent div 1024" using q by (simp add: word_le_nat_alt)
  then show d: "unat (parent div 1024 - 1) = unat parent div 1024 - 1" using q by (simp add: unat_sub)
  show "unat (parent + (parent div 1024 - 1)) = unat parent + (unat parent div 1024 - 1)"
    using assms(2) d by (subst unat_add_small) simp_all
  have "parent div 1024 - 1 \<le> parent" using d by (simp add: word_le_nat_alt)
  then show "unat (parent - (parent div 1024 - 1)) = unat parent - (unat parent div 1024 - 1)"
    by (simp add: unat_sub d)
qed

lemma calc_gas_limit_unat:
  fixes parent desired :: u64
  assumes "1024 \<le> parent" and "unat parent + unat parent div 1024 < 2 ^ 64"
  shows "unat (calc_gas_limit parent desired) =
    (let old = unat parent; want = max (unat desired) 5000; d = old div 1024 - 1
     in if old < want then min want (old + d) else if want < old then max want (old - d) else old)"
proof -
  define w :: u64 where "w = (if desired < 5000 then 5000 else desired)"
  have w: "unat w = max (unat desired) 5000" by (auto simp: w_def word_less_nat_alt max_def)
  define d D where "d = parent div 1024 - 1" and "D = unat parent div 1024 - 1"
  note step = calc_gas_limit_step [OF assms, folded d_def D_def]
  show ?thesis
    unfolding calc_gas_limit_def Let_def w_def [symmetric] w [symmetric] d_def [symmetric] D_def [symmetric]
    by (auto simp: word_less_nat_alt step)
qed

lemma gas_limit_arith:
  "(1::nat) \<le> q \<Longrightarrow> q \<le> old \<Longrightarrow>
   new = (if old < want then min want (old + (q - 1)) else if want < old then max want (old - (q - 1)) else old) \<Longrightarrow>
   new < old + q \<and> old < new + q \<and> min old want \<le> new \<and> new \<le> max old want \<and>
   (want < old + q \<and> old < want + q \<longrightarrow> new = want)"
  by (auto simp: min_def max_def split: if_splits)

text \<open>C21: For a parent gas limit of at least 1024 the new gas limit differs from it by less than 1/1024 of
  it, never moves away from the desired limit (at least 5000) or past it, and reaches it when it is
  within that distance.\<close>

theorem calc_gas_limit_bounds:
  assumes "1024 \<le> parent" and "unat parent + unat parent div 1024 < 2 ^ 64"
  shows "let new = unat (calc_gas_limit parent desired); old = unat parent; want = max (unat desired) 5000
    in new < old + old div 1024 \<and> old < new + old div 1024 \<and>
       min old want \<le> new \<and> new \<le> max old want \<and>
       (want < old + old div 1024 \<and> old < want + old div 1024 \<longrightarrow> new = want)"
proof -
  have "1024 \<le> unat parent" using assms(1) by (simp add: word_le_nat_alt)
  then have "1 \<le> unat parent div 1024" "unat parent div 1024 \<le> unat parent" by simp_all
  then show ?thesis
    unfolding Let_def by (rule gas_limit_arith [OF _ _ calc_gas_limit_unat [OF assms, of desired, unfolded Let_def]])
qed

theorem calc_gas_limit_bounds_witness:
  "calc_gas_limit 30000000 36000000 = 30029295 \<and> unat (calc_gas_limit 30000000 36000000) < 30000000 + 30000000 div 1024"
proof -
  have "calc_gas_limit 30000000 36000000 = 30029295" by code_simp
  then show ?thesis using calc_gas_limit_bounds [of 30000000 36000000] by (simp add: Let_def word_le_nat_alt)
qed

section \<open>Base fee\<close>

lemma base_fee_change_Some:
  "base_fee_change d t f = Some n \<longleftrightarrow> t \<noteq> 0 \<and> unat d * unat f < 2 ^ 256 \<and> unat n = unat d * unat f div unat t div 8"
proof -
  have z: "(ucast t :: u256) = 0 \<longleftrightarrow> t = 0" by (metis unat_ucast_u256 unat_eq_zero)
  show ?thesis
  proof (cases "unat d * unat f < 2 ^ 256")
    case True
    then obtain m where m: "chk_mul (ucast d :: u256) f = Some m" by (simp add: chk_mul_if)
    then have "unat m = unat d * unat f" by (simp add: chk_simps)
    with True show ?thesis
      by (auto simp: base_fee_change_def m chk_div_def z word_unat_eq_iff [of "_ div _"] unat_div)
  next
    case False
    then have "chk_mul (ucast d :: u256) f = None" by (simp add: chk_mul_if)
    with False show ?thesis by (simp add: base_fee_change_def)
  qed
qed

lemma base_fee_change_total:
  assumes "t \<noteq> 0" and "unat d * unat f < 2 ^ 256"
  shows "\<exists>n. base_fee_change d t f = Some n \<and> unat n = unat f * unat d div unat t div 8"
proof -
  have "unat d * unat f div unat t div 8 < 2 ^ 256" using assms(2) by (meson div_le_dividend le_less_trans)
  then have "unat (of_nat (unat d * unat f div unat t div 8) :: u256) = unat d * unat f div unat t div 8"
    by (simp add: unat_of_nat)
  with assms show ?thesis unfolding base_fee_change_Some by (auto simp: mult.commute)
qed

text \<open>C20: For a parent with a nonzero gas target \<open>T\<close> (half its limit) and a base fee small enough not to
  overflow, the next base fee is the one of EIP-1559: unchanged if the parent used exactly \<open>T\<close>; higher by
  \<open>max 1 (fee * (used - T) / T / 8)\<close> if it used more; lower by \<open>fee * (T - used) / T / 8\<close> if it used less.
  If at most \<open>2 * T\<close> was used, the fee changes by at most an eighth (or 1).\<close>

theorem calc_base_fee_eip1559:
  assumes "2 \<le> gas_limit" and "unat gas_used * unat fee < 2 ^ 255" and "unat gas_limit * unat fee < 2 ^ 255" and "unat fee < 2 ^ 255"
  shows "\<exists>f. calc_base_fee gas_limit gas_used fee = Some f \<and>
    (let T = unat gas_limit div 2; u = unat gas_used; old = unat fee; new = unat f
     in (u = T \<longrightarrow> new = old) \<and>
        (T < u \<longrightarrow> new = old + max 1 (old * (u - T) div T div 8)) \<and>
        (u < T \<longrightarrow> new = old - old * (T - u) div T div 8) \<and>
        (u \<le> 2 * T \<longrightarrow> new \<le> old + max 1 (old div 8) \<and> old \<le> new + old div 8))"
proof -
  let ?T = "gas_limit div 2"
  have T: "unat ?T = unat gas_limit div 2" by (simp add: unat_div)
  have T0: "?T \<noteq> 0" "0 < unat gas_limit div 2" using assms(1) T by (auto simp: word_le_nat_alt word_unat_eq_iff)
  have eighth: "unat fee * d div (unat gas_limit div 2) div 8 \<le> unat fee div 8" if "d \<le> unat gas_limit div 2" for d
  proof -
    have "unat fee * d div (unat gas_limit div 2) \<le> unat fee * (unat gas_limit div 2) div (unat gas_limit div 2)"
      using that by (intro div_le_mono mult_le_mono2)
    then show ?thesis using T0(2) by (simp add: div_le_mono)
  qed
  consider "gas_used = ?T" | "?T < gas_used" | "gas_used < ?T" by force
  then show ?thesis
  proof cases
    case 1
    then show ?thesis using T by (simp add: calc_base_fee_def Let_def)
  next
    case 2
    let ?d = "unat gas_used - unat gas_limit div 2"
    have lt: "unat gas_limit div 2 < unat gas_used" using 2 T by (simp add: word_less_nat_alt)
    have d: "unat (gas_used - ?T) = ?d" using 2 by (simp add: unat_sub T less_imp_le)
    have "unat (gas_used - ?T) * unat fee \<le> unat gas_used * unat fee" unfolding d by simp
    then have "unat (gas_used - ?T) * unat fee < 2 ^ 256" using assms(2) by (rule le_less_trans [THEN less_trans]) simp
    then obtain n where n: "base_fee_change (gas_used - ?T) ?T fee = Some n" "unat n = unat fee * ?d div (unat gas_limit div 2) div 8"
      using base_fee_change_total [OF T0(1)] by (metis d T)
    have one: "unat (max n 1) = max (unat n) 1" by (auto simp: max_def word_le_nat_alt)
    have "unat n \<le> unat fee * ?d" unfolding n(2) by (meson div_le_dividend le_trans)
    also have "\<dots> \<le> unat fee * unat gas_used" by simp
    finally have "unat n \<le> unat gas_used * unat fee" by (simp add: mult.commute)
    then have sum: "max (unat n) 1 + unat fee < 2 ^ 256" using assms(2,4) by simp
    then obtain f where f: "chk_add (max n 1) fee = Some f" by (simp add: chk_add_if one)
    then have uf: "unat f = max (unat n) 1 + unat fee" by (simp add: chk_simps one)
    have "calc_base_fee gas_limit gas_used fee = Some f"
      using 2 n(1) f by (auto simp: calc_base_fee_def Let_def)
    moreover have "?d \<le> unat gas_limit div 2" if "unat gas_used \<le> 2 * (unat gas_limit div 2)" using that by simp
    ultimately show ?thesis
      using lt uf eighth [of ?d, folded n(2)] unfolding Let_def n(2) [symmetric]
      by (intro exI [of _ f] conjI impI) (simp_all add: max_def)
  next
    case 3
    let ?d = "unat gas_limit div 2 - unat gas_used"
    have lt: "unat gas_used < unat gas_limit div 2" using 3 T by (simp add: word_less_nat_alt)
    have d: "unat (?T - gas_used) = ?d" using 3 by (simp add: unat_sub T less_imp_le)
    have "?d \<le> unat gas_limit" by (meson diff_le_self div_le_dividend le_trans)
    then have "unat (?T - gas_used) * unat fee \<le> unat gas_limit * unat fee" unfolding d by simp
    then have "unat (?T - gas_used) * unat fee < 2 ^ 256" using assms(3) by (rule le_less_trans [THEN less_trans]) simp
    then obtain n where n: "base_fee_change (?T - gas_used) ?T fee = Some n" "unat n = unat fee * ?d div (unat gas_limit div 2) div 8"
      using base_fee_change_total [OF T0(1)] by (metis d T)
    have le: "unat n \<le> unat fee div 8" unfolding n(2) by (rule eighth) simp
    then have "n \<le> fee" unfolding word_le_nat_alt by (meson div_le_dividend le_trans)
    then obtain f where f: "chk_sub fee n = Some f" by (simp add: chk_sub_def)
    then have uf: "unat f + unat n = unat fee" by (simp add: chk_simps)
    have "calc_base_fee gas_limit gas_used fee = Some f"
      using 3 n(1) f by (auto simp: calc_base_fee_def Let_def)
    then show ?thesis
      unfolding Let_def n(2) [symmetric] using lt uf le by (intro exI [of _ f] conjI impI) simp_all
  qed
qed

theorem calc_base_fee_eip1559_witness:
  "calc_base_fee 30000000 30000000 1000 = Some 1125 \<and> calc_base_fee 30000000 0 1000 = Some 875 \<and>
   (\<exists>f. calc_base_fee 30000000 30000000 1000 = Some f \<and> unat f \<le> 1000 + 125)"
proof -
  have "calc_base_fee 30000000 30000000 1000 = Some 1125" "calc_base_fee 30000000 0 1000 = Some 875" by code_simp+
  moreover have "(2 :: u64) \<le> 30000000" by (simp add: word_le_nat_alt)
  ultimately show ?thesis
    using calc_base_fee_eip1559 [of 30000000 30000000 1000] by (simp add: Let_def)
qed

text \<open>A parent with a gas limit below 2 and any gas used makes the computation of the base fee, and
  with it of the next header, panic: it divides by the zero gas target.\<close>

lemma calc_base_fee_panics:
  assumes "gas_limit < 2" and "gas_used \<noteq> 0"
  shows "calc_base_fee gas_limit gas_used fee = None \<and>
    (h_gas_limit (pl_base p) = gas_limit \<longrightarrow> h_gas_used (pl_base p) = gas_used \<longrightarrow> next_block H p = None)"
proof -
  have "unat (gas_limit div 2) = 0" using assms(1) by (simp add: unat_div word_less_nat_alt)
  then have T: "gas_limit div 2 = 0" by (simp add: unat_eq_zero)
  have none: "base_fee_change d 0 f = None" for d f using base_fee_change_Some [of d 0 f] by (cases "base_fee_change d 0 f") auto
  have "calc_base_fee gas_limit gas_used f = None" for f
    using assms(2) unfolding calc_base_fee_def Let_def T by (simp add: none)
  then show ?thesis by (auto simp: next_block_def Let_def)
qed


text \<open>A header that can be computed is the parent's successor: it names the parent, has the next number,
  the payload's coinbase, timestamp, randomness and extra data, no gas used yet, and the gas limit and base
  fee computed from the parent.\<close>

theorem next_block_fields:
  assumes "next_block H p = Some b"
  shows "h_parent_hash b = H (pl_base p) \<and> unat (h_number b) = Suc (unat (h_number (pl_base p))) \<and>
    h_miner b = pl_coinbase p \<and> h_timestamp b = pl_timestamp p \<and> h_mix_hash b = pl_random p \<and>
    h_extra_data b = pl_extra p \<and> h_gas_used b = 0 \<and> h_difficulty b = 0 \<and>
    h_gas_limit b = calc_gas_limit (h_gas_limit (pl_base p)) (pl_gas_limit p) \<and>
    calc_base_fee (h_gas_limit (pl_base p)) (h_gas_used (pl_base p)) (h_base_fee_per_gas (pl_base p)) =
      Some (h_base_fee_per_gas b)"
  using assms by (auto simp: next_block_def Let_def bind_eq_Some_conv chk_simps)

definition demo_header :: block_header where
  "demo_header = \<lparr>h_parent_hash = 1, h_number = 100, h_gas_limit = 30000000, h_gas_used = 30000000, h_timestamp = 12,
     h_miner = 5, h_mix_hash = 0, h_extra_data = [], h_base_fee_per_gas = 1000, h_difficulty = 0, h_state_root = 0\<rparr>"

definition demo_payload :: build_payload where
  "demo_payload = \<lparr>pl_round = 0, pl_slot = 7, pl_base = demo_header, pl_coinbase = 6, pl_gas_limit = 36000000,
     pl_timestamp = 24, pl_random = 3, pl_extra = [1], pl_withdrawals = [], pl_tips_recipient = None\<rparr>"

theorem next_block_fields_witness:
  "\<exists>b. next_block (\<lambda>_. 77) demo_payload = Some b \<and> h_parent_hash b = 77 \<and> unat (h_number b) = 101 \<and>
     h_base_fee_per_gas b = 1125 \<and> h_gas_limit b = 30029295"
proof -
  have run: "map_option h_base_fee_per_gas (next_block (\<lambda>_. 77) demo_payload) = Some 1125"
    "map_option h_gas_limit (next_block (\<lambda>_. 77) demo_payload) = Some 30029295" by code_simp+
  then obtain b where b: "next_block (\<lambda>_. 77) demo_payload = Some b" by auto
  with run next_block_fields [OF b] show ?thesis by (simp add: demo_payload_def demo_header_def)
qed

section \<open>Tips\<close>

lemma tips_internal_bound:
  assumes "tips_internal s internals = Some v" and "ts_internal s = Some rule" and "internals \<noteq> []"
  shows "unat (ts_start rule) \<le> unat v"
    and "unat v \<le> unat (ts_start rule) + unat (ts_max_num_increment rule) + unat (ts_max_blocks_increment rule)"
proof -
  have m: "unat (min a b) \<le> unat b" for a b :: u256 by (auto simp: min_def word_le_nat_alt)
  have "\<exists>num blocks (t :: u256). chk_add (ts_start rule) (min num (ts_max_num_increment rule)) = Some t \<and>
      chk_add t (min blocks (ts_max_blocks_increment rule)) = Some v"
    using assms by (auto simp: tips_internal_def bind_eq_Some_conv)
  then obtain num blocks and t :: u256 where "unat t = unat (ts_start rule) + unat (min num (ts_max_num_increment rule))"
    and "unat v = unat t + unat (min blocks (ts_max_blocks_increment rule))"
    unfolding chk_simps by blast
  with m [of num] m [of blocks] show "unat (ts_start rule) \<le> unat v"
    and "unat v \<le> unat (ts_start rule) + unat (ts_max_num_increment rule) + unat (ts_max_blocks_increment rule)"
    by (simp_all add: add_mono)
qed

text \<open>The profit that \<open>TipsStrategy::get\<close> promises is at least the reward and exceeds it by at most the
  configured maximum.  The excess is at least the start amount of every rule that applies (normal
  always, bundle with a bundle in the block, internal with an internal transaction), up to
  that maximum, and no more than the largest of them with the capped increments.\<close>

theorem tips_bounds:
  assumes "tips_strategy_get s reward internals bundles = Some profit"
  shows "unat reward \<le> unat profit \<and> unat profit \<le> unat reward + unat (ts_max s) \<and>
    (\<forall>rule. ts_normal s = Some rule \<or> ts_bundle s = Some rule \<and> 0 < bundles \<or> ts_internal s = Some rule \<and> internals \<noteq> [] \<longrightarrow>
       unat reward + min (unat (ts_start rule)) (unat (ts_max s)) \<le> unat profit) \<and>
    (ts_normal s = None \<and> (ts_bundle s = None \<or> bundles = 0) \<and> (ts_internal s = None \<or> internals = []) \<longrightarrow> profit = reward)"
proof -
  obtain v where v: "tips_internal s internals = Some v"
    and p: "unat profit = unat reward + unat (min (max (max v (tips_bundle s bundles)) (tips_normal s)) (ts_max s))"
    using assms by (auto simp: tips_strategy_get_def bind_eq_Some_conv chk_simps)
  have mm: "unat (min a b) = min (unat a) (unat b)" "unat (max a b) = max (unat a) (unat b)" for a b :: u256
    by (auto simp: min_def max_def word_le_nat_alt)
  note p = p [unfolded mm]
  have "unat (ts_start rule) \<le> max (max (unat v) (unat (tips_bundle s bundles))) (unat (tips_normal s))"
    if "ts_normal s = Some rule \<or> ts_bundle s = Some rule \<and> 0 < bundles \<or> ts_internal s = Some rule \<and> internals \<noteq> []" for rule
    using that tips_internal_bound(1) [OF v, of rule] by (auto simp: tips_normal_def tips_bundle_def)
  then have "unat reward + min (unat (ts_start rule)) (unat (ts_max s)) \<le> unat profit"
    if "ts_normal s = Some rule \<or> ts_bundle s = Some rule \<and> 0 < bundles \<or> ts_internal s = Some rule \<and> internals \<noteq> []" for rule
    using that unfolding p by (metis add_left_mono min.mono order_refl)
  moreover have "profit = reward"
    if "ts_normal s = None" "ts_bundle s = None \<or> bundles = 0" "ts_internal s = None \<or> internals = []"
  proof -
    have "v = 0" using v that(3) by (auto simp: tips_internal_def split: option.splits)
    moreover have "tips_bundle s bundles = 0" using that(2) by (auto simp: tips_bundle_def split: option.splits)
    ultimately show ?thesis using p that(1) by (simp add: tips_normal_def word_unat_eq_iff)
  qed
  ultimately show ?thesis using p by auto
qed

definition demo_rule :: "u256 \<Rightarrow> tips_strategy_rule" where
  "demo_rule v = \<lparr>ts_start = v, ts_num_increment = 3, ts_max_num_increment = 5, ts_blocks_increment = 2, ts_max_blocks_increment = 9\<rparr>"

definition demo_strategy :: tips_strategy where
  "demo_strategy = \<lparr>ts_max = 100, ts_bundle = Some (demo_rule 10), ts_internal = Some (demo_rule 20), ts_normal = None\<rparr>"

theorem tips_bounds_witness:
  "tips_strategy_get demo_strategy 1000 [4, 2] 1 = Some 1033 \<and> unat (1033 :: u256) \<le> unat (1000 :: u256) + unat (ts_max demo_strategy)"
proof -
  have run: "tips_strategy_get demo_strategy 1000 [4, 2] 1 = Some 1033" by code_simp
  show ?thesis using run tips_bounds [OF run] by blast
qed

end
