(* ===== verification/Executor.thy ===== *)
theory Executor
  imports Block_Types
begin

text \<open>
  The execution of one transaction: \<open>src/common/evm_executor/src/executor.rs\<close>.

  The state database (crate \<open>statedb\<close>) is a record of functions on a state type \<open>'s\<close>, as the trait
  \<open>StateDB\<close> has them: a method with a result returns the error or the value, and the state.  The EVM
  (crate \<open>evm\<close>), from \<open>transact_call\<close> or \<open>transact_create\<close> to \<open>deconstruct\<close>, is one function
  \<open>transact\<close>: it returns the exit reason, the gas used, the changes to apply and the logs.  Nothing is
  assumed about either; the theorems that need their documented behaviour name it: \<open>lawful_db\<close> and
  \<open>lawful_evm\<close>.

  An error of the database inside \<open>run\<close> is returned with \<open>?\<close>, or panics where the source has
  \<open>unwrap\<close>; arithmetic on \<open>SU256\<close> and \<open>SU64\<close> panics on overflow; arithmetic on \<open>u64\<close> wraps.
  Messages, the bloom filter and the type of the receipt are left out.
\<close>

section \<open>The database and the EVM\<close>

record ('s, 'e) statedb =
  sdb_get_balance :: "h160 \<Rightarrow> 's \<Rightarrow> ('e + u256) \<times> 's"
  sdb_get_nonce :: "h160 \<Rightarrow> 's \<Rightarrow> ('e + u64) \<times> 's"
  sdb_try_get_nonce :: "h160 \<Rightarrow> 's \<Rightarrow> u64 option"
  sdb_get_code :: "h160 \<Rightarrow> 's \<Rightarrow> ('e + u8 list) \<times> 's"
  sdb_add_balance :: "h160 \<Rightarrow> u256 \<Rightarrow> 's \<Rightarrow> ('e + unit) \<times> 's"
  sdb_sub_balance :: "h160 \<Rightarrow> u256 \<Rightarrow> 's \<Rightarrow> ('e + unit) \<times> 's"
  sdb_set_balance :: "h160 \<Rightarrow> u256 \<Rightarrow> 's \<Rightarrow> ('e + unit) \<times> 's"
  sdb_set_nonce :: "h160 \<Rightarrow> u64 \<Rightarrow> 's \<Rightarrow> ('e + unit) \<times> 's"
  sdb_set_code :: "h160 \<Rightarrow> u8 list \<Rightarrow> 's \<Rightarrow> ('e + unit) \<times> 's"
  sdb_set_state :: "h160 \<Rightarrow> h256 \<Rightarrow> h256 \<Rightarrow> 's \<Rightarrow> ('e + unit) \<times> 's"
  sdb_suicide :: "h160 \<Rightarrow> 's \<Rightarrow> ('e + unit) \<times> 's"
  sdb_prefetch :: "access_tuple list \<Rightarrow> 's \<Rightarrow> ('e + unit) \<times> 's"
  sdb_flush :: "'s \<Rightarrow> ('e + h256) \<times> 's"
  sdb_state_root :: "'s \<Rightarrow> h256"
  sdb_revert :: "h256 \<Rightarrow> 's \<Rightarrow> 's"

datatype exit_reason = Succeeded | FatalNotSupported | OtherExit

record evm_modify =
  em_address :: h160
  em_balance :: u256
  em_nonce :: u64
  em_code :: "u8 list option"
  em_storage :: "(h256 \<times> h256) list"
  em_reset_storage :: bool

datatype evm_change = Modify evm_modify | Delete h160

record evm_log =
  lg_address :: h160
  lg_topics :: "h256 list"
  lg_data :: "u8 list"

record evm_output =
  eo_reason :: exit_reason
  eo_data :: "u8 list"
  eo_used_gas :: u64
  eo_changes :: "evm_change list"
  eo_logs :: "evm_log list"

text \<open>The arguments of \<open>transact_call\<close> (with a recipient) and \<open>transact_create\<close>.\<close>

record evm_call =
  ec_caller :: h160
  ec_to :: "h160 option"
  ec_value :: u256
  ec_gas_limit :: u64
  ec_access_list :: "access_tuple list"

section \<open>The executor\<close>

record 'tx exec_context =
  cx_caller :: h160
  cx_tx :: "'tx pool_tx"
  cx_header :: block_header

datatype 'e execute_error =
    NotSupported
  | InsufficientFunds
  | InsufficientBaseFee h256 u64
  | ExecutePaymentTxFail string
  | NonceTooLow
  | NonceTooHigh u64 u64
  | StateError 'e

record exec_log =
  xl_log :: evm_log
  xl_transaction_hash :: h256
  xl_log_index :: nat

record execute_result =
  xr_success :: bool
  xr_used_gas :: u64
  xr_err :: "u8 list"
  xr_logs :: "exec_log list"

record receipt =
  r_status :: u64
  r_transaction_hash :: h256
  r_transaction_index :: u64
  r_gas_used :: u64
  r_cumulative_gas_used :: u64
  r_logs :: "exec_log list"

record ('tx, 's) executor =
  ex_ctx :: "'tx exec_context"
  ex_state :: 's
  ex_initial_gas :: u64
  ex_gas :: u64
  ex_gas_price :: u256

type_synonym ('tx, 's, 'e, 'a) exec = "('tx, 's) executor \<Rightarrow> ('e execute_error, 'a) outcome \<times> ('tx, 's) executor"

text \<open>A call of the database, with \<open>?\<close> and with \<open>unwrap\<close>.\<close>

definition on_db :: "('s \<Rightarrow> ('e + 'a) \<times> 's) \<Rightarrow> ('tx, 's, 'e, 'a) exec" where
  "on_db f x =
     (case f (ex_state x) of
        (Inl e, s) \<Rightarrow> (Err (StateError e), x\<lparr>ex_state := s\<rparr>)
      | (Inr v, s) \<Rightarrow> (Ok v, x\<lparr>ex_state := s\<rparr>))"

definition on_db_unwrap :: "('s \<Rightarrow> ('e + 'a) \<times> 's) \<Rightarrow> ('tx, 's, 'e, 'a) exec" where
  "on_db_unwrap f x =
     (case f (ex_state x) of
        (Inl e, s) \<Rightarrow> (Panic, x\<lparr>ex_state := s\<rparr>)
      | (Inr v, s) \<Rightarrow> (Ok v, x\<lparr>ex_state := s\<rparr>))"

definition executor_new :: "'tx tx_api \<Rightarrow> 'tx exec_context \<Rightarrow> 's \<Rightarrow> ('tx, 's) executor" where
  "executor_new A ctx state =
     \<lparr>ex_ctx = ctx, ex_state = state, ex_initial_gas = 0, ex_gas = 0,
      ex_gas_price = tx_gas_price A (ptx_tx (cx_tx ctx)) (Some (h_base_fee_per_gas (cx_header ctx)))\<rparr>"

definition check_nonce :: "'tx tx_api \<Rightarrow> ('s, 'e) statedb \<Rightarrow> bool \<Rightarrow> bool \<Rightarrow> ('tx, 's, 'e, unit) exec" where
  "check_nonce A D try_get dry_run x =
     (let caller = cx_caller (ex_ctx x);
          tx_nonce = tx_nonce A (ptx_tx (cx_tx (ex_ctx x)));
          compare = (\<lambda>nonce x.
            if nonce = tx_nonce then (Ok (), x)
            else if tx_nonce < nonce then (Err NonceTooLow, x)
            else if \<not> dry_run then (Err (NonceTooHigh nonce tx_nonce), x)
            else (Ok (), x))
      in if try_get
         then (case sdb_try_get_nonce D caller (ex_state x) of
                 Some nonce \<Rightarrow> compare nonce x
               | None \<Rightarrow> (Ok (), x))
         else and_then (on_db (sdb_get_nonce D caller)) compare x)"

definition buy_gas :: "'tx tx_api \<Rightarrow> ('s, 'e) statedb \<Rightarrow> bool \<Rightarrow> ('tx, 's, 'e, unit) exec" where
  "buy_gas A D dry_run x =
     (let tx = ptx_tx (cx_tx (ex_ctx x));
          caller = cx_caller (ex_ctx x);
          gas = ucast (tx_gas A tx)
      in and_then (or_panic (chk_mul gas (ex_gas_price x))) (\<lambda>mgval.
         and_then (or_panic (chk_mul gas (tx_max_fee_per_gas A tx))) (\<lambda>balance_check.
         and_then (or_panic (chk_add balance_check (tx_value A tx))) (\<lambda>balance_check.
         and_then (on_db (sdb_get_balance D caller)) (\<lambda>balance x.
           if balance < balance_check \<and> \<not> dry_run then (Err InsufficientFunds, x)
           else
             let mgval = (if balance < balance_check then balance else mgval);
                 x = x\<lparr>ex_gas := ex_gas x + tx_gas A tx, ex_initial_gas := ex_initial_gas x + tx_gas A tx\<rparr>
             in on_db (sdb_sub_balance D caller mgval) x)))) x)"

definition refund_gas :: "('s, 'e) statedb \<Rightarrow> ('tx, 's, 'e, unit) exec" where
  "refund_gas D x =
     and_then (or_panic (chk_mul (ucast (ex_gas x)) (ex_gas_price x)))
       (\<lambda>remaining. on_db (sdb_add_balance D (cx_caller (ex_ctx x)) remaining)) x"

text \<open>Applying one change of a successful transaction, and of a reverted one.\<close>

fun set_storage :: "('s, 'e) statedb \<Rightarrow> h160 \<Rightarrow> (h256 \<times> h256) list \<Rightarrow> ('tx, 's, 'e, unit) exec" where
  "set_storage D address [] x = (Ok (), x)"
| "set_storage D address ((index, v) # rest) x =
     and_then (on_db_unwrap (sdb_set_state D address index v)) (\<lambda>_. set_storage D address rest) x"

fun apply_change :: "('s, 'e) statedb \<Rightarrow> evm_change \<Rightarrow> ('tx, 's, 'e, unit) exec" where
  "apply_change D (Modify c) x =
     and_then (\<lambda>x. if em_reset_storage c then on_db_unwrap (sdb_suicide D (em_address c)) x else (Ok (), x)) (\<lambda>_.
     and_then (on_db_unwrap (sdb_set_balance D (em_address c) (em_balance c))) (\<lambda>_.
     and_then (on_db_unwrap (sdb_set_nonce D (em_address c) (em_nonce c))) (\<lambda>_.
     and_then (\<lambda>x. case em_code c of
                     Some code \<Rightarrow> on_db_unwrap (sdb_set_code D (em_address c) code) x
                   | None \<Rightarrow> (Ok (), x)) (\<lambda>_.
     set_storage D (em_address c) (em_storage c))))) x"
| "apply_change D (Delete address) x = on_db_unwrap (sdb_suicide D address) x"

fun apply_reverted :: "('s, 'e) statedb \<Rightarrow> evm_change \<Rightarrow> ('tx, 's, 'e, unit) exec" where
  "apply_reverted D (Modify c) x =
     (if em_address c = cx_caller (ex_ctx x) then on_db_unwrap (sdb_set_nonce D (em_address c) (em_nonce c)) x
      else (Ok (), x))"
| "apply_reverted D (Delete address) x = (Ok (), x)"

fun for_changes :: "(evm_change \<Rightarrow> ('tx, 's, 'e, unit) exec) \<Rightarrow> evm_change list \<Rightarrow> ('tx, 's, 'e, unit) exec" where
  "for_changes f [] x = (Ok (), x)"
| "for_changes f (c # cs) x = and_then (f c) (\<lambda>_. for_changes f cs) x"

definition execute_logs :: "evm_log list \<Rightarrow> exec_log list" where
  "execute_logs logs =
     map (\<lambda>(i, log). \<lparr>xl_log = log, xl_transaction_hash = 0, xl_log_index = i\<rparr>) (enumerate 0 logs)"

text \<open>The end of \<open>run\<close>, after the EVM: the changes, the fee of the miner and the refund.\<close>

definition run_finish ::
  "'tx tx_api \<Rightarrow> ('s, 'e) statedb \<Rightarrow> bool \<Rightarrow> u256 \<Rightarrow> evm_output \<Rightarrow> ('tx, 's, 'e, execute_result) exec" where
  "run_finish A D dry_run base_fee out x =
     (let tx = ptx_tx (cx_tx (ex_ctx x));
          success = (eo_reason out = Succeeded);
          result = \<lparr>xr_success = success, xr_used_gas = eo_used_gas out, xr_err = eo_data out,
                    xr_logs = execute_logs (eo_logs out)\<rparr>;
          x = x\<lparr>ex_gas := ex_gas x - eo_used_gas out\<rparr>
      in and_then (for_changes (if success \<or> dry_run then apply_change D else apply_reverted D) (eo_changes out)) (\<lambda>_.
         and_then (or_panic (chk_sub (tx_max_fee_per_gas A tx) base_fee)) (\<lambda>room.
         and_then (or_panic (chk_mul (ucast (eo_used_gas out)) (min (tx_max_priority_fee_per_gas A tx) room))) (\<lambda>fee.
         and_then (\<lambda>x. on_db (sdb_add_balance D (if dry_run then 0 else h_miner (cx_header (ex_ctx x))) fee) x) (\<lambda>_.
         and_then (refund_gas D) (\<lambda>_ x. (Ok result, x)))))) x)"

definition run_evm ::
  "'tx tx_api \<Rightarrow> ('s, 'e) statedb \<Rightarrow> ('tx exec_context \<Rightarrow> evm_call \<Rightarrow> 's \<Rightarrow> evm_output \<times> 's) \<Rightarrow> bool \<Rightarrow> u256
     \<Rightarrow> ('tx, 's, 'e, execute_result) exec" where
  "run_evm A D transact dry_run base_fee x =
     (let tx = ptx_tx (cx_tx (ex_ctx x));
          call = \<lparr>ec_caller = cx_caller (ex_ctx x), ec_to = tx_to A tx, ec_value = tx_value A tx,
                  ec_gas_limit = tx_gas A tx,
                  ec_access_list = (case tx_access_list A tx of Some al \<Rightarrow> al | None \<Rightarrow> [])\<rparr>;
          (out, s) = transact (ex_ctx x) call (ex_state x);
          x = x\<lparr>ex_state := s\<rparr>
      in if eo_reason out = FatalNotSupported
         then and_then (refund_gas D) (\<lambda>_ x. (Err NotSupported, x)) x
         else run_finish A D dry_run base_fee out x)"

definition executor_run ::
  "'tx tx_api \<Rightarrow> ('s, 'e) statedb \<Rightarrow> ('tx exec_context \<Rightarrow> evm_call \<Rightarrow> 's \<Rightarrow> evm_output \<times> 's) \<Rightarrow> bool
     \<Rightarrow> ('tx, 's, 'e, execute_result) exec" where
  "executor_run A D transact dry_run x =
     (let tx = ptx_tx (cx_tx (ex_ctx x));
          header = cx_header (ex_ctx x);
          base_fee = h_base_fee_per_gas header
      in and_then (check_nonce A D True dry_run) (\<lambda>_.
         and_then (\<lambda>x.
           if tx_max_fee_per_gas A tx < base_fee
           then if dry_run then (Ok 0, x)
                else (case tx_effective_gas_tip A tx None of
                        None \<Rightarrow> (Panic, x)
                      | Some _ \<Rightarrow> (Err (InsufficientBaseFee (ptx_hash (cx_tx (ex_ctx x))) (h_number header)), x))
           else (Ok base_fee, x)) (\<lambda>base_fee.
         and_then (on_db (sdb_prefetch D (ptx_access_list (cx_tx (ex_ctx x))))) (\<lambda>_.
         and_then (\<lambda>x. case tx_access_list A tx of
                         Some al \<Rightarrow> if al \<noteq> [] \<and> dry_run then on_db (sdb_prefetch D al) x else (Ok (), x)
                       | None \<Rightarrow> (Ok (), x)) (\<lambda>_.
         and_then (check_nonce A D False dry_run) (\<lambda>_.
         and_then (buy_gas A D dry_run) (\<lambda>_.
         run_evm A D transact dry_run base_fee)))))) x)"

definition executor_dry_run ::
  "'tx tx_api \<Rightarrow> ('s, 'e) statedb \<Rightarrow> ('tx exec_context \<Rightarrow> evm_call \<Rightarrow> 's \<Rightarrow> evm_output \<times> 's) \<Rightarrow> 'tx exec_context \<Rightarrow> 's
     \<Rightarrow> ('e execute_error, execute_result) outcome \<times> 's" where
  "executor_dry_run A D transact ctx state =
     (let (r, x) = executor_run A D transact True (executor_new A ctx state) in (r, ex_state x))"

definition executor_apply ::
  "'tx tx_api \<Rightarrow> ('s, 'e) statedb \<Rightarrow> ('tx exec_context \<Rightarrow> evm_call \<Rightarrow> 's \<Rightarrow> evm_output \<times> 's) \<Rightarrow> 'tx exec_context \<Rightarrow> 's \<Rightarrow> u64
     \<Rightarrow> ('e execute_error, receipt) outcome \<times> 's" where
  "executor_apply A D transact ctx state tx_idx =
     (let (r, x) = executor_run A D transact False (executor_new A ctx state)
      in case r of
           Err e \<Rightarrow> (Err e, ex_state x)
         | Panic \<Rightarrow> (Panic, ex_state x)
         | Ok result \<Rightarrow>
             (case chk_add (h_gas_used (cx_header ctx)) (xr_used_gas result) of
                None \<Rightarrow> (Panic, ex_state x)
              | Some cumulative \<Rightarrow>
                  (Ok \<lparr>r_status = (if xr_success result then 1 else 0),
                       r_transaction_hash = tx_hash A (ptx_tx (cx_tx ctx)), r_transaction_index = tx_idx,
                       r_gas_used = xr_used_gas result, r_cumulative_gas_used = cumulative,
                       r_logs = map (\<lambda>log. log\<lparr>xl_transaction_hash := ptx_hash (cx_tx ctx)\<rparr>) (xr_logs result)\<rparr>,
                   ex_state x)))"

section \<open>What the database and the EVM promise\<close>

text \<open>
  \<open>bal\<close> and \<open>non\<close> read the balances and nonces off a state.  Getters return them and do not change
  them (they may load accounts), the changes do what they say, and looking up a nonce without loading
  the account may find nothing.
\<close>

definition lawful_db ::
  "('s, 'e) statedb \<Rightarrow> ('s \<Rightarrow> h160 \<Rightarrow> u256) \<Rightarrow> ('s \<Rightarrow> h160 \<Rightarrow> u64) \<Rightarrow> bool" where
  "lawful_db D bal non \<longleftrightarrow>
     (\<forall>a s r s'. sdb_get_balance D a s = (r, s') \<longrightarrow> (\<forall>v. r = Inr v \<longrightarrow> v = bal s a) \<and> bal s' = bal s \<and> non s' = non s) \<and>
     (\<forall>a s r s'. sdb_get_nonce D a s = (r, s') \<longrightarrow> (\<forall>v. r = Inr v \<longrightarrow> v = non s a) \<and> bal s' = bal s \<and> non s' = non s) \<and>
     (\<forall>a s v. sdb_try_get_nonce D a s = Some v \<longrightarrow> v = non s a) \<and>
     (\<forall>al s r s'. sdb_prefetch D al s = (r, s') \<longrightarrow> bal s' = bal s \<and> non s' = non s) \<and>
     (\<forall>a v s s'. sdb_add_balance D a v s = (Inr (), s') \<longrightarrow> bal s' = (bal s)(a := bal s a + v) \<and> non s' = non s) \<and>
     (\<forall>a v s s'. sdb_sub_balance D a v s = (Inr (), s') \<longrightarrow> bal s' = (bal s)(a := bal s a - v) \<and> non s' = non s) \<and>
     (\<forall>a v s s'. sdb_set_balance D a v s = (Inr (), s') \<longrightarrow> bal s' = (bal s)(a := v)) \<and>
     (\<forall>a n s s'. sdb_set_nonce D a n s = (Inr (), s') \<longrightarrow> bal s' = bal s) \<and>
     (\<forall>a c s s'. sdb_set_code D a c s = (Inr (), s') \<longrightarrow> bal s' = bal s) \<and>
     (\<forall>a k v s s'. sdb_set_state D a k v s = (Inr (), s') \<longrightarrow> bal s' = bal s) \<and>
     (\<forall>a s s'. sdb_suicide D a s = (Inr (), s') \<longrightarrow> bal s' = (bal s)(a := 0))"

text \<open>The EVM reads the state but returns its changes, and uses at most the gas it is given.\<close>

definition lawful_evm ::
  "('tx exec_context \<Rightarrow> evm_call \<Rightarrow> 's \<Rightarrow> evm_output \<times> 's) \<Rightarrow> ('s \<Rightarrow> h160 \<Rightarrow> u256) \<Rightarrow> ('s \<Rightarrow> h160 \<Rightarrow> u64) \<Rightarrow> bool" where
  "lawful_evm transact bal non \<longleftrightarrow>
     (\<forall>ctx call s out s'. transact ctx call s = (out, s') \<longrightarrow>
        bal s' = bal s \<and> non s' = non s \<and> eo_used_gas out \<le> ec_gas_limit call)"

lemma lawful_dbD:
  assumes "lawful_db D bal non"
  shows "sdb_get_balance D a s = (r, s') \<Longrightarrow> (\<forall>v. r = Inr v \<longrightarrow> v = bal s a) \<and> bal s' = bal s \<and> non s' = non s"
    and "sdb_get_nonce D a s = (r', s') \<Longrightarrow> (\<forall>v. r' = Inr v \<longrightarrow> v = non s a) \<and> bal s' = bal s \<and> non s' = non s"
    and "sdb_try_get_nonce D a s = Some n \<Longrightarrow> n = non s a"
    and "sdb_prefetch D al s = (u, s') \<Longrightarrow> bal s' = bal s \<and> non s' = non s"
    and "sdb_add_balance D a v s = (Inr (), s') \<Longrightarrow> bal s' = (bal s)(a := bal s a + v) \<and> non s' = non s"
    and "sdb_sub_balance D a v s = (Inr (), s') \<Longrightarrow> bal s' = (bal s)(a := bal s a - v) \<and> non s' = non s"
    and "sdb_set_nonce D a n s = (Inr (), s') \<Longrightarrow> bal s' = bal s"
    and "sdb_set_balance D a v s = (Inr (), s') \<Longrightarrow> bal s' = (bal s)(a := v)"
    and "sdb_set_code D a c s = (Inr (), s') \<Longrightarrow> bal s' = bal s"
    and "sdb_set_state D a k w s = (Inr (), s') \<Longrightarrow> bal s' = bal s"
    and "sdb_suicide D a s = (Inr (), s') \<Longrightarrow> bal s' = (bal s)(a := 0)"
  using assms unfolding lawful_db_def by (elim conjE; simp)+

section \<open>The steps of an execution\<close>

text \<open>Two executors that differ in the database only, with the same balances and nonces.\<close>

definition same_accounts ::
  "('s \<Rightarrow> h160 \<Rightarrow> u256) \<Rightarrow> ('s \<Rightarrow> h160 \<Rightarrow> u64) \<Rightarrow> ('tx, 's) executor \<Rightarrow> ('tx, 's) executor \<Rightarrow> bool" where
  "same_accounts bal non x x' \<longleftrightarrow>
     (\<exists>s. x' = x\<lparr>ex_state := s\<rparr> \<and> bal s = bal (ex_state x) \<and> non s = non (ex_state x))"

lemma same_accounts_refl [simp]: "same_accounts bal non x x"
  by (auto simp: same_accounts_def intro: exI [of _ "ex_state x"])

lemma same_accounts_trans:
  "same_accounts bal non x y \<Longrightarrow> same_accounts bal non y z \<Longrightarrow> same_accounts bal non x z"
  by (auto simp: same_accounts_def)

lemma same_accountsD:
  "same_accounts bal non x x' \<Longrightarrow> ex_ctx x' = ex_ctx x \<and> ex_gas x' = ex_gas x \<and> ex_gas_price x' = ex_gas_price x \<and>
     bal (ex_state x') = bal (ex_state x) \<and> non (ex_state x') = non (ex_state x)"
  by (auto simp: same_accounts_def)

lemma on_db_same:
  assumes "on_db f x = (r, x')" and "\<And>v s'. f (ex_state x) = (v, s') \<Longrightarrow> bal s' = bal (ex_state x) \<and> non s' = non (ex_state x)"
  shows "same_accounts bal non x x'"
  using assms by (auto simp: on_db_def same_accounts_def split: prod.splits sum.splits)

lemma on_db_Ok: "on_db f x = (Ok v, x') \<longleftrightarrow> (\<exists>s. f (ex_state x) = (Inr v, s) \<and> x' = x\<lparr>ex_state := s\<rparr>)"
  by (auto simp: on_db_def split: prod.splits sum.splits)

lemma on_db_Err: "on_db f x = (Err e, x') \<longleftrightarrow> (\<exists>d s. f (ex_state x) = (Inl d, s) \<and> e = StateError d \<and> x' = x\<lparr>ex_state := s\<rparr>)"
  by (auto simp: on_db_def split: prod.splits sum.splits)

lemma check_nonce_same:
  assumes "lawful_db D bal non" and "check_nonce A D try_get dry x = (r, x')"
  shows "same_accounts bal non x x'"
    and "r = Ok () \<Longrightarrow> \<not> try_get \<Longrightarrow> \<not> dry \<Longrightarrow> non (ex_state x) (cx_caller (ex_ctx x)) = tx_nonce A (ptx_tx (cx_tx (ex_ctx x)))"
proof -
  show "same_accounts bal non x x'"
  proof (cases try_get)
    case True
    with assms(2) have "x' = x" by (auto simp: check_nonce_def Let_def split: option.splits if_splits)
    then show ?thesis by simp
  next
    case False
    obtain v y where g: "on_db (sdb_get_nonce D (cx_caller (ex_ctx x))) x = (v, y)" by fastforce
    have "same_accounts bal non x y" by (rule on_db_same [OF g]) (use lawful_dbD(2) [OF assms(1)] in blast)
    moreover have "x' = y" using assms(2) g False by (auto simp: check_nonce_def Let_def and_then_def split: outcome.splits if_splits)
    ultimately show ?thesis by simp
  qed
  show "r = Ok () \<Longrightarrow> \<not> try_get \<Longrightarrow> \<not> dry \<Longrightarrow> non (ex_state x) (cx_caller (ex_ctx x)) = tx_nonce A (ptx_tx (cx_tx (ex_ctx x)))"
    using assms(2) lawful_dbD(2) [OF assms(1)] by (auto simp: check_nonce_def Let_def and_then_Ok on_db_Ok split: if_splits)
qed

lemma buy_gas_Ok:
  assumes D: "lawful_db D bal non" and run: "buy_gas A D False x = (Ok u, x')" and gas0: "ex_gas x = 0"
  defines "tx \<equiv> ptx_tx (cx_tx (ex_ctx x))" and "c \<equiv> cx_caller (ex_ctx x)"
  shows "ex_ctx x' = ex_ctx x" "ex_gas x' = tx_gas A tx" "ex_gas_price x' = ex_gas_price x" "non (ex_state x') = non (ex_state x)"
    and "bal (ex_state x') = (bal (ex_state x))(c := bal (ex_state x) c - ucast (tx_gas A tx) * ex_gas_price x)"
    and "unat (tx_gas A tx) * unat (tx_max_fee_per_gas A tx) + unat (tx_value A tx) \<le> unat (bal (ex_state x) c)"
proof -
  obtain mg bc1 bc b s1 s2 where mg: "chk_mul (ucast (tx_gas A tx)) (ex_gas_price x) = Some mg"
    and bc1: "chk_mul (ucast (tx_gas A tx)) (tx_max_fee_per_gas A tx) = Some bc1" and bc: "chk_add bc1 (tx_value A tx) = Some bc"
    and g: "sdb_get_balance D c (ex_state x) = (Inr b, s1)" and le: "\<not> b < bc"
    and s: "sdb_sub_balance D c mg s1 = (Inr (), s2)"
    and x': "x' = x\<lparr>ex_state := s2, ex_gas := ex_gas x + tx_gas A tx, ex_initial_gas := ex_initial_gas x + tx_gas A tx\<rparr>"
    using run unfolding buy_gas_def Let_def and_then_Ok or_panic_Ok on_db_Ok tx_def [symmetric] c_def [symmetric]
    by (auto simp: on_db_Ok split: if_splits)
  have b: "b = bal (ex_state x) c" "bal s1 = bal (ex_state x)" "non s1 = non (ex_state x)"
    using lawful_dbD(1) [OF D g] by auto
  have "mg = ucast (tx_gas A tx) * ex_gas_price x" using mg by (simp add: chk_mul_def split: if_splits)
  with lawful_dbD(6) [OF D s] b x' gas0
  show "ex_ctx x' = ex_ctx x" "ex_gas x' = tx_gas A tx" "ex_gas_price x' = ex_gas_price x" "non (ex_state x') = non (ex_state x)"
    and "bal (ex_state x') = (bal (ex_state x))(c := bal (ex_state x) c - ucast (tx_gas A tx) * ex_gas_price x)" by simp_all
  show "unat (tx_gas A tx) * unat (tx_max_fee_per_gas A tx) + unat (tx_value A tx) \<le> unat (bal (ex_state x) c)"
    using bc1 bc le b(1) by (simp add: chk_simps word_less_nat_alt)
qed

lemma on_db_unwrap_Ok: "on_db_unwrap f x = (Ok v, x') \<longleftrightarrow> (\<exists>s. f (ex_state x) = (Inr v, s) \<and> x' = x\<lparr>ex_state := s\<rparr>)"
  by (auto simp: on_db_unwrap_def split: prod.splits sum.splits)

text \<open>The balances after a change of the EVM.\<close>

fun change_balance :: "evm_change \<Rightarrow> (h160 \<Rightarrow> u256) \<Rightarrow> h160 \<Rightarrow> u256" where
  "change_balance (Modify m) b = b(em_address m := em_balance m)"
| "change_balance (Delete a) b = b(a := 0)"

lemma set_storage_frame:
  assumes "lawful_db D bal non"
  shows "set_storage D a kvs x = (Ok u, x') \<Longrightarrow> \<exists>s. x' = x\<lparr>ex_state := s\<rparr> \<and> bal s = bal (ex_state x)"
proof (induction kvs arbitrary: x)
  case Nil
  then show ?case by (auto intro: exI [of _ "ex_state x"])
next
  case (Cons kv kvs)
  obtain k v where "kv = (k, v)" by fastforce
  with Cons.prems obtain s where s: "sdb_set_state D a k v (ex_state x) = (Inr (), s)"
    "set_storage D a kvs (x\<lparr>ex_state := s\<rparr>) = (Ok u, x')" by (auto simp: and_then_Ok on_db_unwrap_Ok)
  with Cons.IH [OF s(2)] lawful_dbD(10) [OF assms s(1)] show ?case by auto
qed

lemma apply_change_balance:
  assumes D: "lawful_db D bal non" and run: "apply_change D c x = (Ok u, x')"
  shows "\<exists>s. x' = x\<lparr>ex_state := s\<rparr> \<and> bal s = change_balance c (bal (ex_state x))"
proof (cases c)
  case (Delete a)
  with run lawful_dbD(11) [OF D] show ?thesis by (auto simp: on_db_unwrap_Ok)
next
  case (Modify m)
  let ?a = "em_address m"
  obtain x1 s2 s3 x4 where 1: "(if em_reset_storage m then on_db_unwrap (sdb_suicide D ?a) x else (Ok (), x)) = (Ok (), x1)"
    and 2: "sdb_set_balance D ?a (em_balance m) (ex_state x1) = (Inr (), s2)"
    and 3: "sdb_set_nonce D ?a (em_nonce m) s2 = (Inr (), s3)"
    and 4: "(case em_code m of Some code \<Rightarrow> on_db_unwrap (sdb_set_code D ?a code) (x1\<lparr>ex_state := s2, ex_state := s3\<rparr>)
      | None \<Rightarrow> (Ok (), x1\<lparr>ex_state := s2, ex_state := s3\<rparr>)) = (Ok (), x4)"
    and 5: "set_storage D ?a (em_storage m) x4 = (Ok u, x')"
    using run Modify by (auto simp: and_then_Ok on_db_unwrap_Ok)
  have x1: "\<exists>s. x1 = x\<lparr>ex_state := s\<rparr> \<and> (\<forall>b. b \<noteq> ?a \<longrightarrow> bal s b = bal (ex_state x) b)"
    using 1 lawful_dbD(11) [OF D] by (auto simp: on_db_unwrap_Ok intro: exI [of _ "ex_state x"] split: if_splits)
  have x4: "\<exists>s. x4 = x1\<lparr>ex_state := s\<rparr> \<and> bal s = bal s3"
    using 4 lawful_dbD(9) [OF D] by (auto simp: on_db_unwrap_Ok split: option.splits)
  have "bal s3 = (bal (ex_state x1))(?a := em_balance m)"
    using lawful_dbD(8) [OF D 2] lawful_dbD(7) [OF D 3] by simp
  with x1 have "bal s3 = (bal (ex_state x))(?a := em_balance m)" by (auto simp: fun_eq_iff)
  with x1 x4 set_storage_frame [OF D 5] Modify show ?thesis by auto
qed

text \<open>Reverted changes touch nonces only.\<close>

lemma apply_reverted_frame:
  assumes "lawful_db D bal non" and "apply_reverted D c x = (Ok u, x')"
  shows "\<exists>s. x' = x\<lparr>ex_state := s\<rparr> \<and> bal s = bal (ex_state x)"
proof (cases c)
  case (Modify m)
  with assms(2) lawful_dbD(7) [OF assms(1)] show ?thesis
    by (fastforce simp: on_db_unwrap_Ok intro: exI [of _ "ex_state x"] split: if_splits)
next
  case (Delete a)
  with assms(2) show ?thesis by (auto intro: exI [of _ "ex_state x"])
qed

lemma for_changes_balance:
  assumes "\<And>c x x'. f c x = (Ok (), x') \<Longrightarrow> \<exists>s. x' = x\<lparr>ex_state := s\<rparr> \<and> bal s = g c (bal (ex_state x))"
  shows "for_changes f cs x = (Ok (), x') \<Longrightarrow> \<exists>s. x' = x\<lparr>ex_state := s\<rparr> \<and> bal s = fold g cs (bal (ex_state x))"
proof (induction cs arbitrary: x)
  case Nil
  then show ?case by (auto intro: exI [of _ "ex_state x"])
next
  case (Cons c cs)
  then obtain y where "f c x = (Ok (), y)" "for_changes f cs y = (Ok (), x')"
    by (auto simp: and_then_Ok)
  with assms Cons.IH [of y] show ?case by fastforce
qed

text \<open>The balances after the changes of a transaction.\<close>

definition changed_balances :: "evm_output \<Rightarrow> (h160 \<Rightarrow> u256) \<Rightarrow> h160 \<Rightarrow> u256" where
  "changed_balances out b = (if eo_reason out = Succeeded then fold change_balance (eo_changes out) b else b)"

lemma for_changes_balances:
  assumes "lawful_db D bal non"
    and "for_changes (if eo_reason out = Succeeded \<or> False then apply_change D else apply_reverted D) (eo_changes out) x = (Ok (), x')"
  shows "\<exists>s. x' = x\<lparr>ex_state := s\<rparr> \<and> bal s = changed_balances out (bal (ex_state x))"
proof -
  have "fold (\<lambda>c b. b) cs b = b" for cs :: "evm_change list" and b :: "h160 \<Rightarrow> u256" by (induction cs) auto
  with for_changes_balance [where g = "\<lambda>c b. b", OF apply_reverted_frame [OF assms(1)]]
    for_changes_balance [where g = change_balance, OF apply_change_balance [OF assms(1)]] assms(2)
  show ?thesis by (auto simp: changed_balances_def split: if_splits)
qed

lemma refund_gas_Ok:
  assumes "lawful_db D bal non" and "refund_gas D x = (Ok u, x')"
  shows "ex_ctx x' = ex_ctx x" "non (ex_state x') = non (ex_state x)"
    and "bal (ex_state x') = (bal (ex_state x))(cx_caller (ex_ctx x) :=
      bal (ex_state x) (cx_caller (ex_ctx x)) + ucast (ex_gas x) * ex_gas_price x)"
proof -
  obtain v s where v: "chk_mul (ucast (ex_gas x)) (ex_gas_price x) = Some v"
    and s: "sdb_add_balance D (cx_caller (ex_ctx x)) v (ex_state x) = (Inr (), s)" and x': "x' = x\<lparr>ex_state := s\<rparr>"
    using assms(2) by (auto simp: refund_gas_def and_then_Ok on_db_Ok)
  have "v = ucast (ex_gas x) * ex_gas_price x" using v by (simp add: chk_mul_def split: if_splits)
  with lawful_dbD(5) [OF assms(1) s] x'
  show "ex_ctx x' = ex_ctx x" "non (ex_state x') = non (ex_state x)"
    and "bal (ex_state x') = (bal (ex_state x))(cx_caller (ex_ctx x) :=
      bal (ex_state x) (cx_caller (ex_ctx x)) + ucast (ex_gas x) * ex_gas_price x)" by simp_all
qed

text \<open>The end of a transaction: the tip for the miner and the unused gas for the caller.\<close>

lemma run_finish_Ok:
  assumes D: "lawful_db D bal non" and run: "run_finish A D False base_fee out x = (Ok res, x')"
  defines "tx \<equiv> ptx_tx (cx_tx (ex_ctx x))" and "c \<equiv> cx_caller (ex_ctx x)" and "m \<equiv> h_miner (cx_header (ex_ctx x))"
    and "b0 \<equiv> changed_balances out (bal (ex_state x))"
  defines "b1 \<equiv> b0(m := b0 m + ucast (eo_used_gas out) * min (tx_max_priority_fee_per_gas A tx) (tx_max_fee_per_gas A tx - base_fee))"
  shows "bal (ex_state x') = b1(c := b1 c + ucast (ex_gas x - eo_used_gas out) * ex_gas_price x)"
    and "xr_success res = (eo_reason out = Succeeded)" and "xr_used_gas res = eo_used_gas out"
proof -
  define x1 where "x1 = x\<lparr>ex_gas := ex_gas x - eo_used_gas out\<rparr>"
  obtain x2 room fee s3 x3
    where ch: "for_changes (if eo_reason out = Succeeded \<or> False then apply_change D else apply_reverted D) (eo_changes out) x1 = (Ok (), x2)"
    and room: "chk_sub (tx_max_fee_per_gas A tx) base_fee = Some room"
    and fee: "chk_mul (ucast (eo_used_gas out)) (min (tx_max_priority_fee_per_gas A tx) room) = Some fee"
    and add: "sdb_add_balance D (h_miner (cx_header (ex_ctx x2))) fee (ex_state x2) = (Inr (), s3)"
    and ref: "refund_gas D (x2\<lparr>ex_state := s3\<rparr>) = (Ok (), x')"
    and res: "res = \<lparr>xr_success = (eo_reason out = Succeeded), xr_used_gas = eo_used_gas out, xr_err = eo_data out, xr_logs = execute_logs (eo_logs out)\<rparr>"
    using run unfolding run_finish_def Let_def and_then_Ok or_panic_Ok x1_def [symmetric] tx_def [symmetric]
    by (auto simp: on_db_Ok)
  obtain s2 where x2: "x2 = x1\<lparr>ex_state := s2\<rparr>" "bal s2 = b0"
    using for_changes_balances [OF D ch] by (auto simp: b0_def x1_def)
  have room': "room = tx_max_fee_per_gas A tx - base_fee" using room by (auto simp: chk_sub_def split: if_splits)
  have fee': "fee = ucast (eo_used_gas out) * min (tx_max_priority_fee_per_gas A tx) room"
    using fee by (simp add: chk_mul_def split: if_splits)
  have "bal s3 = b1" using lawful_dbD(5) [OF D add] x2 by (simp add: x1_def b1_def m_def fee' room')
  with refund_gas_Ok(3) [OF D ref] x2
  show "bal (ex_state x') = b1(c := b1 c + ucast (ex_gas x - eo_used_gas out) * ex_gas_price x)" by (simp add: x1_def c_def)
  show "xr_success res = (eo_reason out = Succeeded)" "xr_used_gas res = eo_used_gas out" using res by simp_all
qed

lemma and_then_assoc: "and_then (and_then m f) g = and_then m (\<lambda>a. and_then (f a) g)"
  by (auto simp: and_then_def fun_eq_iff split: prod.splits outcome.splits)

lemma and_then_return: "and_then (\<lambda>x. (Ok a, x)) f = f a"
  by (auto simp: and_then_def fun_eq_iff)

text \<open>The steps before the gas is bought leave the accounts alone.\<close>

definition run_checks ::
  "'tx tx_api \<Rightarrow> ('s, 'e) statedb \<Rightarrow> 'tx exec_context \<Rightarrow> ('tx, 's, 'e, u256) exec" where
  "run_checks A D ctx =
     (let tx = ptx_tx (cx_tx ctx);
          header = cx_header ctx
      in and_then (check_nonce A D True False) (\<lambda>_.
         and_then (\<lambda>x.
           if tx_max_fee_per_gas A tx < h_base_fee_per_gas header
           then (case tx_effective_gas_tip A tx None of
                   None \<Rightarrow> (Panic, x)
                 | Some _ \<Rightarrow> (Err (InsufficientBaseFee (ptx_hash (cx_tx (ex_ctx x))) (h_number header)), x))
           else (Ok (h_base_fee_per_gas header), x)) (\<lambda>base_fee.
         and_then (on_db (sdb_prefetch D (ptx_access_list (cx_tx ctx)))) (\<lambda>_.
         and_then (check_nonce A D False False) (\<lambda>_ x. (Ok base_fee, x))))))"

lemma no_prefetch:
  "(\<lambda>y. case v of None \<Rightarrow> (Ok (), y) | Some al \<Rightarrow> if al \<noteq> [] \<and> False then f al y else (Ok (), y)) = (\<lambda>y. (Ok (), y))"
  by (rule ext) (cases v; simp)

lemma executor_run_checks:
  "executor_run A D transact False x =
     and_then (run_checks A D (ex_ctx x)) (\<lambda>base_fee. and_then (buy_gas A D False) (\<lambda>_. run_evm A D transact False base_fee)) x"
  unfolding executor_run_def run_checks_def Let_def no_prefetch if_False and_then_assoc and_then_return by (rule refl)

lemma prefetch_same:
  "lawful_db D bal non \<Longrightarrow> on_db (sdb_prefetch D al) x = (r, x') \<Longrightarrow> same_accounts bal non x x'"
  by (erule on_db_same) (blast dest: lawful_dbD(4))

lemma run_checks_same:
  assumes D: "lawful_db D bal non" and run: "run_checks A D (ex_ctx x) x = (r, x')"
  shows "same_accounts bal non x x'"
proof -
  have "check_nonce A D g d y = (v, y') \<Longrightarrow> same_accounts bal non y y'" for g d y v y'
    by (rule check_nonce_same(1) [OF D])
  with run prefetch_same [OF D] show ?thesis
    by (auto simp: run_checks_def Let_def and_then_def split: prod.splits outcome.splits option.splits if_splits)
      (blast intro: same_accounts_trans)+
qed

lemma run_checks_Ok:
  assumes D: "lawful_db D bal non" and run: "run_checks A D (ex_ctx x) x = (Ok v, x')"
  defines "tx \<equiv> ptx_tx (cx_tx (ex_ctx x))"
  shows "v = h_base_fee_per_gas (cx_header (ex_ctx x))" "v \<le> tx_max_fee_per_gas A tx"
    and "non (ex_state x) (cx_caller (ex_ctx x)) = tx_nonce A tx"
proof -
  obtain x1 x2 where 1: "check_nonce A D True False x = (Ok (), x1)"
    and v: "v = h_base_fee_per_gas (cx_header (ex_ctx x))" "v \<le> tx_max_fee_per_gas A tx"
    and 2: "on_db (sdb_prefetch D (ptx_access_list (cx_tx (ex_ctx x)))) x1 = (Ok (), x2)"
    and 3: "check_nonce A D False False x2 = (Ok (), x')"
    using run by (auto simp: run_checks_def Let_def and_then_Ok tx_def split: if_splits option.splits)
  show "v = h_base_fee_per_gas (cx_header (ex_ctx x))" "v \<le> tx_max_fee_per_gas A tx" by fact+
  have "same_accounts bal non x x2"
    using check_nonce_same(1) [OF D 1] prefetch_same [OF D 2] by (rule same_accounts_trans)
  with check_nonce_same(2) [OF D 3] show "non (ex_state x) (cx_caller (ex_ctx x)) = tx_nonce A tx"
    by (simp add: tx_def same_accountsD)
qed

section \<open>The accounts after a transaction\<close>

text \<open>A run that reaches the EVM: what it starts from and how it ends.\<close>

lemma executor_run_Ok:
  assumes D: "lawful_db D bal non" and run: "executor_run A D transact False (executor_new A ctx s) = (Ok res, x')"
  defines "tx \<equiv> ptx_tx (cx_tx ctx)" and "c \<equiv> cx_caller ctx" and "base \<equiv> h_base_fee_per_gas (cx_header ctx)"
  obtains x1 x2 where "same_accounts bal non (executor_new A ctx s) x1" and "non s c = tx_nonce A tx"
    and "base \<le> tx_max_fee_per_gas A tx" and "buy_gas A D False x1 = (Ok (), x2)"
    and "run_evm A D transact False base x2 = (Ok res, x')"
proof -
  let ?x = "executor_new A ctx s"
  have [simp]: "ex_ctx ?x = ctx" "ex_state ?x = s" by (simp_all add: executor_new_def)
  obtain v x1 x2 where r: "run_checks A D (ex_ctx ?x) ?x = (Ok v, x1)" "buy_gas A D False x1 = (Ok (), x2)"
    "run_evm A D transact False v x2 = (Ok res, x')"
    using run by (auto simp: executor_run_checks and_then_Ok)
  from that [OF run_checks_same [OF D r(1)] _ _ r(2)] r(3) run_checks_Ok [OF D r(1)] show thesis
    by (simp add: tx_def c_def base_def)
qed

lemma unat_sub_mult:
  assumes "b = a - ucast (u :: u64) * (p :: u256)" and "unat u * unat p \<le> unat a"
  shows "unat b + unat u * unat p = unat a"
proof -
  have "unat a < 2 ^ 256" using unsigned_less [of a] by simp
  with assms(2) have "unat u * unat p < 2 ^ 256" by simp
  then have "unat (ucast u * p :: u256) = unat u * unat p" by (simp add: unat_word_ariths)
  with assms show ?thesis by (simp add: unat_sub word_le_nat_alt)
qed

lemma ucast_diff_u256: "(b :: u64) \<le> a \<Longrightarrow> (ucast (a - b) :: u256) = ucast a - ucast b"
  by (rule word_unat_eq_iff [THEN iffD2]) (simp add: unat_sub_if' word_le_nat_alt)

lemma run_evm_Ok:
  assumes D: "lawful_db D bal non" and E: "lawful_evm transact bal non"
    and run: "run_evm A D transact False base x = (Ok res, x')"
  defines "tx \<equiv> ptx_tx (cx_tx (ex_ctx x))" and "c \<equiv> cx_caller (ex_ctx x)" and "m \<equiv> h_miner (cx_header (ex_ctx x))"
  obtains call out s2 b0 b1 where "transact (ex_ctx x) call (ex_state x) = (out, s2)"
    and "ec_caller call = c" and "ec_gas_limit call = tx_gas A tx" and "ec_value call = tx_value A tx"
    and "ec_to call = tx_to A tx"
    and "xr_success res = (eo_reason out = Succeeded)" and "xr_used_gas res = eo_used_gas out" and "eo_used_gas out \<le> tx_gas A tx"
    and "b0 = changed_balances out (bal (ex_state x))"
    and "b1 = b0(m := b0 m + ucast (eo_used_gas out) * min (tx_max_priority_fee_per_gas A tx) (tx_max_fee_per_gas A tx - base))"
    and "bal (ex_state x') = b1(c := b1 c + ucast (ex_gas x - eo_used_gas out) * ex_gas_price x)"
proof -
  let ?call = "\<lparr>ec_caller = c, ec_to = tx_to A tx, ec_value = tx_value A tx, ec_gas_limit = tx_gas A tx,
    ec_access_list = (case tx_access_list A tx of Some al \<Rightarrow> al | None \<Rightarrow> [])\<rparr>"
  obtain out s2 where t: "transact (ex_ctx x) ?call (ex_state x) = (out, s2)" by fastforce
  have l: "bal s2 = bal (ex_state x)" "eo_used_gas out \<le> tx_gas A tx" using E t unfolding lawful_evm_def by fastforce+
  have f: "run_finish A D False base out (x\<lparr>ex_state := s2\<rparr>) = (Ok res, x')"
    using run t by (auto simp: run_evm_def Let_def and_then_Ok tx_def c_def split: if_splits)
  show thesis
    by (rule that [OF t _ _ _ _ run_finish_Ok(2,3) [OF D f] l(2) refl refl]) (use run_finish_Ok(1) [OF D f] l(1) in \<open>simp_all add: c_def m_def tx_def\<close>)
qed

lemma executor_apply_Ok:
  assumes "executor_apply A D transact ctx s i = (Ok r, s')"
  obtains res x' where "executor_run A D transact False (executor_new A ctx s) = (Ok res, x')" "s' = ex_state x'"
    and "r_status r = (if xr_success res then 1 else 0)" "r_gas_used r = xr_used_gas res" "r_transaction_index r = i"
    and "r_transaction_hash r = tx_hash A (ptx_tx (cx_tx ctx))"
    and "unat (r_cumulative_gas_used r) = unat (h_gas_used (cx_header ctx)) + unat (r_gas_used r)"
proof -
  obtain u x' where run: "executor_run A D transact False (executor_new A ctx s) = (u, x')" by fastforce
  with assms obtain res where "u = Ok res" by (cases u) (auto simp: executor_apply_def)
  with assms run that [of res x'] show thesis
    by (auto simp: executor_apply_def chk_simps split: option.splits)
qed

lemma executor_apply_accounts:
  assumes D: "lawful_db D bal non" and E: "lawful_evm transact bal non"
    and run: "executor_apply A D transact ctx s i = (Ok r, s')"
  defines "tx \<equiv> ptx_tx (cx_tx ctx)" and "c \<equiv> cx_caller ctx" and "m \<equiv> h_miner (cx_header ctx)"
    and "base \<equiv> h_base_fee_per_gas (cx_header ctx)"
  defines "price \<equiv> tx_gas_price A tx (Some base)"
  obtains call out s1 s2 b0 b1 where
    "non s c = tx_nonce A tx" "base \<le> tx_max_fee_per_gas A tx"
    "unat (tx_gas A tx) * unat (tx_max_fee_per_gas A tx) + unat (tx_value A tx) \<le> unat (bal s c)"
    "non s1 = non s" "bal s1 = (bal s)(c := bal s c - ucast (tx_gas A tx) * price)"
    "transact ctx call s1 = (out, s2)" "ec_caller call = c" "ec_to call = tx_to A tx" "ec_value call = tx_value A tx"
    "ec_gas_limit call = tx_gas A tx" "r_gas_used r = eo_used_gas out" "r_gas_used r \<le> tx_gas A tx"
    "r_status r = (if eo_reason out = Succeeded then 1 else 0)" "r_transaction_index r = i"
    "unat (r_cumulative_gas_used r) = unat (h_gas_used (cx_header ctx)) + unat (r_gas_used r)"
    "b0 = changed_balances out (bal s1)"
    "b1 = b0(m := b0 m + ucast (r_gas_used r) * min (tx_max_priority_fee_per_gas A tx) (tx_max_fee_per_gas A tx - base))"
    "bal s' = b1(c := b1 c + ucast (tx_gas A tx - r_gas_used r) * price)"
proof -
  obtain res x' where x: "executor_run A D transact False (executor_new A ctx s) = (Ok res, x')" "s' = ex_state x'"
    and r: "r_status r = (if xr_success res then 1 else 0)" "r_gas_used r = xr_used_gas res" "r_transaction_index r = i"
      "unat (r_cumulative_gas_used r) = unat (h_gas_used (cx_header ctx)) + unat (r_gas_used r)"
    using run by (rule executor_apply_Ok)
  obtain x1 x2 where same: "same_accounts bal non (executor_new A ctx s) x1" and n: "non s c = tx_nonce A tx"
    and b: "base \<le> tx_max_fee_per_gas A tx" and buy: "buy_gas A D False x1 = (Ok (), x2)"
    and evm: "run_evm A D transact False base x2 = (Ok res, x')"
    using executor_run_Ok [OF D x(1)] unfolding tx_def c_def base_def by blast
  have x1: "ex_ctx x1 = ctx" "ex_gas x1 = 0" "ex_gas_price x1 = price" "bal (ex_state x1) = bal s" "non (ex_state x1) = non s"
    using same_accountsD [OF same] by (simp_all add: executor_new_def price_def tx_def base_def)
  note g = buy_gas_Ok [OF D buy x1(2), unfolded x1, folded tx_def c_def]
  show thesis
  proof (rule run_evm_Ok [OF D E evm, unfolded g(1,2,3), folded tx_def c_def m_def])
    fix call out s2 b0 b1
    assume t: "transact ctx call (ex_state x2) = (out, s2)"
      and call: "ec_caller call = c" "ec_gas_limit call = tx_gas A tx" "ec_value call = tx_value A tx" "ec_to call = tx_to A tx"
      and res: "xr_success res = (eo_reason out = Succeeded)" "xr_used_gas res = eo_used_gas out" "eo_used_gas out \<le> tx_gas A tx"
      and b0: "b0 = changed_balances out (bal (ex_state x2))"
      and b1: "b1 = b0(m := b0 m + ucast (eo_used_gas out) * min (tx_max_priority_fee_per_gas A tx) (tx_max_fee_per_gas A tx - base))"
      and fin: "bal (ex_state x') = b1(c := b1 c + ucast (tx_gas A tx - eo_used_gas out) * price)"
    have u: "r_gas_used r = eo_used_gas out" using r res by simp
    show thesis
      by (rule that [OF n b g(6,4,5) t call(1,4,3,2) u _ _ r(3,4) b0 b1 [folded u]]) (use r res fin x(2) in simp_all)
  qed
qed

text \<open>C18: A transaction that is applied had the nonce of its sender's account.  The EVM runs from a state in which the
  sender has paid for the whole gas limit; afterwards the balances are those of the EVM's changes when it
  succeeded and of the start when it did not, plus the tip for the miner, plus the refund of the unused
  gas to the sender.  The receipt has the status and the gas of the EVM and the gas of the block so far.\<close>

theorem apply_accounts:
  assumes D: "lawful_db D bal non" and E: "lawful_evm transact bal non"
    and run: "executor_apply A D transact ctx s i = (Ok r, s')"
  defines "tx \<equiv> ptx_tx (cx_tx ctx)" and "c \<equiv> cx_caller ctx" and "m \<equiv> h_miner (cx_header ctx)"
    and "base \<equiv> h_base_fee_per_gas (cx_header ctx)"
  defines "price \<equiv> tx_gas_price A tx (Some base)"
  shows "\<exists>call out s1 s2 b0 b1.
    non s c = tx_nonce A tx \<and> base \<le> tx_max_fee_per_gas A tx \<and>
    non s1 = non s \<and> bal s1 = (bal s)(c := bal s c - ucast (tx_gas A tx) * price) \<and>
    transact ctx call s1 = (out, s2) \<and> ec_caller call = c \<and> ec_to call = tx_to A tx \<and> ec_value call = tx_value A tx \<and>
    ec_gas_limit call = tx_gas A tx \<and> r_gas_used r = eo_used_gas out \<and> r_gas_used r \<le> tx_gas A tx \<and>
    r_status r = (if eo_reason out = Succeeded then 1 else 0) \<and> r_transaction_index r = i \<and>
    unat (r_cumulative_gas_used r) = unat (h_gas_used (cx_header ctx)) + unat (r_gas_used r) \<and>
    b0 = (if eo_reason out = Succeeded then fold change_balance (eo_changes out) (bal s1) else bal s1) \<and>
    b1 = b0(m := b0 m + ucast (r_gas_used r) * min (tx_max_priority_fee_per_gas A tx) (tx_max_fee_per_gas A tx - base)) \<and>
    bal s' = b1(c := b1 c + ucast (tx_gas A tx - r_gas_used r) * price)"
  unfolding tx_def c_def m_def base_def price_def
  by (rule executor_apply_accounts [OF D E run], unfold changed_balances_def, (intro exI conjI; assumption))

text \<open>A transaction that fails in the EVM still pays: its sender loses exactly the gas used at the gas price, the miner
  gets the tip on it, and no other balance changes.\<close>

theorem apply_reverted_pays:
  assumes D: "lawful_db D bal non" and E: "lawful_evm transact bal non"
    and run: "executor_apply A D transact ctx s i = (Ok r, s')" and failed: "r_status r = 0"
    and price: "tx_gas_price A (ptx_tx (cx_tx ctx)) (Some (h_base_fee_per_gas (cx_header ctx))) \<le> tx_max_fee_per_gas A (ptx_tx (cx_tx ctx))"
    and other: "cx_caller ctx \<noteq> h_miner (cx_header ctx)"
  defines "tx \<equiv> ptx_tx (cx_tx ctx)" and "c \<equiv> cx_caller ctx" and "m \<equiv> h_miner (cx_header ctx)"
    and "base \<equiv> h_base_fee_per_gas (cx_header ctx)"
  shows "unat (bal s' c) + unat (r_gas_used r) * unat (tx_gas_price A tx (Some base)) = unat (bal s c) \<and>
    bal s' m = bal s m + ucast (r_gas_used r) * min (tx_max_priority_fee_per_gas A tx) (tx_max_fee_per_gas A tx - base) \<and>
    (\<forall>a. a \<noteq> c \<and> a \<noteq> m \<longrightarrow> bal s' a = bal s a)"
proof (rule executor_apply_accounts [OF D E run, folded tx_def c_def m_def base_def])
  fix call out s1 s2 b0 b1
  let ?p = "tx_gas_price A tx (Some base)" and ?u = "r_gas_used r" and ?g = "tx_gas A tx"
  let ?t = "ucast ?u * min (tx_max_priority_fee_per_gas A tx) (tx_max_fee_per_gas A tx - base) :: u256"
  assume s1: "bal s1 = (bal s)(c := bal s c - ucast ?g * ?p)"
    and enough: "unat ?g * unat (tx_max_fee_per_gas A tx) + unat (tx_value A tx) \<le> unat (bal s c)"
    and le: "?u \<le> ?g" and st: "r_status r = (if eo_reason out = Succeeded then 1 else 0)"
    and b0: "b0 = changed_balances out (bal s1)" and b1: "b1 = b0(m := b0 m + ?t)"
    and fin: "bal s' = b1(c := b1 c + ucast (?g - ?u) * ?p)"
  have b0: "b0 = bal s1" using b0 st failed by (auto simp: changed_balances_def split: if_splits)
  have cm: "c \<noteq> m" using other by (simp add: c_def m_def)
  have "bal s' c = bal s c - ucast ?u * ?p" using fin b1 b0 s1 cm le by (simp add: ucast_diff_u256 algebra_simps)
  moreover have "unat ?u * unat ?p \<le> unat (bal s c)"
  proof -
    have "unat ?u * unat ?p \<le> unat ?g * unat (tx_max_fee_per_gas A tx)"
      using le price by (intro mult_le_mono) (simp_all add: word_le_nat_alt tx_def base_def)
    with enough show ?thesis by simp
  qed
  ultimately have "unat (bal s' c) + unat ?u * unat ?p = unat (bal s c)" by (rule unat_sub_mult)
  with fin b1 b0 s1 cm show ?thesis by auto
qed

text \<open>The errors of the steps, other than those of the database.\<close>

lemma check_nonce_Err:
  assumes D: "lawful_db D bal non" and run: "check_nonce A D g False x = (Err e, x')" and "\<forall>d. e \<noteq> StateError d"
  defines "n \<equiv> non (ex_state x) (cx_caller (ex_ctx x))" and "k \<equiv> tx_nonce A (ptx_tx (cx_tx (ex_ctx x)))"
  shows "e = NonceTooLow \<and> k < n \<or> e = NonceTooHigh n k \<and> n < k"
proof (cases g)
  case True
  with assms(2,3) lawful_dbD(3) [OF D] show ?thesis
    by (auto simp: check_nonce_def Let_def n_def k_def split: option.splits if_splits)
next
  case False
  with assms(2,3) lawful_dbD(2) [OF D] show ?thesis
    by (fastforce simp: check_nonce_def Let_def and_then_Err on_db_Ok on_db_Err n_def k_def split: if_splits)
qed

lemma run_checks_Err:
  assumes D: "lawful_db D bal non" and run: "run_checks A D (ex_ctx x) x = (Err e, x')" and ns: "\<forall>d. e \<noteq> StateError d"
  defines "n \<equiv> non (ex_state x) (cx_caller (ex_ctx x))" and "k \<equiv> tx_nonce A (ptx_tx (cx_tx (ex_ctx x)))"
  shows "e = NonceTooLow \<and> k < n \<or> e = NonceTooHigh n k \<and> n < k \<or>
    e = InsufficientBaseFee (ptx_hash (cx_tx (ex_ctx x))) (h_number (cx_header (ex_ctx x))) \<and>
      tx_max_fee_per_gas A (ptx_tx (cx_tx (ex_ctx x))) < h_base_fee_per_gas (cx_header (ex_ctx x))"
proof -
  obtain v x1 where 1: "check_nonce A D True False x = (v, x1)" by fastforce
  obtain w x2 where 2: "on_db (sdb_prefetch D (ptx_access_list (cx_tx (ex_ctx x)))) x1 = (w, x2)" by fastforce
  have s1: "same_accounts bal non x x1" by (rule check_nonce_same(1) [OF D 1])
  have s2: "same_accounts bal non x x2" by (rule same_accounts_trans [OF s1 prefetch_same [OF D 2]])
  have w: "w \<noteq> Err e" using 2 ns by (auto simp: on_db_Err)
  show ?thesis
    using run 1 2 w check_nonce_Err [OF D _ ns, where x = x and g = True] check_nonce_Err [OF D _ ns, where x = x2 and g = False]
      same_accountsD [OF s1] same_accountsD [OF s2]
    by (auto simp: run_checks_def Let_def and_then_Err n_def k_def split: if_splits option.splits)
qed

lemma buy_gas_Err:
  assumes D: "lawful_db D bal non" and run: "buy_gas A D False x = (Err e, x')" and ns: "\<forall>d. e \<noteq> StateError d"
  defines "tx \<equiv> ptx_tx (cx_tx (ex_ctx x))"
  shows "e = InsufficientFunds" "same_accounts bal non x x'"
    and "unat (bal (ex_state x) (cx_caller (ex_ctx x))) < unat (tx_gas A tx) * unat (tx_max_fee_per_gas A tx) + unat (tx_value A tx)"
proof -
  let ?c = "cx_caller (ex_ctx x)"
  obtain bc1 bc b where bc1: "chk_mul (ucast (tx_gas A tx)) (tx_max_fee_per_gas A tx) = Some bc1"
    and bc: "chk_add bc1 (tx_value A tx) = Some bc" and g: "on_db (sdb_get_balance D ?c) x = (Ok b, x')"
    and less: "b < bc" and e: "e = InsufficientFunds"
    using run ns by (auto simp: buy_gas_def Let_def and_then_Err on_db_Err tx_def split: if_splits)
  show "e = InsufficientFunds" by (fact e)
  show "same_accounts bal non x x'" by (rule on_db_same [OF g]) (blast dest: lawful_dbD(1) [OF D])
  have "b = bal (ex_state x) ?c" using g lawful_dbD(1) [OF D] by (auto simp: on_db_Ok)
  with bc1 bc less show "unat (bal (ex_state x) ?c) < unat (tx_gas A tx) * unat (tx_max_fee_per_gas A tx) + unat (tx_value A tx)"
    by (simp add: chk_simps word_less_nat_alt)
qed

lemma for_changes_no_Err: "(\<And>c x. f c x \<noteq> (Err e, x')) \<Longrightarrow> for_changes f cs x \<noteq> (Err e, x')"
  by (induction cs arbitrary: x) (auto simp: and_then_Err)

lemma on_db_unwrap_Err [simp]: "on_db_unwrap f x \<noteq> (Err e, x')"
  by (auto simp: on_db_unwrap_def split: prod.splits sum.splits)

lemma set_storage_Err [simp]: "set_storage D a kvs x \<noteq> (Err e, x')"
  by (induction D a kvs x rule: set_storage.induct) (auto simp: and_then_Err)

lemma apply_change_no_Err [simp]: "apply_change D c x \<noteq> (Err e, x')" "apply_reverted D c x \<noteq> (Err e, x')"
  by (cases c; auto simp: and_then_Err split: if_splits option.splits)+

lemma refund_gas_Err: "refund_gas D x = (Err e, x') \<Longrightarrow> \<exists>d. e = StateError d"
  by (auto simp: refund_gas_def and_then_Err on_db_Err)

lemma run_finish_Err: "run_finish A D dry base out x = (Err e, x') \<Longrightarrow> \<exists>d. e = StateError d"
  by (auto simp: run_finish_def Let_def and_then_Err on_db_Err for_changes_no_Err dest!: refund_gas_Err split: if_splits)

lemma run_evm_Err:
  assumes D: "lawful_db D bal non" and E: "lawful_evm transact bal non"
    and run: "run_evm A D transact False base x = (Err e, x')" and ns: "\<forall>d. e \<noteq> StateError d"
  shows "e = NotSupported" "non (ex_state x') = non (ex_state x)"
    and "bal (ex_state x') = (bal (ex_state x))(cx_caller (ex_ctx x) :=
      bal (ex_state x) (cx_caller (ex_ctx x)) + ucast (ex_gas x) * ex_gas_price x)"
proof -
  let ?tx = "ptx_tx (cx_tx (ex_ctx x))"
  let ?call = "\<lparr>ec_caller = cx_caller (ex_ctx x), ec_to = tx_to A ?tx, ec_value = tx_value A ?tx, ec_gas_limit = tx_gas A ?tx,
    ec_access_list = (case tx_access_list A ?tx of Some al \<Rightarrow> al | None \<Rightarrow> [])\<rparr>"
  obtain out s2 where t: "transact (ex_ctx x) ?call (ex_state x) = (out, s2)" by fastforce
  have l: "bal s2 = bal (ex_state x)" "non s2 = non (ex_state x)" using E t unfolding lawful_evm_def by fastforce+
  have r: "refund_gas D (x\<lparr>ex_state := s2\<rparr>) = (Ok (), x')" and e: "e = NotSupported"
    using run t ns by (auto simp: run_evm_def Let_def and_then_Err dest: refund_gas_Err run_finish_Err split: if_splits)
  show "e = NotSupported" "non (ex_state x') = non (ex_state x)"
    "bal (ex_state x') = (bal (ex_state x))(cx_caller (ex_ctx x) :=
      bal (ex_state x) (cx_caller (ex_ctx x)) + ucast (ex_gas x) * ex_gas_price x)"
    using e refund_gas_Ok [OF D r] l by simp_all
qed

text \<open>C19: A transaction that is refused leaves every balance and nonce as it was, unless the database itself fails: each
  error says what was wrong with it, and a transaction the EVM does not support gets back all it paid.\<close>

theorem apply_error_no_effect:
  assumes D: "lawful_db D bal non" and E: "lawful_evm transact bal non"
    and run: "executor_apply A D transact ctx s i = (Err e, s')" and ns: "\<forall>d. e \<noteq> StateError d"
  defines "tx \<equiv> ptx_tx (cx_tx ctx)" and "n \<equiv> non s (cx_caller ctx)"
  shows "bal s' = bal s \<and> non s' = non s \<and>
    (case e of
       NonceTooLow \<Rightarrow> tx_nonce A tx < n
     | NonceTooHigh expect got \<Rightarrow> expect = n \<and> got = tx_nonce A tx \<and> expect < got
     | InsufficientBaseFee h b \<Rightarrow> h = ptx_hash (cx_tx ctx) \<and> b = h_number (cx_header ctx) \<and>
         tx_max_fee_per_gas A tx < h_base_fee_per_gas (cx_header ctx)
     | InsufficientFunds \<Rightarrow> unat (bal s (cx_caller ctx)) < unat (tx_gas A tx) * unat (tx_max_fee_per_gas A tx) + unat (tx_value A tx)
     | NotSupported \<Rightarrow> n = tx_nonce A tx
     | ExecutePaymentTxFail _ \<Rightarrow> False
     | StateError _ \<Rightarrow> False)"
proof -
  let ?x = "executor_new A ctx s"
  have [simp]: "ex_ctx ?x = ctx" "ex_state ?x = s" "ex_gas ?x = 0" by (simp_all add: executor_new_def)
  obtain x' where "executor_run A D transact False ?x = (Err e, x')" and s': "s' = ex_state x'"
    using run by (auto simp: executor_apply_def split: prod.splits outcome.splits option.splits)
  then consider (checks) "run_checks A D (ex_ctx ?x) ?x = (Err e, x')"
    | (buy) v x1 where "run_checks A D (ex_ctx ?x) ?x = (Ok v, x1)" "buy_gas A D False x1 = (Err e, x')"
    | (evm) v x1 x2 where "run_checks A D (ex_ctx ?x) ?x = (Ok v, x1)" "buy_gas A D False x1 = (Ok (), x2)"
        "run_evm A D transact False v x2 = (Err e, x')"
    by (auto simp: executor_run_checks and_then_Err)
  then show ?thesis
  proof cases
    case checks
    from run_checks_Err [OF D checks ns] same_accountsD [OF run_checks_same [OF D checks]] s' show ?thesis
      by (auto simp: tx_def n_def)
  next
    case buy
    note same = same_accountsD [OF run_checks_same [OF D buy(1)]]
    from buy_gas_Err [OF D buy(2) ns] same same_accountsD [OF buy_gas_Err(2) [OF D buy(2) ns]] s' show ?thesis
      by (auto simp: tx_def n_def)
  next
    case evm
    note same = same_accountsD [OF run_checks_same [OF D evm(1)]]
    have g0: "ex_gas x1 = 0" using same by simp
    from run_evm_Err [OF D E evm(3) ns] buy_gas_Ok(1-5) [OF D evm(2) g0] same run_checks_Ok(3) [OF D evm(1)] s' show ?thesis
      by (auto simp: tx_def n_def)
  qed
qed

section \<open>A concrete database and EVM\<close>

text \<open>
  A database that keeps balances and nonces in maps, numbers its roots and restores the accounts of a root, and an
  EVM that moves the value of a call when the sender can pay it and fails otherwise, for 21000 gas.
\<close>

record demo_state =
  ds_bal :: "(h160, u256) btree_map"
  ds_non :: "(h160, u64) btree_map"
  ds_root :: h256
  ds_snaps :: "(h256, (h160, u256) btree_map \<times> (h160, u64) btree_map) btree_map"

definition lookup0 :: "('k, 'v::zero) btree_map \<Rightarrow> 'k \<Rightarrow> 'v" where
  "lookup0 m k = (case map_of m k of None \<Rightarrow> 0 | Some v \<Rightarrow> v)"

definition demo_bal :: "demo_state \<Rightarrow> h160 \<Rightarrow> u256" where
  "demo_bal s = lookup0 (ds_bal s)"

definition demo_non :: "demo_state \<Rightarrow> h160 \<Rightarrow> u64" where
  "demo_non s = lookup0 (ds_non s)"

lemma lookup0_insert [simp]: "lookup0 (bt_insert k v m) = (lookup0 m)(k := v)"
  by (auto simp: lookup0_def fun_eq_iff)

definition demo_set :: "h160 \<Rightarrow> u256 \<Rightarrow> demo_state \<Rightarrow> (string + unit) \<times> demo_state" where
  "demo_set a v s = (Inr (), s\<lparr>ds_bal := bt_insert a v (ds_bal s)\<rparr>)"

definition demo_db :: "(demo_state, string) statedb" where
  "demo_db =
     \<lparr>sdb_get_balance = (\<lambda>a s. (Inr (demo_bal s a), s)),
      sdb_get_nonce = (\<lambda>a s. (Inr (demo_non s a), s)),
      sdb_try_get_nonce = (\<lambda>a s. Some (demo_non s a)),
      sdb_get_code = (\<lambda>a s. (Inr [], s)),
      sdb_add_balance = (\<lambda>a v s. demo_set a (demo_bal s a + v) s),
      sdb_sub_balance = (\<lambda>a v s. demo_set a (demo_bal s a - v) s),
      sdb_set_balance = demo_set,
      sdb_set_nonce = (\<lambda>a n s. (Inr (), s\<lparr>ds_non := bt_insert a n (ds_non s)\<rparr>)),
      sdb_set_code = (\<lambda>a c s. (Inr (), s)),
      sdb_set_state = (\<lambda>a k v s. (Inr (), s)),
      sdb_suicide = (\<lambda>a. demo_set a 0),
      sdb_prefetch = (\<lambda>al s. (Inr (), s)),
      sdb_flush = (\<lambda>s. (Inr (ds_root s + 1),
        s\<lparr>ds_root := ds_root s + 1, ds_snaps := bt_insert (ds_root s + 1) (ds_bal s, ds_non s) (ds_snaps s)\<rparr>)),
      sdb_state_root = ds_root,
      sdb_revert = (\<lambda>r s. case map_of (ds_snaps s) r of
          Some (b, n) \<Rightarrow> s\<lparr>ds_bal := b, ds_non := n, ds_root := r\<rparr>
        | None \<Rightarrow> s)\<rparr>"

definition demo_evm :: "demo_tx exec_context \<Rightarrow> evm_call \<Rightarrow> demo_state \<Rightarrow> evm_output \<times> demo_state" where
  "demo_evm ctx call s =
     (let c = ec_caller call; t = (case ec_to call of Some t \<Rightarrow> t | None \<Rightarrow> 0);
          b0 = demo_bal s c; used = min 21000 (ec_gas_limit call);
          next_nonce = \<lparr>em_address = c, em_balance = b0, em_nonce = demo_non s c + 1, em_code = None, em_storage = [], em_reset_storage = False\<rparr>
      in if b0 < ec_value call \<or> c = t
         then (\<lparr>eo_reason = OtherExit, eo_data = [], eo_used_gas = used, eo_changes = [Modify next_nonce], eo_logs = []\<rparr>, s)
         else (\<lparr>eo_reason = Succeeded, eo_data = [], eo_used_gas = used,
                eo_changes =
                  [Modify (next_nonce\<lparr>em_balance := b0 - ec_value call\<rparr>),
                   Modify \<lparr>em_address = t, em_balance = demo_bal s t + ec_value call, em_nonce = demo_non s t,
                           em_code = None, em_storage = [], em_reset_storage = False\<rparr>],
                eo_logs = []\<rparr>, s))"

lemma demo_db_lawful: "lawful_db demo_db demo_bal demo_non"
  by (auto simp: lawful_db_def demo_db_def demo_set_def demo_bal_def demo_non_def)

lemma demo_evm_lawful: "lawful_evm demo_evm demo_bal demo_non"
  by (auto simp: lawful_evm_def demo_evm_def Let_def split: if_splits)

definition demo_state_of :: "(h160, u256) btree_map \<Rightarrow> demo_state" where
  "demo_state_of b = \<lparr>ds_bal = b, ds_non = [], ds_root = 0, ds_snaps = [(0, b, [])]\<rparr>"

definition demo_state0 :: demo_state where
  "demo_state0 = demo_state_of [(1, 10000000), (7, 10000000)]"

definition demo_ctx :: "u64 \<Rightarrow> h160 \<Rightarrow> demo_tx exec_context" where
  "demo_ctx n caller = \<lparr>cx_caller = caller, cx_tx = demo_ptx caller n 5 100 2, cx_header = demo_header\<lparr>h_base_fee_per_gas := 7\<rparr>\<rparr>"

definition demo_outcome :: "('e execute_error, receipt) outcome \<times> demo_state \<Rightarrow> (u64 \<times> u64) option \<times> u256 list \<times> u64" where
  "demo_outcome q = (case q of (r, s) \<Rightarrow>
     ((case r of Ok x \<Rightarrow> Some (r_status x, r_gas_used x) | _ \<Rightarrow> None), [demo_bal s 7, demo_bal s 1, demo_bal s 5], demo_non s 7))"

theorem apply_accounts_witness:
  "\<exists>r s'. executor_apply demo_api demo_db demo_evm (demo_ctx 0 7) demo_state0 0 = (Ok r, s') \<and>
     r_gas_used r = 21000 \<and> r_status r = 1 \<and> demo_bal s' 7 = 9810999 \<and> demo_bal s' 5 = 42000 \<and> unat (r_cumulative_gas_used r) = 30021000"
proof -
  have run: "demo_outcome (executor_apply demo_api demo_db demo_evm (demo_ctx 0 7) demo_state0 0) =
    (Some (1, 21000), [9810999, 10000001, 42000], 1)" by code_simp
  then obtain r s' where r: "executor_apply demo_api demo_db demo_evm (demo_ctx 0 7) demo_state0 0 = (Ok r, s')"
    by (auto simp: demo_outcome_def split: prod.splits outcome.splits)
  with run have "r_gas_used r = 21000" "r_status r = 1" "demo_bal s' 7 = 9810999" "demo_bal s' 5 = 42000" by (simp_all add: demo_outcome_def)
  with apply_accounts [OF demo_db_lawful demo_evm_lawful r] r show ?thesis by (auto simp: demo_ctx_def demo_header_def)
qed

theorem apply_reverted_pays_witness:
  "\<exists>r s'. executor_apply demo_api demo_db demo_evm (demo_ctx 0 1) demo_state0 0 = (Ok r, s') \<and>
     unat (demo_bal s' 1) + 21000 * 9 = 10000000 \<and> demo_bal s' 5 = 42000 \<and> demo_bal s' 7 = 10000000"
proof -
  have run: "demo_outcome (executor_apply demo_api demo_db demo_evm (demo_ctx 0 1) demo_state0 0) =
    (Some (0, 21000), [10000000, 9811000, 42000], 0)" by code_simp
  then obtain r s' where r: "executor_apply demo_api demo_db demo_evm (demo_ctx 0 1) demo_state0 0 = (Ok r, s')"
    by (auto simp: demo_outcome_def split: prod.splits outcome.splits)
  with run have "r_gas_used r = 21000" and f: "r_status r = 0" "demo_bal s' 5 = 42000" by (simp_all add: demo_outcome_def)
  with apply_reverted_pays [OF demo_db_lawful demo_evm_lawful r f(1)] r show ?thesis
    by (simp add: demo_ctx_def demo_header_def demo_ptx_def demo_api_def demo_state0_def demo_state_of_def demo_bal_def lookup0_def)
qed

theorem apply_error_no_effect_witness:
  "\<exists>s'. executor_apply demo_api demo_db demo_evm (demo_ctx 3 7) demo_state0 0 = (Err (NonceTooHigh 0 3), s') \<and>
     demo_bal s' = demo_bal demo_state0 \<and> demo_non s' = demo_non demo_state0"
proof -
  have "fst (executor_apply demo_api demo_db demo_evm (demo_ctx 3 7) demo_state0 0) = Err (NonceTooHigh 0 3)" by code_simp
  then obtain s' where r: "executor_apply demo_api demo_db demo_evm (demo_ctx 3 7) demo_state0 0 = (Err (NonceTooHigh 0 3), s')"
    by (metis prod.collapse)
  with apply_error_no_effect [OF demo_db_lawful demo_evm_lawful r] show ?thesis by simp
qed

end
