(* ===== verification/Executor_Frame.thy ===== *)
theory Executor_Frame
  imports Executor
begin

text \<open>
  What an execution leaves alone.  The rules are those of a small Hoare logic: \<open>kept obs q p\<close> says
  that the result \<open>p\<close> of a step has the context and the part \<open>obs\<close> of the database given by \<open>q\<close>.  Every step of the executor keeps every part that the single calls of the database and
  the EVM keep (\<open>db_keeps\<close>, \<open>evm_keeps\<close>); the known state roots are such a part.
\<close>

definition db_keeps :: "('s, 'e) statedb \<Rightarrow> ('s \<Rightarrow> 'o) \<Rightarrow> bool" where
  "db_keeps D obs \<longleftrightarrow>
     (\<forall>a s. obs (snd (sdb_get_balance D a s)) = obs s) \<and> (\<forall>a s. obs (snd (sdb_get_nonce D a s)) = obs s) \<and>
     (\<forall>a s. obs (snd (sdb_get_code D a s)) = obs s) \<and>
     (\<forall>a v s. obs (snd (sdb_add_balance D a v s)) = obs s) \<and> (\<forall>a v s. obs (snd (sdb_sub_balance D a v s)) = obs s) \<and>
     (\<forall>a v s. obs (snd (sdb_set_balance D a v s)) = obs s) \<and> (\<forall>a n s. obs (snd (sdb_set_nonce D a n s)) = obs s) \<and>
     (\<forall>a c s. obs (snd (sdb_set_code D a c s)) = obs s) \<and> (\<forall>a k v s. obs (snd (sdb_set_state D a k v s)) = obs s) \<and>
     (\<forall>a s. obs (snd (sdb_suicide D a s)) = obs s) \<and> (\<forall>al s. obs (snd (sdb_prefetch D al s)) = obs s)"

definition evm_keeps :: "('tx exec_context \<Rightarrow> evm_call \<Rightarrow> 's \<Rightarrow> evm_output \<times> 's) \<Rightarrow> ('s \<Rightarrow> 'o) \<Rightarrow> bool" where
  "evm_keeps transact obs \<longleftrightarrow> (\<forall>ctx call s. obs (snd (transact ctx call s)) = obs s)"

text \<open>The EVM uses at most the gas it is given.\<close>

definition evm_gas_ok :: "('tx exec_context \<Rightarrow> evm_call \<Rightarrow> 's \<Rightarrow> evm_output \<times> 's) \<Rightarrow> bool" where
  "evm_gas_ok transact \<longleftrightarrow> (\<forall>ctx call s. eo_used_gas (fst (transact ctx call s)) \<le> ec_gas_limit call)"

text \<open>An executor, and the result of a step, with a given context and part of the database.\<close>

definition held :: "('s \<Rightarrow> 'o) \<Rightarrow> 'tx exec_context \<times> 'o \<Rightarrow> ('tx, 's) executor \<Rightarrow> bool" where
  "held obs q x \<longleftrightarrow> ex_ctx x = fst q \<and> obs (ex_state x) = snd q"

definition kept :: "('s \<Rightarrow> 'o) \<Rightarrow> 'tx exec_context \<times> 'o \<Rightarrow> 'r \<times> ('tx, 's) executor \<Rightarrow> bool" where
  "kept obs q p \<longleftrightarrow> held obs q (snd p)"

named_theorems kept_intros

lemma held_gas [simp]: "held obs q (x\<lparr>ex_gas := g\<rparr>) = held obs q x" "held obs q (x\<lparr>ex_initial_gas := g\<rparr>) = held obs q x"
  by (simp_all add: held_def)

lemma kept_Pair [kept_intros]: "held obs q x \<Longrightarrow> kept obs q (r, x)"
  by (simp add: kept_def)

lemma kept_or_panic [kept_intros]: "held obs q x \<Longrightarrow> kept obs q (or_panic v x)"
  by (simp add: kept_def or_panic_def split: option.splits)

lemma kept_and_then [kept_intros]:
  assumes "kept obs q (m x)" and "\<And>a y. held obs q y \<Longrightarrow> kept obs q (f a y)"
  shows "kept obs q (and_then m f x)"
proof (cases "m x")
  case (Pair r y)
  with assms show ?thesis by (cases r) (auto simp: kept_def and_then_def)
qed

lemma kept_on_db:
  assumes "\<And>s. obs (snd (f s)) = obs s" and "held obs q x"
  shows "kept obs q (on_db f x)" "kept obs q (on_db_unwrap f x)"
  using assms(1) [of "ex_state x"] assms(2)
  by (auto simp: kept_def held_def on_db_def on_db_unwrap_def split: prod.splits sum.splits)

lemma db_keepsD:
  assumes "db_keeps D obs"
  shows "obs (snd (sdb_get_balance D a s)) = obs s" "obs (snd (sdb_get_nonce D a s)) = obs s"
    "obs (snd (sdb_add_balance D a v s)) = obs s" "obs (snd (sdb_sub_balance D a v s)) = obs s"
    "obs (snd (sdb_set_balance D a v s)) = obs s" "obs (snd (sdb_set_nonce D a n s)) = obs s"
    "obs (snd (sdb_set_code D a c s)) = obs s" "obs (snd (sdb_set_state D a k w s)) = obs s"
    "obs (snd (sdb_suicide D a s)) = obs s" "obs (snd (sdb_prefetch D al s)) = obs s" "obs (snd (sdb_get_code D a s)) = obs s"
  using assms by (simp_all add: db_keeps_def)

lemma kept_db [kept_intros]:
  assumes "db_keeps D obs" and "held obs q x"
  shows "kept obs q (on_db (sdb_get_balance D a) x)" "kept obs q (on_db (sdb_get_nonce D a) x)" "kept obs q (on_db (sdb_add_balance D a v) x)"
    "kept obs q (on_db (sdb_sub_balance D a v) x)" "kept obs q (on_db (sdb_set_balance D a v) x)" "kept obs q (on_db (sdb_set_nonce D a n) x)"
    "kept obs q (on_db (sdb_set_code D a c) x)" "kept obs q (on_db (sdb_set_state D a k w) x)" "kept obs q (on_db (sdb_suicide D a) x)"
    "kept obs q (on_db (sdb_prefetch D al) x)"
  by (rule kept_on_db(1), rule db_keepsD [OF assms(1)], rule assms(2))+

lemma kept_db_unwrap [kept_intros]:
  assumes "db_keeps D obs" and "held obs q x"
  shows "kept obs q (on_db_unwrap (sdb_get_balance D a) x)" "kept obs q (on_db_unwrap (sdb_get_nonce D a) x)" "kept obs q (on_db_unwrap (sdb_add_balance D a v) x)"
    "kept obs q (on_db_unwrap (sdb_sub_balance D a v) x)" "kept obs q (on_db_unwrap (sdb_set_balance D a v) x)" "kept obs q (on_db_unwrap (sdb_set_nonce D a n) x)"
    "kept obs q (on_db_unwrap (sdb_set_code D a c) x)" "kept obs q (on_db_unwrap (sdb_set_state D a k w) x)" "kept obs q (on_db_unwrap (sdb_suicide D a) x)"
    "kept obs q (on_db_unwrap (sdb_prefetch D al) x)"
  by (rule kept_on_db(2), rule db_keepsD [OF assms(1)], rule assms(2))+

section \<open>The steps\<close>

lemma check_nonce_kept [kept_intros]: "db_keeps D obs \<Longrightarrow> held obs q x \<Longrightarrow> kept obs q (check_nonce A D g d x)"
  unfolding check_nonce_def Let_def by (auto intro!: kept_intros split: option.splits)

lemma refund_gas_kept [kept_intros]: "db_keeps D obs \<Longrightarrow> held obs q x \<Longrightarrow> kept obs q (refund_gas D x)"
  unfolding refund_gas_def by (auto intro!: kept_intros)

lemma buy_gas_kept [kept_intros]: "db_keeps D obs \<Longrightarrow> held obs q x \<Longrightarrow> kept obs q (buy_gas A D d x)"
  unfolding buy_gas_def Let_def by (auto intro!: kept_intros)

lemma set_storage_kept [kept_intros]: "db_keeps D obs \<Longrightarrow> held obs q x \<Longrightarrow> kept obs q (set_storage D a kvs x)"
  by (induction D a kvs x rule: set_storage.induct) (auto intro!: kept_intros)

lemma apply_change_kept: "db_keeps D obs \<Longrightarrow> held obs q x \<Longrightarrow> kept obs q (apply_change D c x)"
  by (cases c) (auto intro!: kept_intros split: option.splits)

lemma apply_reverted_kept: "db_keeps D obs \<Longrightarrow> held obs q x \<Longrightarrow> kept obs q (apply_reverted D c x)"
  by (cases c) (auto intro!: kept_intros)

lemma for_changes_kept:
  "(\<And>c x. held obs q x \<Longrightarrow> kept obs q (f c x)) \<Longrightarrow> held obs q x \<Longrightarrow> kept obs q (for_changes f cs x)"
  by (induction cs arbitrary: x) (auto intro!: kept_intros)

lemma run_finish_kept [kept_intros]: "db_keeps D obs \<Longrightarrow> held obs q x \<Longrightarrow> kept obs q (run_finish A D d b out x)"
  unfolding run_finish_def Let_def by (auto intro!: kept_intros for_changes_kept apply_change_kept apply_reverted_kept)

lemma run_evm_kept [kept_intros]:
  assumes "db_keeps D obs" and E: "evm_keeps transact obs" and x: "held obs q x"
  shows "kept obs q (run_evm A D transact d b x)"
proof -
  have "held obs q (x\<lparr>ex_state := snd (transact (ex_ctx x) call (ex_state x))\<rparr>)" for call
    using E x by (simp add: held_def evm_keeps_def)
  with assms(1) show ?thesis
    unfolding run_evm_def Let_def by (auto simp: case_prod_beta intro!: kept_intros)
qed

lemma executor_run_kept:
  assumes "db_keeps D obs" and "evm_keeps transact obs" and "held obs q x"
  shows "kept obs q (executor_run A D transact d x)"
  unfolding executor_run_def Let_def using assms by (auto intro!: kept_intros split: option.splits)

lemma executor_apply_keeps:
  assumes "db_keeps D obs" and "evm_keeps transact obs"
  shows "obs (snd (executor_apply A D transact ctx s i)) = obs s"
proof -
  have "held obs (ctx, obs s) (executor_new A ctx s)" by (simp add: held_def executor_new_def)
  from executor_run_kept [OF assms this, of A False] show ?thesis
    by (auto simp: executor_apply_def kept_def held_def split: prod.splits outcome.splits option.splits)
qed

section \<open>The gas of a transaction\<close>

lemma run_evm_gas:
  assumes "evm_gas_ok transact" and "run_evm A D transact d b x = (Ok res, x')"
  shows "xr_used_gas res \<le> tx_gas A (ptx_tx (cx_tx (ex_ctx x)))"
proof -
  let ?tx = "ptx_tx (cx_tx (ex_ctx x))"
  let ?call = "\<lparr>ec_caller = cx_caller (ex_ctx x), ec_to = tx_to A ?tx, ec_value = tx_value A ?tx, ec_gas_limit = tx_gas A ?tx,
    ec_access_list = (case tx_access_list A ?tx of Some al \<Rightarrow> al | None \<Rightarrow> [])\<rparr>"
  obtain out s2 where t: "transact (ex_ctx x) ?call (ex_state x) = (out, s2)" by fastforce
  have "eo_used_gas (fst (transact (ex_ctx x) ?call (ex_state x))) \<le> ec_gas_limit ?call"
    using assms(1) unfolding evm_gas_ok_def by blast
  moreover have "run_finish A D d b out (x\<lparr>ex_state := s2\<rparr>) = (Ok res, x')"
    using assms(2) t by (auto simp: run_evm_def Let_def and_then_Ok split: if_splits)
  then have "xr_used_gas res = eo_used_gas out" unfolding run_finish_def Let_def and_then_Ok by auto
  ultimately show ?thesis using t by simp
qed

lemma executor_apply_gas:
  assumes E: "evm_gas_ok transact" and "executor_apply A D transact ctx s i = (Ok r, s')"
  shows "r_gas_used r \<le> tx_gas A (ptx_tx (cx_tx ctx))"
proof -
  obtain res x' where run: "executor_run A D transact False (executor_new A ctx s) = (Ok res, x')" and r: "r_gas_used r = xr_used_gas res"
    using assms(2) by (rule executor_apply_Ok)
  have [simp]: "ex_ctx (executor_new A ctx s) = ctx" by (simp add: executor_new_def)
  obtain v x1 x2 where c: "run_checks A D ctx (executor_new A ctx s) = (Ok v, x1)" "buy_gas A D False x1 = (Ok (), x2)"
    "run_evm A D transact False v x2 = (Ok res, x')" using run by (auto simp: executor_run_checks and_then_Ok)
  let ?obs = "\<lambda>_. ()" and ?q = "(ctx, ())"
  have k: "db_keeps D ?obs" by (simp add: db_keeps_def)
  have "kept ?obs ?q (run_checks A D ctx (executor_new A ctx s))"
    unfolding run_checks_def Let_def by (auto simp: held_def executor_new_def intro!: k kept_intros split: option.splits)
  with c(1) have "held ?obs ?q x1" by (simp add: kept_def)
  with buy_gas_kept [OF k, of ?q x1 A False] c(2) have "ex_ctx x2 = ctx" by (simp add: kept_def held_def)
  with run_evm_gas [OF E c(3)] r show ?thesis by simp
qed

end
