(* ===== verification/Block_Env.thy ===== *)
theory Block_Env
  imports Executor_Frame
begin

text \<open>
  The block under construction: \<open>Environment\<close> of \<open>src/common/block_builder/src/types.rs\<close>, and the two
  operations every filling step is made of, \<open>commit_transaction\<close> and \<open>revert_txs_to\<close> of
  \<open>src/common/block_builder/src/block_builder.rs\<close>.

  \<open>builder\<close> holds what \<open>BlockBuilder\<close> has and calls: the crates \<open>eth_types\<close>, \<open>statedb\<close> and \<open>evm\<close> as
  functions, the configuration, and the \<open>Debug\<close> texts that end up in results.  \<open>Alive\<close> and the
  current time come from outside: the environment counts the questions asked (\<open>env_tick\<close>) and a
  \<open>clock\<close> gives the answer to each.  The counters of the fetcher, the caller index and the store only
  serve logging and caching and are left out.

  \<open>env_inv\<close> is the invariant of a block under construction: transactions and receipts go together,
  receipts carry their index and the gas used so far, and the gas pool and the gas used add up.
\<close>

record clock =
  ck_alive :: "nat \<Rightarrow> bool"
  ck_now :: "nat \<Rightarrow> nat"

record ('tx, 's) environment =
  env_state :: 's
  env_miner_balance :: u256
  env_header :: block_header
  env_txs :: "'tx list"
  env_receipts :: "receipt list"
  env_gas_pool :: u64
  env_checked_txs :: "(h256, bool) btree_map"
  env_tips_recipient :: "h160 option"
  env_round :: nat
  env_tick :: nat

datatype commit_action =
    Success receipt
  | Shift
  | Pop u64 u64
  | MarkFail string
  | Stop string
  | RemoveTx

datatype 'e build_error =
    NoTx
  | BuildStateError 'e
  | SendTipsFail string
  | FeeTooLow
  | InternalError string

record ('tx, 's, 'e, 'blk) builder =
  bb_api :: "'tx tx_api"
  bb_db :: "('s, 'e) statedb"
  bb_transact :: "'tx exec_context \<Rightarrow> evm_call \<Rightarrow> 's \<Rightarrow> evm_output \<times> 's"
  bb_bundles :: "'tx bundle_api"
  bb_succ :: "receipt \<Rightarrow> bool"
  bb_payer :: h160
  bb_tips_strategy :: tips_strategy
  bb_precompiles :: "h160 list"
  bb_tips_tx :: "u64 \<Rightarrow> u256 \<Rightarrow> u64 \<Rightarrow> h160 \<Rightarrow> u256 \<Rightarrow> 'tx pool_tx"
  bb_show_error :: "'e execute_error \<Rightarrow> string"
  bb_show_action :: "commit_action \<Rightarrow> string"
  bb_gwei :: u256
  bb_header_hash :: "block_header \<Rightarrow> h256"
  bb_block_new :: "block_header \<Rightarrow> 'tx list \<Rightarrow> receipt list \<Rightarrow> withdrawal list \<Rightarrow> 'blk"
  bb_block_header :: "'blk \<Rightarrow> block_header"

section \<open>\<open>Environment\<close>\<close>

definition environment_new :: "'s \<Rightarrow> block_header \<Rightarrow> h160 option \<Rightarrow> nat \<Rightarrow> ('tx, 's) environment" where
  "environment_new state header tips_recipient round =
     \<lparr>env_state = state, env_miner_balance = 0, env_header = header, env_txs = [], env_receipts = [],
      env_gas_pool = 0, env_checked_txs = [], env_tips_recipient = tips_recipient, env_round = round, env_tick = 0\<rparr>"

text \<open>The gas pool is a \<open>u64\<close> and wraps, the gas used a \<open>SU64\<close> and panics.\<close>

definition use_gas :: "u64 \<Rightarrow> ('tx, 's) environment \<Rightarrow> ('tx, 's) environment option" where
  "use_gas gas env =
     map_option (\<lambda>used. env\<lparr>env_gas_pool := env_gas_pool env - gas, env_header := (env_header env)\<lparr>h_gas_used := used\<rparr>\<rparr>)
       (chk_add (h_gas_used (env_header env)) gas)"

definition env_refund_gas :: "u64 \<Rightarrow> ('tx, 's) environment \<Rightarrow> ('tx, 's) environment option" where
  "env_refund_gas gas env =
     map_option (\<lambda>used. env\<lparr>env_gas_pool := env_gas_pool env + gas, env_header := (env_header env)\<lparr>h_gas_used := used\<rparr>\<rparr>)
       (chk_sub (h_gas_used (env_header env)) gas)"

definition is_alive :: "clock \<Rightarrow> ('tx, 's) environment \<Rightarrow> bool \<times> ('tx, 's) environment" where
  "is_alive ck env = (ck_alive ck (env_tick env), env\<lparr>env_tick := Suc (env_tick env)\<rparr>)"

definition env_db :: "('s \<Rightarrow> ('e + 'a) \<times> 's) \<Rightarrow> ('tx, 's) environment \<Rightarrow> ('e, 'a) outcome \<times> ('tx, 's) environment" where
  "env_db f env =
     (case f (env_state env) of
        (Inl e, s) \<Rightarrow> (Err e, env\<lparr>env_state := s\<rparr>)
      | (Inr v, s) \<Rightarrow> (Ok v, env\<lparr>env_state := s\<rparr>))"

section \<open>\<open>commit_transaction\<close>\<close>

text \<open>After the executor returned a receipt.\<close>

definition commit_success ::
  "('tx, 's, 'e, 'blk) builder \<Rightarrow> 'tx \<Rightarrow> receipt \<Rightarrow> ('tx, 's) environment \<Rightarrow> ('e, commit_action) outcome \<times> ('tx, 's) environment" where
  "commit_success B tx receipt env =
     (case use_gas (r_gas_used receipt) env of
        None \<Rightarrow> (Panic, env)
      | Some env \<Rightarrow>
          let env = env\<lparr>env_txs := env_txs env @ [tx], env_receipts := env_receipts env @ [receipt]\<rparr>
          in (case env_db (sdb_get_balance (bb_db B) (h_miner (env_header env))) env of
                (Ok _, env) \<Rightarrow>
                  (Ok (Success receipt),
                   env\<lparr>env_checked_txs := bt_insert (tx_hash (bb_api B) tx) True (env_checked_txs env)\<rparr>)
              | (_, env) \<Rightarrow> (Panic, env)))"

text \<open>After the executor returned an error.\<close>

definition commit_failure ::
  "('tx, 's, 'e, 'blk) builder \<Rightarrow> 'tx \<Rightarrow> 'e execute_error \<Rightarrow> ('tx, 's) environment \<Rightarrow> ('e, commit_action) outcome \<times> ('tx, 's) environment" where
  "commit_failure B tx err env =
     (case err of
        NonceTooLow \<Rightarrow> (Ok RemoveTx, env\<lparr>env_checked_txs := bt_insert (tx_hash (bb_api B) tx) True (env_checked_txs env)\<rparr>)
      | NotSupported \<Rightarrow> (Ok RemoveTx, env\<lparr>env_checked_txs := bt_insert (tx_hash (bb_api B) tx) True (env_checked_txs env)\<rparr>)
      | StateError e \<Rightarrow> (Err e, env)
      | _ \<Rightarrow> (Ok (MarkFail (bb_show_error B err)), env))"

definition commit_transaction ::
  "('tx, 's, 'e, 'blk) builder \<Rightarrow> clock \<Rightarrow> 'tx pool_tx \<Rightarrow> ('tx, 's) environment
     \<Rightarrow> ('e, commit_action) outcome \<times> ('tx, 's) environment" where
  "commit_transaction B ck pool_tx env =
     (let A = bb_api B;
          tx = ptx_tx pool_tx;
          env = env\<lparr>env_checked_txs := bt_insert (tx_hash A tx) False (env_checked_txs env)\<rparr>
      in if env_gas_pool env \<le> 21000 then (Ok (Stop ''Not enough gas for further transactions''), env)
         else if env_gas_pool env < tx_gas_limit A tx then (Ok (Pop (tx_gas_limit A tx) (env_gas_pool env)), env)
         else
           let (alive, env) = is_alive ck env
           in if \<not> alive then (Ok (Stop ''not alive(maybe timeout)''), env)
              else case tx_effective_gas_tip A tx (Some (h_base_fee_per_gas (env_header env))) of
                None \<Rightarrow>
                  (case tx_effective_gas_tip A tx None of
                     None \<Rightarrow> (Panic, env)
                   | Some _ \<Rightarrow>
                       (Ok (MarkFail (''invalid base fee: '' @
                              bb_show_error B (InsufficientBaseFee (tx_hash A tx) (h_number (env_header env))))), env))
              | Some _ \<Rightarrow>
                  let ctx = \<lparr>cx_caller = tx_sender A tx, cx_tx = pool_tx, cx_header = env_header env\<rparr>;
                      (r, s) = executor_apply A (bb_db B) (bb_transact B) ctx (env_state env) (word_of_nat (length (env_txs env)));
                      env = env\<lparr>env_state := s\<rparr>
                  in (case r of
                        Ok receipt \<Rightarrow> commit_success B tx receipt env
                      | Err err \<Rightarrow> commit_failure B tx err env
                      | Panic \<Rightarrow> (Panic, env)))"

text \<open>\<open>revert_txs_to\<close> takes transactions off the end; it panics when there is no receipt to take with one.\<close>

function revert_txs_to ::
  "'tx tx_api \<Rightarrow> nat \<Rightarrow> ('tx, 's) environment \<Rightarrow> ('tx, 's) environment option" where
  "revert_txs_to A at env =
     (if length (env_txs env) \<le> at then Some env
      else if env_receipts env = [] then None
      else
        let tx = last (env_txs env);
            receipt = last (env_receipts env);
            env' = env\<lparr>env_txs := butlast (env_txs env), env_receipts := butlast (env_receipts env),
                      env_checked_txs := bt_remove (tx_hash A tx) (env_checked_txs env)\<rparr>
        in (case env_refund_gas (r_gas_used receipt) env' of
              None \<Rightarrow> None
            | Some env'' \<Rightarrow> revert_txs_to A at env''))"
  by pat_completeness auto
termination
  by (relation "measure (\<lambda>(_, _, env). length (env_txs env))") (auto simp: env_refund_gas_def)

section \<open>The invariant of a block under construction\<close>

definition gas_sum :: "receipt list \<Rightarrow> nat" where
  "gas_sum rs = sum_list (map (\<lambda>r. unat (r_gas_used r)) rs)"

definition receipts_ok :: "'tx tx_api \<Rightarrow> 'tx list \<Rightarrow> receipt list \<Rightarrow> bool" where
  "receipts_ok A txs rs \<longleftrightarrow>
     length txs = length rs \<and>
     (\<forall>i<length rs. r_transaction_hash (rs ! i) = tx_hash A (txs ! i) \<and> r_transaction_index (rs ! i) = word_of_nat i \<and>
        unat (r_cumulative_gas_used (rs ! i)) = gas_sum (take (Suc i) rs))"

definition env_inv :: "'tx tx_api \<Rightarrow> nat \<Rightarrow> ('tx, 's) environment \<Rightarrow> bool" where
  "env_inv A gas env \<longleftrightarrow>
     receipts_ok A (env_txs env) (env_receipts env) \<and>
     unat (h_gas_used (env_header env)) = gas_sum (env_receipts env) \<and>
     unat (env_gas_pool env) + unat (h_gas_used (env_header env)) = gas"

lemma gas_sum_simps [simp]: "gas_sum [] = 0" "gas_sum (rs @ [r]) = gas_sum rs + unat (r_gas_used r)"
  by (simp_all add: gas_sum_def)

lemma receipts_ok_snoc:
  assumes "receipts_ok A txs rs" and "r_transaction_hash r = tx_hash A tx" and "r_transaction_index r = word_of_nat (length txs)"
    and "unat (r_cumulative_gas_used r) = gas_sum rs + unat (r_gas_used r)"
  shows "receipts_ok A (txs @ [tx]) (rs @ [r])"
  unfolding receipts_ok_def
proof (intro conjI allI impI)
  fix i assume "i < length (rs @ [r])"
  then consider "i < length rs" | "i = length rs" by force
  then show "r_transaction_hash ((rs @ [r]) ! i) = tx_hash A ((txs @ [tx]) ! i)"
    "r_transaction_index ((rs @ [r]) ! i) = word_of_nat i"
    "unat (r_cumulative_gas_used ((rs @ [r]) ! i)) = gas_sum (take (Suc i) (rs @ [r]))"
    using assms by (cases; force simp: receipts_ok_def nth_append)+
qed (use assms in \<open>simp add: receipts_ok_def\<close>)

lemma receipts_ok_butlast:
  assumes "receipts_ok A txs rs"
  shows "receipts_ok A (butlast txs) (butlast rs)"
  using assms by (auto simp: receipts_ok_def nth_butlast take_butlast)

text \<open>The assumptions on the crates: a transaction's gas limit is its gas, and the EVM respects it.\<close>

definition gas_lawful :: "('tx, 's, 'e, 'blk) builder \<Rightarrow> bool" where
  "gas_lawful B \<longleftrightarrow> (\<forall>tx. tx_gas (bb_api B) tx = tx_gas_limit (bb_api B) tx) \<and> evm_gas_ok (bb_transact B)"

lemma env_inv_frame [simp]:
  "env_inv A g (env\<lparr>env_state := s\<rparr>) = env_inv A g env"
  "env_inv A g (env\<lparr>env_checked_txs := c\<rparr>) = env_inv A g env"
  "env_inv A g (env\<lparr>env_tick := t\<rparr>) = env_inv A g env"
  "env_inv A g (env\<lparr>env_miner_balance := b\<rparr>) = env_inv A g env"
  by (simp_all add: env_inv_def)

lemma env_db_inv: "env_db f env = (r, env') \<Longrightarrow> \<exists>s. env' = env\<lparr>env_state := s\<rparr>"
  by (auto simp: env_db_def split: prod.splits sum.splits)

text \<open>What a commit may change: the database, the checked transactions, the clock, and on success the block.\<close>

definition same_block :: "('tx, 's) environment \<Rightarrow> ('tx, 's) environment \<Rightarrow> bool" where
  "same_block env env' \<longleftrightarrow>
     (\<exists>s c t. env' = env\<lparr>env_state := s, env_checked_txs := c, env_tick := t\<rparr>)"

lemma same_blockI:
  assumes "env_miner_balance env' = env_miner_balance env" "env_header env' = env_header env" "env_txs env' = env_txs env"
    "env_receipts env' = env_receipts env" "env_gas_pool env' = env_gas_pool env"
    "env_tips_recipient env' = env_tips_recipient env" "env_round env' = env_round env"
  shows "same_block env (env' :: ('tx, 's) environment)"
proof -
  have "env' = env\<lparr>env_state := env_state env', env_checked_txs := env_checked_txs env', env_tick := env_tick env'\<rparr>"
    using assms by (intro environment.equality) simp_all
  then show ?thesis unfolding same_block_def by blast
qed

lemma same_blockD:
  "same_block env env' \<Longrightarrow> env_miner_balance env' = env_miner_balance env \<and> env_header env' = env_header env \<and>
     env_txs env' = env_txs env \<and> env_receipts env' = env_receipts env \<and> env_gas_pool env' = env_gas_pool env \<and>
     env_tips_recipient env' = env_tips_recipient env \<and> env_round env' = env_round env"
  by (auto simp: same_block_def)

lemma same_block_refl [simp]: "same_block env env"
  by (rule same_blockI) simp_all

lemma same_block_trans: "same_block a b \<Longrightarrow> same_block b c \<Longrightarrow> same_block a c"
  by (rule same_blockI) (auto dest!: same_blockD)

lemma same_block_inv: "same_block env env' \<Longrightarrow> env_inv A g env' = env_inv A g env"
  by (auto simp: env_inv_def dest!: same_blockD)

lemma env_db_same: "env_db f env = (r, env') \<Longrightarrow> same_block env env'"
  by (drule env_db_inv) (auto intro!: same_blockI)

lemma commit_failure_same: "commit_failure B tx e env = (r, env') \<Longrightarrow> same_block env env'"
  by (cases e) (auto simp: commit_failure_def intro!: same_blockI)

lemma commit_failure_not_Success: "commit_failure B tx e env = (Ok a, env') \<Longrightarrow> a \<noteq> Success r"
  by (cases e) (auto simp: commit_failure_def)

section \<open>The outcomes of \<open>commit_transaction\<close>\<close>

definition commit_ctx :: "('tx, 's, 'e, 'blk) builder \<Rightarrow> 'tx pool_tx \<Rightarrow> ('tx, 's) environment \<Rightarrow> 'tx exec_context" where
  "commit_ctx B pool_tx env =
     \<lparr>cx_caller = tx_sender (bb_api B) (ptx_tx pool_tx), cx_tx = pool_tx, cx_header = env_header env\<rparr>"

text \<open>The environment in which the executor runs.\<close>

definition env_before :: "('tx, 's, 'e, 'blk) builder \<Rightarrow> 'tx pool_tx \<Rightarrow> ('tx, 's) environment \<Rightarrow> ('tx, 's) environment" where
  "env_before B pool_tx env =
     env\<lparr>env_checked_txs := bt_insert (tx_hash (bb_api B) (ptx_tx pool_tx)) False (env_checked_txs env), env_tick := Suc (env_tick env)\<rparr>"

lemma env_before_same: "same_block env (env_before B pool_tx env)" "env_state (env_before B pool_tx env) = env_state env"
  by (auto simp: env_before_def intro!: same_blockI)

text \<open>Either the transaction never reaches the executor, or its result decides.\<close>

lemma commit_transaction_cases:
  assumes "commit_transaction B ck pool_tx env = (r, env')"
  obtains (early) "same_block env env'" and "env_state env' = env_state env" and "\<forall>rc. r \<noteq> Ok (Success rc)" and "\<forall>e. r \<noteq> Err e"
      and "r \<noteq> Ok RemoveTx"
    | (run) q s where
        "executor_apply (bb_api B) (bb_db B) (bb_transact B) (commit_ctx B pool_tx env) (env_state env)
           (word_of_nat (length (env_txs env))) = (q, s)"
        and "21000 < env_gas_pool env" and "tx_gas_limit (bb_api B) (ptx_tx pool_tx) \<le> env_gas_pool env"
        and "(case q of Ok rc \<Rightarrow> commit_success B (ptx_tx pool_tx) rc ((env_before B pool_tx env)\<lparr>env_state := s\<rparr>)
               | Err e \<Rightarrow> commit_failure B (ptx_tx pool_tx) e ((env_before B pool_tx env)\<lparr>env_state := s\<rparr>)
               | Panic \<Rightarrow> (Panic, (env_before B pool_tx env)\<lparr>env_state := s\<rparr>)) = (r, env')"
proof -
  let ?A = "bb_api B" and ?tx = "ptx_tx pool_tx"
  obtain q s where x: "executor_apply ?A (bb_db B) (bb_transact B) (commit_ctx B pool_tx env) (env_state env)
    (word_of_nat (length (env_txs env))) = (q, s)" by fastforce
  show thesis
  proof (cases "21000 < env_gas_pool env \<and> tx_gas_limit ?A ?tx \<le> env_gas_pool env \<and> ck_alive ck (env_tick env) \<and>
      tx_effective_gas_tip ?A ?tx (Some (h_base_fee_per_gas (env_header env))) \<noteq> None")
    case True
    then have c: "(env_gas_pool env \<le> 21000) = False" "(env_gas_pool env < tx_gas_limit ?A ?tx) = False" "ck_alive ck (env_tick env)"
      by (auto simp: not_le not_less)
    from True obtain tip where tip: "tx_effective_gas_tip ?A ?tx (Some (h_base_fee_per_gas (env_header env))) = Some tip" by blast
    have "commit_transaction B ck pool_tx env =
      (case q of Ok rc \<Rightarrow> commit_success B ?tx rc ((env_before B pool_tx env)\<lparr>env_state := s\<rparr>)
       | Err e \<Rightarrow> commit_failure B ?tx e ((env_before B pool_tx env)\<lparr>env_state := s\<rparr>)
       | Panic \<Rightarrow> (Panic, (env_before B pool_tx env)\<lparr>env_state := s\<rparr>))"
      using c x by (cases q; simp add: commit_transaction_def Let_def is_alive_def tip env_before_def commit_ctx_def)
    with True assms show thesis by (intro run [OF x]) simp_all
  next
    case False
    then show thesis
      by (intro early; use assms in \<open>auto simp: commit_transaction_def Let_def is_alive_def not_le not_less
            intro!: same_blockI split: if_splits option.splits\<close>)
  qed
qed

lemma commit_success_Ok:
  assumes "commit_success B tx rc env = (r, env')" and "r \<noteq> Panic"
  shows "r = Ok (Success rc)" and "env_txs env' = env_txs env @ [tx]" and "env_receipts env' = env_receipts env @ [rc]"
    and "env_gas_pool env' = env_gas_pool env - r_gas_used rc"
    and "unat (h_gas_used (env_header env')) = unat (h_gas_used (env_header env)) + unat (r_gas_used rc)"
    and "env_header env' = (env_header env)\<lparr>h_gas_used := h_gas_used (env_header env')\<rparr>"
    and "env_miner_balance env' = env_miner_balance env" and "env_tips_recipient env' = env_tips_recipient env"
    and "env_checked_txs env' = bt_insert (tx_hash (bb_api B) tx) True (env_checked_txs env)"
    and "\<exists>b. sdb_get_balance (bb_db B) (h_miner (env_header env)) (env_state env) = (Inr b, env_state env')"
  using assms
  by (auto simp: commit_success_def use_gas_def env_db_def Let_def chk_simps split: option.splits prod.splits sum.splits outcome.splits)

lemma commit_success_Panic: "commit_success B tx rc env = (r, env') \<Longrightarrow> r = Ok (Success rc) \<or> r = Panic"
  by (auto simp: commit_success_def Let_def split: option.splits prod.splits outcome.splits)

lemma commit_transaction_same:
  assumes "commit_transaction B ck pool_tx env = (r, env')" and "\<forall>rc. r \<noteq> Ok (Success rc)" and "r \<noteq> Panic"
  shows "same_block env env'"
  using assms(1)
proof (cases rule: commit_transaction_cases)
  case (run q s)
  have "same_block env ((env_before B pool_tx env)\<lparr>env_state := s\<rparr>)"
    by (auto simp: env_before_def intro!: same_blockI)
  with run assms(2,3) show ?thesis
    by (cases q) (auto dest!: commit_success_Panic dest: commit_failure_same [THEN same_block_trans [rotated]])
qed

lemma commit_transaction_Success:
  assumes "commit_transaction B ck pool_tx env = (Ok (Success rc), env')"
  obtains s where
    "executor_apply (bb_api B) (bb_db B) (bb_transact B) (commit_ctx B pool_tx env) (env_state env)
       (word_of_nat (length (env_txs env))) = (Ok rc, s)"
    and "tx_gas_limit (bb_api B) (ptx_tx pool_tx) \<le> env_gas_pool env"
    and "commit_success B (ptx_tx pool_tx) rc ((env_before B pool_tx env)\<lparr>env_state := s\<rparr>) = (Ok (Success rc), env')"
  using assms
proof (cases rule: commit_transaction_cases)
  case (run q s)
  then show thesis
    by (cases q) (use that commit_failure_not_Success commit_success_Panic in fastforce)+
qed auto

lemma commit_transaction_inv:
  assumes B: "gas_lawful B" and inv: "env_inv (bb_api B) g env"
    and run: "commit_transaction B ck pool_tx env = (r, env')" and np: "r \<noteq> Panic"
  shows "env_inv (bb_api B) g env'"
proof (cases "\<exists>rc. r = Ok (Success rc)")
  case False
  with commit_transaction_same [OF run] np inv show ?thesis by (simp add: same_block_inv)
next
  case True
  then obtain rc where r: "r = Ok (Success rc)" by blast
  obtain s where x: "executor_apply (bb_api B) (bb_db B) (bb_transact B) (commit_ctx B pool_tx env) (env_state env)
       (word_of_nat (length (env_txs env))) = (Ok rc, s)"
    and le: "tx_gas_limit (bb_api B) (ptx_tx pool_tx) \<le> env_gas_pool env"
    and c: "commit_success B (ptx_tx pool_tx) rc ((env_before B pool_tx env)\<lparr>env_state := s\<rparr>) = (Ok (Success rc), env')"
    using run r commit_transaction_Success by blast
  note same = same_blockD [OF env_before_same(1) [of env B pool_tx]]
  note s = commit_success_Ok [OF c, simplified]
  have used: "r_gas_used rc \<le> env_gas_pool env"
    using executor_apply_gas [OF _ x] B le by (auto simp: gas_lawful_def commit_ctx_def)
  have rc: "r_transaction_hash rc = tx_hash (bb_api B) (ptx_tx pool_tx)" "r_transaction_index rc = word_of_nat (length (env_txs env))"
    "unat (r_cumulative_gas_used rc) = unat (h_gas_used (env_header env)) + unat (r_gas_used rc)"
    by (rule executor_apply_Ok [OF x]; simp add: commit_ctx_def)+
  have "receipts_ok (bb_api B) (env_txs env') (env_receipts env')"
    using inv rc s same by (simp add: receipts_ok_snoc env_inv_def)
  moreover have "unat (env_gas_pool env') = unat (env_gas_pool env) - unat (r_gas_used rc)"
    using s same used by (simp add: unat_sub)
  ultimately show ?thesis
    using inv s same used by (simp add: env_inv_def word_le_nat_alt)
qed

section \<open>\<open>revert_txs_to\<close>\<close>

declare revert_txs_to.simps [simp del]

lemma env_refund_gas_inv:
  assumes inv: "env_inv A g env" and "env_receipts env = rs @ [r]" and "env_txs env = ts @ [t]"
  shows "env_refund_gas (r_gas_used r) (env\<lparr>env_txs := ts, env_receipts := rs, env_checked_txs := c\<rparr>) =
      Some (env\<lparr>env_txs := ts, env_receipts := rs, env_checked_txs := c, env_gas_pool := env_gas_pool env + r_gas_used r,
        env_header := (env_header env)\<lparr>h_gas_used := h_gas_used (env_header env) - r_gas_used r\<rparr>\<rparr>)"
    and "g < 2 ^ 64 \<Longrightarrow> env_inv A g (env\<lparr>env_txs := ts, env_receipts := rs, env_checked_txs := c, env_gas_pool := env_gas_pool env + r_gas_used r,
        env_header := (env_header env)\<lparr>h_gas_used := h_gas_used (env_header env) - r_gas_used r\<rparr>\<rparr>)"
proof -
  have used: "unat (h_gas_used (env_header env)) = gas_sum rs + unat (r_gas_used r)"
    and total: "unat (env_gas_pool env) + unat (h_gas_used (env_header env)) = g"
    using inv assms by (simp_all add: env_inv_def)
  then have le: "r_gas_used r \<le> h_gas_used (env_header env)" by (simp add: word_le_nat_alt)
  then show "env_refund_gas (r_gas_used r) (env\<lparr>env_txs := ts, env_receipts := rs, env_checked_txs := c\<rparr>) =
      Some (env\<lparr>env_txs := ts, env_receipts := rs, env_checked_txs := c, env_gas_pool := env_gas_pool env + r_gas_used r,
        env_header := (env_header env)\<lparr>h_gas_used := h_gas_used (env_header env) - r_gas_used r\<rparr>\<rparr>)"
    by (simp add: env_refund_gas_def chk_sub_def)
  have "receipts_ok A ts rs" using receipts_ok_butlast [of A "env_txs env" "env_receipts env"] inv assms by (simp add: env_inv_def)
  moreover assume "g < 2 ^ 64"
  with used total have "unat (env_gas_pool env) + unat (r_gas_used r) < 2 ^ LENGTH(64)" by simp
  then have "unat (env_gas_pool env + r_gas_used r) = unat (env_gas_pool env) + unat (r_gas_used r)" by (rule unat_add_small)
  ultimately show "env_inv A g (env\<lparr>env_txs := ts, env_receipts := rs, env_checked_txs := c, env_gas_pool := env_gas_pool env + r_gas_used r,
        env_header := (env_header env)\<lparr>h_gas_used := h_gas_used (env_header env) - r_gas_used r\<rparr>\<rparr>)"
    using used total le by (simp add: env_inv_def unat_sub word_le_nat_alt)
qed

text \<open>On a block under construction \<open>revert_txs_to\<close> always succeeds and cuts the block back.\<close>

lemma revert_txs_to_inv:
  assumes "env_inv A g env" and "g < 2 ^ 64" and "at \<le> length (env_txs env)"
  shows "\<exists>env'. revert_txs_to A at env = Some env' \<and> env_inv A g env' \<and>
    env_txs env' = take at (env_txs env) \<and> env_receipts env' = take at (env_receipts env) \<and>
    env_header env' = (env_header env)\<lparr>h_gas_used := h_gas_used (env_header env')\<rparr> \<and>
    env_state env' = env_state env \<and> env_miner_balance env' = env_miner_balance env \<and>
    env_tips_recipient env' = env_tips_recipient env \<and> env_round env' = env_round env \<and> env_tick env' = env_tick env"
  using assms
proof (induction A "at" env rule: revert_txs_to.induct)
  case (1 A "at" env)
  show ?case
  proof (cases "length (env_txs env) \<le> at")
    case True
    with 1 show ?thesis by (subst revert_txs_to.simps) (auto simp: env_inv_def receipts_ok_def)
  next
    case False
    have len: "length (env_txs env) = length (env_receipts env)" using 1 by (simp add: env_inv_def receipts_ok_def)
    obtain ts t where ts: "env_txs env = ts @ [t]" using False by (cases "env_txs env" rule: rev_cases) auto
    obtain rs r where rs: "env_receipts env = rs @ [r]" using False len by (cases "env_receipts env" rule: rev_cases) auto
    let ?env = "env\<lparr>env_txs := ts, env_receipts := rs, env_checked_txs := bt_remove (tx_hash A t) (env_checked_txs env),
      env_gas_pool := env_gas_pool env + r_gas_used r,
      env_header := (env_header env)\<lparr>h_gas_used := h_gas_used (env_header env) - r_gas_used r\<rparr>\<rparr>"
    note refund = env_refund_gas_inv [OF "1.prems"(1) rs ts]
    have step: "revert_txs_to A at env = revert_txs_to A at ?env"
      using False ts rs refund(1) by (subst revert_txs_to.simps) simp
    have "env_inv A g ?env" using refund(2) "1.prems" by blast
    moreover have "at \<le> length (env_txs ?env)" using False ts by simp
    ultimately obtain env' where "revert_txs_to A at ?env = Some env'" "env_inv A g env'" "env_txs env' = take at ts"
      "env_receipts env' = take at rs" "env_header env' = (env_header env)\<lparr>h_gas_used := h_gas_used (env_header env')\<rparr>"
      "env_state env' = env_state env" "env_miner_balance env' = env_miner_balance env"
      "env_tips_recipient env' = env_tips_recipient env" "env_round env' = env_round env" "env_tick env' = env_tick env"
      using "1.IH" [OF False _ refl refl refl, of ?env] "1.prems"(2) by (auto simp: ts rs refund(1))
    with step False ts rs len show ?thesis by auto
  qed
qed

end
