(* ===== verification/Loops.thy ===== *)
theory Loops
  imports Builder_Prelude
begin

text \<open>
  Loops that nothing in their code makes end: a step returns the result of the loop or the state it
  continues with, and \<open>iterate\<close> repeats it, with \<open>None\<close> when it never stops.  The rules are the ones of
  a while loop: a measure for termination, an invariant for the result.
\<close>

partial_function (option) iterate :: "('x \<Rightarrow> 'r + 'x) \<Rightarrow> 'x \<Rightarrow> 'r option" where
  [code]: "iterate step x = (case step x of Inl r \<Rightarrow> Some r | Inr y \<Rightarrow> iterate step y)"

lemma iterate_Inl: "step x = Inl r \<Longrightarrow> iterate step x = Some r"
  by (subst iterate.simps) simp

lemma iterate_Inr: "step x = Inr y \<Longrightarrow> iterate step x = iterate step y"
  by (subst iterate.simps) simp

text \<open>The loop ends when a measure goes down in every step from a state with the invariant.\<close>

lemma iterate_ends:
  fixes m :: "'x \<Rightarrow> nat"
  assumes "I x" and "\<And>x y. I x \<Longrightarrow> step x = Inr y \<Longrightarrow> I y \<and> m y < m x"
  shows "\<exists>r. iterate step x = Some r"
  using assms(1)
proof (induction x rule: measure_induct_rule [where f = m])
  case (less x)
  show ?case
  proof (cases "step x")
    case (Inl r)
    then show ?thesis by (auto intro: iterate_Inl)
  next
    case (Inr y)
    with assms(2) [OF less.prems Inr] less.IH show ?thesis by (simp add: iterate_Inr)
  qed
qed

text \<open>What holds of the state at the start and is kept by every step holds at the end.\<close>

lemma iterate_inv:
  assumes run: "iterate step x = Some r" and start: "I x"
    and keep: "\<And>x y. I x \<Longrightarrow> step x = Inr y \<Longrightarrow> I y" and stop: "\<And>x r. I x \<Longrightarrow> step x = Inl r \<Longrightarrow> Q r"
  shows "Q r"
proof -
  let ?P = "\<lambda>st x r. (\<forall>x y. I x \<longrightarrow> st x = Inr y \<longrightarrow> I y) \<longrightarrow> (\<forall>x r. I x \<longrightarrow> st x = Inl r \<longrightarrow> Q r) \<longrightarrow> I x \<longrightarrow> Q r"
  have "case_prod ?P (step, x) r"
  proof (rule iterate.raw_induct [where P = ?P])
    fix it :: "('b \<Rightarrow> 'a + 'b) \<Rightarrow> 'b \<Rightarrow> 'a option" and st x r
    assume IH: "\<And>st x r. it st x = Some r \<Longrightarrow> ?P st x r"
      and eq: "(case st x of Inl r \<Rightarrow> Some r | Inr y \<Rightarrow> it st y) = Some r"
    show "?P st x r"
    proof (cases "st x")
      case (Inl a)
      with eq show ?thesis by auto
    next
      case (Inr y)
      with eq have "it st y = Some r" by simp
      from IH [OF this] Inr show ?thesis by blast
    qed
  qed (use run in simp)
  then have "?P step x r" by (simp only: prod.case)
  then show ?thesis using start keep stop by (elim impE) (rule allI impI | erule (1) keep | erule (1) stop | assumption)+
qed

end
