(* ===== verification/Block_Builder.thy ===== *)
theory Block_Builder
  imports Block_Env Loops
begin

text \<open>
  The block builder: \<open>src/common/block_builder/src/block_builder.rs\<close>.

  \<open>build\<close> prepares an environment, fills it from the bundle pool, the sequential pool and the price
  pool, pays the tips and assembles the block.  Each step is one definition on the environment, in the
  order of the source; steps that also change a pool return it.  The trait \<open>CommitFlow\<close> is the
  record \<open>commit_flow\<close> and its implementation for the price pool \<open>price_flow\<close>.  The loop of
  \<open>commit_pool\<close> is an \<open>iterate\<close>, \<open>None\<close> if it never stops, since nothing in the trait makes it end.

  The pools are behind locks; other threads are assumed not to change them during a build.
\<close>

type_synonym ('tx, 's, 'e, 'a) build = "('tx, 's) environment \<Rightarrow> ('e build_error, 'a) outcome \<times> ('tx, 's) environment"

text \<open>A call that returns a database error, with \<open>?\<close> in a method that returns a \<open>BuildError\<close>.\<close>

definition try_state :: "(('tx, 's) environment \<Rightarrow> ('e, 'a) outcome \<times> ('tx, 's) environment) \<Rightarrow> ('tx, 's, 'e, 'a) build" where
  "try_state m env =
     (case m env of
        (Ok a, env) \<Rightarrow> (Ok a, env)
      | (Err e, env) \<Rightarrow> (Err (BuildStateError e), env)
      | (Panic, env) \<Rightarrow> (Panic, env))"

abbreviation on_state :: "('s \<Rightarrow> ('e + 'a) \<times> 's) \<Rightarrow> ('tx, 's, 'e, 'a) build" where
  "on_state f \<equiv> try_state (env_db f)"

section \<open>Bundles\<close>

record 'tx bundle_result =
  br_bundle :: "'tx eth_bundle"
  br_status :: string

datatype bundle_end = BundleDone | BundleReverted bool h256

definition prefetch_basic_info :: "('tx, 's, 'e, 'blk) builder \<Rightarrow> ('tx, 's, 'e, unit) build" where
  "prefetch_basic_info B env =
     (let miner = h_miner (env_header env);
          accounts = map (\<lambda>a. (a, [])) (bb_precompiles B) @ [(miner, [])] @
            (if bb_payer B \<noteq> miner then [(bb_payer B, [])] else []) @
            (case env_tips_recipient env of Some fee_recipient \<Rightarrow> [(fee_recipient, [])] | None \<Rightarrow> [])
      in on_state (sdb_prefetch (bb_db B) accounts) env)"

text \<open>The end of a failed bundle: the database and the block go back to where it started.\<close>

definition revert_bundle ::
  "('tx, 's, 'e, 'blk) builder \<Rightarrow> h256 \<Rightarrow> nat \<Rightarrow> bool \<Rightarrow> h256 \<Rightarrow> ('tx, 's, 'e, bundle_end) build" where
  "revert_bundle B root start_tcount stop hash env =
     (case revert_txs_to (bb_api B) start_tcount (env\<lparr>env_state := sdb_revert (bb_db B) root (env_state env)\<rparr>) of
        None \<Rightarrow> (Panic, env)
      | Some env \<Rightarrow> (Ok (BundleReverted stop hash), env))"

text \<open>The loop over the transactions of one bundle.\<close>

fun commit_bundle ::
  "('tx, 's, 'e, 'blk) builder \<Rightarrow> clock \<Rightarrow> h256 \<Rightarrow> nat \<Rightarrow> 'tx pool_tx list \<Rightarrow> ('tx, 's, 'e, bundle_end) build" where
  "commit_bundle B ck root start_tcount [] env = (Ok BundleDone, env)"
| "commit_bundle B ck root start_tcount (pool_tx # rest) env =
     and_then (on_state (sdb_get_balance (bb_db B) (h_miner (env_header env)))) (\<lambda>_ env.
       case commit_transaction B ck pool_tx env of
         (Ok (Success receipt), env) \<Rightarrow>
           (let env = env\<lparr>env_checked_txs := bt_insert (ptx_hash pool_tx) True (env_checked_txs env)\<rparr>
            in if ptx_allow_revert pool_tx \<or> bb_succ B receipt
               then commit_bundle B ck root start_tcount rest env
               else revert_bundle B root start_tcount False (ptx_hash pool_tx) env)
       | (Ok (Stop _), env) \<Rightarrow> revert_bundle B root start_tcount True (ptx_hash pool_tx) env
       | (Ok _, env) \<Rightarrow> revert_bundle B root start_tcount False (ptx_hash pool_tx) env
       | (Err e, env) \<Rightarrow> (Err (BuildStateError e), env)
       | (Panic, env) \<Rightarrow> (Panic, env)) env"

fun fill_bundles_loop ::
  "('tx, 's, 'e, 'blk) builder \<Rightarrow> clock \<Rightarrow> 'tx eth_bundle list \<Rightarrow> 'tx bundle_result list \<Rightarrow> ('tx, 's, 'e, 'tx bundle_result list) build" where
  "fill_bundles_loop B ck [] result env = (Ok result, env)"
| "fill_bundles_loop B ck (b # rest) result env =
     (let (alive, env) = is_alive ck env
      in if \<not> alive then (Ok result, env)
         else and_then (on_state (sdb_prefetch (bb_db B) (concat (map ptx_access_list (b_txs b))))) (\<lambda>_ env.
                let state = sdb_state_root (bb_db B) (env_state env);
                    start_tcount = length (env_txs env)
                in and_then (commit_bundle B ck state start_tcount (b_txs b)) (\<lambda>ended env.
                     case ended of
                       BundleReverted stop hash \<Rightarrow>
                         (let result = result @ [\<lparr>br_bundle = b, br_status = ''reverted in tx: '' @ show_hash (bb_bundles B) hash\<rparr>]
                          in if stop then (Ok result, env) else fill_bundles_loop B ck rest result env)
                     | BundleDone \<Rightarrow>
                         and_then (on_state (sdb_flush (bb_db B))) (\<lambda>_.
                           fill_bundles_loop B ck rest (result @ [\<lparr>br_bundle = b, br_status = ''submitted''\<rparr>])) env) env) env)"

definition fill_bundles ::
  "('tx, 's, 'e, 'blk) builder \<Rightarrow> clock \<Rightarrow> 'tx bundle_pool_list \<Rightarrow> ('tx, 's) environment
     \<Rightarrow> (('e build_error, 'tx bundle_result list) outcome \<times> ('tx, 's) environment) \<times> 'tx bundle_pool_list" where
  "fill_bundles B ck pool env =
     (let (bundle_list, pool) =
            bundle_pool_list_bundles (bb_bundles B) (h_number (env_header env)) (h_timestamp (env_header env)) pool
      in (fill_bundles_loop B ck bundle_list [] env, pool))"

section \<open>The sequential pool\<close>

fun fill_seq_loop ::
  "('tx, 's, 'e, 'blk) builder \<Rightarrow> clock \<Rightarrow> 'tx pool_tx list \<Rightarrow> u64 list \<Rightarrow> 'tx seq_pool \<Rightarrow> ('tx, 's) environment
     \<Rightarrow> (('e build_error, u64 list) outcome \<times> ('tx, 's) environment) \<times> 'tx seq_pool" where
  "fill_seq_loop B ck [] internal_tx pool env = ((Ok internal_tx, env), pool)"
| "fill_seq_loop B ck (pool_tx # rest) internal_tx pool env =
     (case commit_transaction B ck pool_tx env of
        (Ok (Success _), env) \<Rightarrow>
          (let now = ck_now ck (env_tick env);
               env = env\<lparr>env_tick := Suc (env_tick env)\<rparr>
           in (case seq_pool_get_live_time now pool (ptx_hash pool_tx) of
                 Some du \<Rightarrow> fill_seq_loop B ck rest (internal_tx @ [word_of_nat du div 12]) pool env
               | None \<Rightarrow> fill_seq_loop B ck rest internal_tx pool env))
      | (Ok (MarkFail reason), env) \<Rightarrow>
          fill_seq_loop B ck rest internal_tx (seq_pool_mark_fail (ptx_hash pool_tx) reason pool) env
      | (Ok RemoveTx, env) \<Rightarrow> fill_seq_loop B ck rest internal_tx (snd (seq_pool_remove (ptx_hash pool_tx) pool)) env
      | (Ok (Stop _), env) \<Rightarrow> ((Ok internal_tx, env), pool)
      | (Ok _, env) \<Rightarrow> fill_seq_loop B ck rest internal_tx pool env
      | (Err e, env) \<Rightarrow> ((Err (BuildStateError e), env), pool)
      | (Panic, env) \<Rightarrow> ((Panic, env), pool))"

definition fill_seq ::
  "('tx, 's, 'e, 'blk) builder \<Rightarrow> clock \<Rightarrow> 'tx seq_pool \<Rightarrow> ('tx, 's) environment
     \<Rightarrow> (('e build_error, u64 list) outcome \<times> ('tx, 's) environment) \<times> 'tx seq_pool" where
  "fill_seq B ck pool env =
     (let internal_list = seq_pool_list_by_seq pool
      in (case on_state (sdb_prefetch (bb_db B) (concat (map ptx_access_list internal_list))) env of
            (Ok _, env) \<Rightarrow> fill_seq_loop B ck internal_list [] pool env
          | (Err e, env) \<Rightarrow> ((Err e, env), pool)
          | (Panic, env) \<Rightarrow> ((Panic, env), pool)))"

section \<open>The price pool\<close>

record commit_stat =
  cs_removed :: u64
  cs_total :: u64
  cs_failed :: u64

record ('tx, 's, 'pool, 'list) commit_flow =
  fl_fetch :: "('tx, 's) environment \<Rightarrow> 'pool \<Rightarrow> 'list \<times> ('tx, 's) environment \<times> 'pool"
  fl_peekn :: "nat \<Rightarrow> 'list \<Rightarrow> 'tx pool_tx list"
  fl_peek :: "'list \<Rightarrow> 'tx pool_tx option"
  fl_shift :: "'list \<Rightarrow> 'list"
  fl_pop :: "'list \<Rightarrow> 'list"
  fl_remove_tx :: "h256 \<Rightarrow> 'pool \<Rightarrow> bool \<times> 'pool"

fun filter_nonce :: "('tx, 's, 'e, 'blk) builder \<Rightarrow> 'tx pool_tx list \<Rightarrow> ('tx, 's, 'e, 'tx pool_tx list) build" where
  "filter_nonce B [] env = (Ok [], env)"
| "filter_nonce B (tx # txs) env =
     and_then (on_state (sdb_get_nonce (bb_db B) (ptx_caller tx))) (\<lambda>nonce.
     and_then (filter_nonce B txs) (\<lambda>out env.
       (Ok (if nonce \<noteq> tx_nonce (bb_api B) (ptx_tx tx) then out else tx # out), env))) env"

text \<open>The start of a page: the callers and the access lists of the transactions that can run are prefetched.\<close>

definition prefetch_page :: "('tx, 's, 'e, 'blk) builder \<Rightarrow> 'tx pool_tx list \<Rightarrow> ('tx, 's, 'e, unit) build" where
  "prefetch_page B tx_list =
     and_then (on_state (sdb_prefetch (bb_db B) (map (\<lambda>n. (ptx_caller n, [])) tx_list))) (\<lambda>_.
     and_then (filter_nonce B tx_list) (\<lambda>valid_list.
     on_state (sdb_prefetch (bb_db B) (concat (map ptx_access_list valid_list)))))"

text \<open>
  The two loops of \<open>commit_pool\<close>, as steps of a single one: the page is \<open>None\<close> at the head of the outer
  loop and holds the transactions peeked for it within the inner loop.
\<close>

record ('tx, 's, 'pool, 'list) commit_state =
  cm_page :: "'tx pool_tx list option"
  cm_stat :: commit_stat
  cm_list :: 'list
  cm_pool :: 'pool
  cm_env :: "('tx, 's) environment"

definition commit_page ::
  "('tx, 's, 'e, 'blk) builder \<Rightarrow> clock \<Rightarrow> ('tx, 's, 'pool, 'list) commit_flow \<Rightarrow> nat \<Rightarrow> ('tx, 's, 'pool, 'list) commit_state
     \<Rightarrow> (('e build_error, commit_stat) outcome \<times> ('tx, 's, 'pool, 'list) commit_state) + ('tx, 's, 'pool, 'list) commit_state" where
  "commit_page B ck flow limit c =
     (let (alive, env) = is_alive ck (cm_env c);
          c = c\<lparr>cm_env := env\<rparr>
      in if \<not> alive then Inl (Ok (cm_stat c), c)
         else let tx_list = fl_peekn flow limit (cm_list c)
              in if tx_list = [] then Inl (Ok (cm_stat c), c)
                 else case prefetch_page B tx_list env of
                        (Ok _, env) \<Rightarrow> Inr (c\<lparr>cm_page := Some tx_list, cm_env := env\<rparr>)
                      | (Err e, env) \<Rightarrow> Inl (Err e, c\<lparr>cm_env := env\<rparr>)
                      | (Panic, env) \<Rightarrow> Inl (Panic, c\<lparr>cm_env := env\<rparr>))"

fun commit_apply ::
  "('tx, 's, 'pool, 'list) commit_flow \<Rightarrow> 'tx pool_tx \<Rightarrow> commit_action \<Rightarrow> ('tx, 's, 'pool, 'list) commit_state
     \<Rightarrow> (('e build_error, commit_stat) outcome \<times> ('tx, 's, 'pool, 'list) commit_state) + ('tx, 's, 'pool, 'list) commit_state" where
  "commit_apply flow pool_tx (Success _) c =
     Inr (c\<lparr>cm_stat := (cm_stat c)\<lparr>cs_total := cs_total (cm_stat c) + 1\<rparr>, cm_list := fl_shift flow (cm_list c)\<rparr>)"
| "commit_apply flow pool_tx Shift c = Inr (c\<lparr>cm_list := fl_shift flow (cm_list c)\<rparr>)"
| "commit_apply flow pool_tx (Pop _ _) c = Inr (c\<lparr>cm_list := fl_pop flow (cm_list c)\<rparr>)"
| "commit_apply flow pool_tx (MarkFail _) c =
     Inr (c\<lparr>cm_stat := (cm_stat c)\<lparr>cs_failed := cs_failed (cm_stat c) + 1\<rparr>, cm_list := fl_pop flow (cm_list c)\<rparr>)"
| "commit_apply flow pool_tx RemoveTx c =
     Inr (c\<lparr>cm_stat := (cm_stat c)\<lparr>cs_removed := cs_removed (cm_stat c) + 1\<rparr>,
            cm_pool := snd (fl_remove_tx flow (ptx_hash pool_tx) (cm_pool c)), cm_list := fl_shift flow (cm_list c)\<rparr>)"
| "commit_apply flow pool_tx (Stop _) c = Inl (Ok (cm_stat c), c\<lparr>cm_list := fl_pop flow (cm_list c)\<rparr>)"

definition commit_step ::
  "('tx, 's, 'e, 'blk) builder \<Rightarrow> clock \<Rightarrow> ('tx, 's, 'pool, 'list) commit_flow \<Rightarrow> nat \<Rightarrow> ('tx, 's, 'pool, 'list) commit_state
     \<Rightarrow> (('e build_error, commit_stat) outcome \<times> ('tx, 's, 'pool, 'list) commit_state) + ('tx, 's, 'pool, 'list) commit_state" where
  "commit_step B ck flow limit c =
     (case cm_page c of
        None \<Rightarrow> commit_page B ck flow limit c
      | Some tx_list \<Rightarrow>
          (case fl_peek flow (cm_list c) of
             None \<Rightarrow> Inr (c\<lparr>cm_page := None\<rparr>)
           | Some pool_tx \<Rightarrow>
               if ptx_hash pool_tx \<notin> set (map ptx_hash tx_list) then Inr (c\<lparr>cm_page := None\<rparr>)
               else case commit_transaction B ck pool_tx (cm_env c) of
                      (Ok action, env) \<Rightarrow> commit_apply flow pool_tx action (c\<lparr>cm_env := env\<rparr>)
                    | (Err e, env) \<Rightarrow> Inl (Ok (cm_stat c), c\<lparr>cm_env := env\<rparr>)
                    | (Panic, env) \<Rightarrow> Inl (Panic, c\<lparr>cm_env := env\<rparr>)))"

definition commit_pool ::
  "('tx, 's, 'e, 'blk) builder \<Rightarrow> clock \<Rightarrow> ('tx, 's, 'pool, 'list) commit_flow \<Rightarrow> nat \<Rightarrow> 'pool \<Rightarrow> ('tx, 's) environment
     \<Rightarrow> ((('e build_error, commit_stat) outcome \<times> ('tx, 's) environment) \<times> 'pool) option" where
  "commit_pool B ck flow limit pool env =
     (let (l, env, pool) = fl_fetch flow env pool
      in map_option (\<lambda>(r, c).
           (and_then (\<lambda>env. (r, env)) (\<lambda>stat. and_then (on_state (sdb_flush (bb_db B))) (\<lambda>_ env. (Ok stat, env))) (cm_env c),
            cm_pool c))
         (iterate (commit_step B ck flow limit)
            \<lparr>cm_page = None, cm_stat = \<lparr>cs_removed = 0, cs_total = 0, cs_failed = 0\<rparr>,
             cm_list = l, cm_pool = pool, cm_env = env\<rparr>))"

text \<open>\<open>PricePoolCommitFlow\<close>: the limit is \<open>usize::max_value()\<close>.\<close>

definition price_flow :: "'tx tx_api \<Rightarrow> ('tx, 's, 'tx price_pool, 'tx by_price) commit_flow" where
  "price_flow A =
     \<lparr>fl_fetch = (\<lambda>env pool.
        let base_fee = h_base_fee_per_gas (env_header env);
            (txs, checked, pool) = price_pool_list A (env_checked_txs env) (Some base_fee) (- 1) pool
        in (by_price_new A txs base_fee, env\<lparr>env_checked_txs := checked\<rparr>, pool)),
      fl_peekn = by_price_peekn, fl_peek = by_price_peek, fl_shift = by_price_shift A, fl_pop = by_price_pop,
      fl_remove_tx = price_pool_remove A\<rparr>"

definition fill_price ::
  "('tx, 's, 'e, 'blk) builder \<Rightarrow> clock \<Rightarrow> 'tx price_pool \<Rightarrow> ('tx, 's) environment
     \<Rightarrow> ((('e build_error, commit_stat) outcome \<times> ('tx, 's) environment) \<times> 'tx price_pool) option" where
  "fill_price B ck pool env = commit_pool B ck (price_flow (bb_api B)) 20 pool env"

section \<open>Tips\<close>

text \<open>The sum of the tips of the transactions, from the given index on.\<close>

fun sum_tips :: "('tx, 's, 'e, 'blk) builder \<Rightarrow> ('tx, 's) environment \<Rightarrow> nat \<Rightarrow> 'tx list \<Rightarrow> u256 \<Rightarrow> ('e build_error, u256) outcome" where
  "sum_tips B env idx [] total_tips = Ok total_tips"
| "sum_tips B env idx (tx # txs) total_tips =
     (if length (env_receipts env) \<le> idx then Err (InternalError ''receipt not match'')
      else case tx_reward (bb_api B) tx (r_gas_used (env_receipts env ! idx)) (Some (h_base_fee_per_gas (env_header env))) of
             None \<Rightarrow> Err (InternalError ''internal error'')
           | Some tips \<Rightarrow>
               (case chk_add total_tips tips of
                  None \<Rightarrow> Panic
                | Some total_tips \<Rightarrow> sum_tips B env (Suc idx) txs total_tips))"

definition calculate_profit :: "('tx, 's, 'e, 'blk) builder \<Rightarrow> ('tx, 's, 'e, u256) build" where
  "calculate_profit B env =
     and_then (on_state (sdb_get_balance (bb_db B) (h_miner (env_header env)))) (\<lambda>current_miner_balance env.
       let balance_changed = sat_sub current_miner_balance (env_miner_balance env)
       in and_then (\<lambda>env. (sum_tips B env 0 (env_txs env) 0, env)) (\<lambda>tx_tips env.
            (Ok (min tx_tips balance_changed), env)) env) env"

definition tips_gas :: "u8 list \<Rightarrow> u64" where
  "tips_gas code = (if length code = 0 then 21000 else 32000)"

definition tips_outcome :: "('tx, 's, 'e, 'blk) builder \<Rightarrow> 'tx pool_tx \<Rightarrow> commit_action \<Rightarrow> ('tx, 's, 'e, u256) build" where
  "tips_outcome B pool_tx action env =
     (case action of
        Success receipt \<Rightarrow>
          if \<not> bb_succ B receipt then (Err (SendTipsFail ''tx reverted''), env)
          else (Ok (tx_value (bb_api B) (ptx_tx pool_tx)), env)
      | other \<Rightarrow> (Err (SendTipsFail (bb_show_action B other)), env))"

definition fill_tips :: "('tx, 's, 'e, 'blk) builder \<Rightarrow> clock \<Rightarrow> u64 list \<Rightarrow> nat \<Rightarrow> ('tx, 's, 'e, u256) build" where
  "fill_tips B ck internals bundles env =
     and_then (calculate_profit B) (\<lambda>reward env.
       case env_tips_recipient env of
         None \<Rightarrow> (Ok 0, env)
       | Some recipient \<Rightarrow>
           and_then (on_state (sdb_get_code (bb_db B) recipient)) (\<lambda>code.
             let tx_gas = tips_gas code in
             and_then (or_panic (tips_strategy_get (bb_tips_strategy B) reward internals bundles)) (\<lambda>amount.
             and_then (or_panic (chk_mul (h_base_fee_per_gas (env_header env)) (ucast tx_gas))) (\<lambda>fee.
             and_then (\<lambda>env. (if amount < fee then Err FeeTooLow else Ok (amount - fee), env)) (\<lambda>amount.
             and_then (on_state (sdb_get_nonce (bb_db B) (bb_payer B))) (\<lambda>nonce env.
               let pool_tx = bb_tips_tx B nonce (h_base_fee_per_gas (env_header env)) tx_gas recipient amount;
                   env = env\<lparr>env_gas_pool := env_gas_pool env + 32000\<rparr>
               in and_then (try_state (commit_transaction B (ck\<lparr>ck_alive := \<lambda>_. True\<rparr>) pool_tx)) (tips_outcome B pool_tx) env))))) env) env"

section \<open>The block\<close>

fun add_withdrawals :: "('tx, 's, 'e, 'blk) builder \<Rightarrow> withdrawal list \<Rightarrow> ('tx, 's, 'e, unit) build" where
  "add_withdrawals B [] env = (Ok (), env)"
| "add_withdrawals B (w # ws) env =
     and_then (or_panic (chk_mul (ucast (w_amount w)) (bb_gwei B))) (\<lambda>amount.
     and_then (on_state (sdb_add_balance (bb_db B) (w_address w) amount)) (\<lambda>_.
     add_withdrawals B ws)) env"

definition finalize_and_assemble :: "('tx, 's, 'e, 'blk) builder \<Rightarrow> withdrawal list \<Rightarrow> ('tx, 's, 'e, 'blk) build" where
  "finalize_and_assemble B withdrawals =
     (let access_list = remdups_adj (sort_key fst (map (\<lambda>item. (w_address item, [])) withdrawals)) in
      and_then (on_state (sdb_prefetch (bb_db B) access_list)) (\<lambda>_.
      and_then (add_withdrawals B withdrawals) (\<lambda>_.
      and_then (on_state (sdb_flush (bb_db B))) (\<lambda>root env.
        (Ok (bb_block_new B ((env_header env)\<lparr>h_state_root := root\<rparr>) (env_txs env) (env_receipts env) withdrawals), env)))))"

record 'tx fill_result =
  fr_bundle_result :: "'tx bundle_result list"
  fr_internal_txs :: "u64 list"
  fr_profit :: u256

record ('tx, 'blk) block_result =
  bk_slot :: u64
  bk_block :: 'blk
  bk_bundles :: "'tx bundle_result list"
  bk_internal_txs :: "u64 list"
  bk_receipts :: "receipt list"
  bk_profit :: u256

text \<open>Before the first transaction: the gas pool, the prefetch and the balance of the miner.\<close>

definition fill_start :: "('tx, 's, 'e, 'blk) builder \<Rightarrow> ('tx, 's, 'e, unit) build" where
  "fill_start B env =
     (let env = env\<lparr>env_gas_pool := h_gas_limit (env_header env) - 32000\<rparr>
      in and_then (prefetch_basic_info B) (\<lambda>_.
         and_then (on_state (sdb_get_balance (bb_db B) (h_miner (env_header env)))) (\<lambda>balance env.
           (Ok (), env\<lparr>env_miner_balance := balance\<rparr>))) env)"

definition fill_transactions ::
  "('tx, 's, 'e, 'blk) builder \<Rightarrow> clock \<Rightarrow> 'tx tx_pool \<Rightarrow> ('tx, 's) environment
     \<Rightarrow> ((('e build_error, 'tx fill_result) outcome \<times> ('tx, 's) environment) \<times> 'tx tx_pool) option" where
  "fill_transactions B ck txpool env =
     (case fill_start B env of
        (Err e, env) \<Rightarrow> Some ((Err e, env), txpool)
      | (Panic, env) \<Rightarrow> Some ((Panic, env), txpool)
      | (Ok _, env) \<Rightarrow>
     (case fill_bundles B ck (tp_bundle_pool txpool) env of
        ((Err e, env), pool) \<Rightarrow> Some ((Err e, env), txpool\<lparr>tp_bundle_pool := pool\<rparr>)
      | ((Panic, env), pool) \<Rightarrow> Some ((Panic, env), txpool\<lparr>tp_bundle_pool := pool\<rparr>)
      | ((Ok bundle_result, env), pool) \<Rightarrow>
     (let txpool = txpool\<lparr>tp_bundle_pool := pool\<rparr> in
      case fill_seq B ck (tp_seq_pool txpool) env of
        ((Err e, env), pool) \<Rightarrow> Some ((Err e, env), txpool\<lparr>tp_seq_pool := pool\<rparr>)
      | ((Panic, env), pool) \<Rightarrow> Some ((Panic, env), txpool\<lparr>tp_seq_pool := pool\<rparr>)
      | ((Ok internal_txs, env), pool) \<Rightarrow>
     (let txpool = txpool\<lparr>tp_seq_pool := pool\<rparr> in
      map_option (\<lambda>((r, env), pool).
        (and_then (\<lambda>env. (r, env)) (\<lambda>_ env.
           if env_txs env = [] then (Err NoTx, env)
           else and_then (fill_tips B ck internal_txs (length bundle_result)) (\<lambda>profit env.
             (Ok \<lparr>fr_bundle_result = bundle_result, fr_internal_txs = internal_txs, fr_profit = profit\<rparr>, env)) env) env,
         txpool\<lparr>tp_price_pool := pool\<rparr>))
        (fill_price B ck (tp_price_pool txpool) env)))))"

text \<open>The end of \<open>build\<close>: the block, and the figures of the log line, which can fail.\<close>

definition build_finish ::
  "('tx, 's, 'e, 'blk) builder \<Rightarrow> build_payload \<Rightarrow> 'tx fill_result \<Rightarrow> ('tx, 's, 'e, ('tx, 'blk) block_result) build" where
  "build_finish B payload fill_result =
     and_then (finalize_and_assemble B (pl_withdrawals payload)) (\<lambda>block.
       let header = bb_block_header B block in
       and_then (or_panic (chk_mul (h_gas_used header) 100)) (\<lambda>pct.
       and_then (or_panic (chk_div pct (h_gas_limit header))) (\<lambda>_.
       and_then (on_state (sdb_get_balance (bb_db B) (h_miner header))) (\<lambda>_ env.
         (Ok \<lparr>bk_slot = pl_slot payload, bk_block = block, bk_bundles = fr_bundle_result fill_result,
              bk_internal_txs = fr_internal_txs fill_result, bk_receipts = env_receipts env,
              bk_profit = fr_profit fill_result\<rparr>, env)))))"

definition prepare_work ::
  "('tx, 's, 'e, 'blk) builder \<Rightarrow> 's \<Rightarrow> build_payload \<Rightarrow> ('tx, 's) environment option" where
  "prepare_work B state payload =
     map_option (\<lambda>header. environment_new state header (pl_tips_recipient payload) (pl_round payload))
       (next_block (bb_header_hash B) payload)"

definition build ::
  "('tx, 's, 'e, 'blk) builder \<Rightarrow> clock \<Rightarrow> 's \<Rightarrow> 'tx tx_pool \<Rightarrow> build_payload
     \<Rightarrow> (('e build_error, ('tx, 'blk) block_result) outcome \<times> 'tx tx_pool) option" where
  "build B ck state txpool payload =
     (case prepare_work B state payload of
        None \<Rightarrow> Some (Panic, txpool)
      | Some env \<Rightarrow>
          map_option (\<lambda>((r, env), txpool). (fst (and_then (\<lambda>env. (r, env)) (build_finish B payload) env), txpool))
            (fill_transactions B ck txpool env))"

end
