(* ===== verification/Block_Fill.thy ===== *)
theory Block_Fill
  imports Block_Builder
begin

text \<open>
  The invariant of the block under construction, through every step of a build, and what each step adds
  to the block: bundles go in whole or not at all, and a reverted bundle leaves no trace in the block
  or in the accounts.

  \<open>stays Q p\<close> says that the result \<open>p\<close> of a step satisfies \<open>Q\<close> unless the step panicked; its rules
  follow the shape of the definitions.
\<close>

definition stays :: "('x \<Rightarrow> bool) \<Rightarrow> ('e, 'a) outcome \<times> 'x \<Rightarrow> bool" where
  "stays Q p \<longleftrightarrow> (fst p \<noteq> Panic \<longrightarrow> Q (snd p))"

named_theorems stays_intros

lemma stays_Pair [stays_intros]: "(r \<noteq> Panic \<Longrightarrow> Q x) \<Longrightarrow> stays Q (r, x)"
  by (simp add: stays_def)

lemma stays_or_panic [stays_intros]: "Q x \<Longrightarrow> stays Q (or_panic v x)"
  by (simp add: stays_def or_panic_def split: option.splits)

lemma stays_and_then [stays_intros]:
  assumes "stays Q (m x)" and "\<And>a y. Q y \<Longrightarrow> stays Q (f a y)"
  shows "stays Q (and_then m f x)"
proof (cases "m x")
  case (Pair r y)
  with assms show ?thesis by (cases r) (auto simp: stays_def and_then_def)
qed

lemma staysD: "stays Q p \<Longrightarrow> p = (r, x) \<Longrightarrow> r \<noteq> Panic \<Longrightarrow> Q x"
  by (simp add: stays_def)

lemma stays_try_state [stays_intros]: "stays Q (m env) \<Longrightarrow> stays Q (try_state m env)"
  by (auto simp: stays_def try_state_def split: prod.splits outcome.splits)

lemma try_state_Ok: "try_state m env = (Ok a, env') \<longleftrightarrow> m env = (Ok a, env')"
  by (auto simp: try_state_def split: prod.splits outcome.splits)

lemma env_db_Ok: "env_db f env = (Ok v, env') \<longleftrightarrow> (\<exists>s. f (env_state env) = (Inr v, s) \<and> env' = env\<lparr>env_state := s\<rparr>)"
  by (auto simp: env_db_def split: prod.splits sum.splits)

section \<open>The invariant\<close>

text \<open>A block under construction whose header is \<open>h\<close> but for the gas used.\<close>

definition env_ok :: "('tx, 's, 'e, 'blk) builder \<Rightarrow> nat \<Rightarrow> block_header \<Rightarrow> ('tx, 's) environment \<Rightarrow> bool" where
  "env_ok B g h env \<longleftrightarrow> env_inv (bb_api B) g env \<and> env_header env = h\<lparr>h_gas_used := h_gas_used (env_header env)\<rparr>"

lemma env_ok_frame [simp]:
  "env_ok B g h (env\<lparr>env_state := s\<rparr>) = env_ok B g h env"
  "env_ok B g h (env\<lparr>env_checked_txs := c\<rparr>) = env_ok B g h env"
  "env_ok B g h (env\<lparr>env_tick := t\<rparr>) = env_ok B g h env"
  "env_ok B g h (env\<lparr>env_miner_balance := b\<rparr>) = env_ok B g h env"
  by (simp_all add: env_ok_def)

lemma env_ok_same: "same_block env env' \<Longrightarrow> env_ok B g h env' = env_ok B g h env"
  by (auto simp: env_ok_def same_block_inv dest: same_blockD)

lemma stays_env_db [stays_intros]: "env_ok B g h env \<Longrightarrow> stays (env_ok B g h) (env_db f env)"
  by (auto simp: stays_def env_db_def split: prod.splits sum.splits)

lemma commit_header:
  assumes "commit_transaction B ck pool_tx env = (r, env')" and "r \<noteq> Panic"
  shows "env_header env' = (env_header env)\<lparr>h_gas_used := h_gas_used (env_header env')\<rparr>"
proof (cases "\<exists>rc. r = Ok (Success rc)")
  case False
  with commit_transaction_same [OF assms(1)] assms(2) show ?thesis by (auto dest: same_blockD)
next
  case True
  then obtain rc where "commit_transaction B ck pool_tx env = (Ok (Success rc), env')" using assms by auto
  then obtain s where c: "commit_success B (ptx_tx pool_tx) rc ((env_before B pool_tx env)\<lparr>env_state := s\<rparr>) = (Ok (Success rc), env')"
    by (rule commit_transaction_Success)
  from commit_success_Ok(6) [OF c] show ?thesis by (simp add: env_before_def)
qed

lemma commit_transaction_stays [stays_intros]:
  assumes B: "gas_lawful B" and ok: "env_ok B g h env"
  shows "stays (env_ok B g h) (commit_transaction B ck pool_tx env)"
proof -
  obtain r env' where run: "commit_transaction B ck pool_tx env = (r, env')" by fastforce
  have "env_ok B g h env'" if "r \<noteq> Panic"
  proof -
    have "env_header env = h\<lparr>h_gas_used := h_gas_used (env_header env)\<rparr>" using ok by (simp add: env_ok_def)
    with commit_header [OF run that] have "env_header env' = h\<lparr>h_gas_used := h_gas_used (env_header env')\<rparr>"
      by (metis block_header.update_convs(4) block_header.surjective)
    with commit_transaction_inv [OF B _ run that] ok show ?thesis by (simp add: env_ok_def)
  qed
  with run show ?thesis by (simp add: stays_def)
qed

lemma commit_txs:
  assumes "commit_transaction B ck pool_tx env = (Ok (Success rc), env')"
  shows "env_txs env' = env_txs env @ [ptx_tx pool_tx]" "env_receipts env' = env_receipts env @ [rc]"
proof -
  from assms obtain s where c: "commit_success B (ptx_tx pool_tx) rc ((env_before B pool_tx env)\<lparr>env_state := s\<rparr>) = (Ok (Success rc), env')"
    by (rule commit_transaction_Success)
  from commit_success_Ok(2,3) [OF c]
  show "env_txs env' = env_txs env @ [ptx_tx pool_tx]" "env_receipts env' = env_receipts env @ [rc]" by (simp_all add: env_before_def)
qed

section \<open>Bundles\<close>

lemma header_chain: "a = h\<lparr>h_gas_used := x\<rparr> \<Longrightarrow> b = a\<lparr>h_gas_used := y\<rparr> \<Longrightarrow> b = h\<lparr>h_gas_used := y\<rparr>"
  by simp

lemma revert_bundle_ok:
  assumes ok: "env_ok B g h env" and g: "g < 2 ^ 64" and le: "start \<le> length (env_txs env)"
  obtains env' where "revert_bundle B root start stop hash env = (Ok (BundleReverted stop hash), env')"
    and "env_ok B g h env'" and "env_txs env' = take start (env_txs env)" and "env_receipts env' = take start (env_receipts env)"
    and "env_state env' = sdb_revert (bb_db B) root (env_state env)"
proof -
  let ?env = "env\<lparr>env_state := sdb_revert (bb_db B) root (env_state env)\<rparr>"
  have "env_inv (bb_api B) g ?env" "start \<le> length (env_txs ?env)" using ok le by (simp_all add: env_ok_def)
  from revert_txs_to_inv [OF this(1) g this(2)] obtain env' where e: "revert_txs_to (bb_api B) start ?env = Some env'" "env_inv (bb_api B) g env'"
    "env_txs env' = take start (env_txs env)" "env_receipts env' = take start (env_receipts env)"
    "env_header env' = (env_header env)\<lparr>h_gas_used := h_gas_used (env_header env')\<rparr>"
    "env_state env' = sdb_revert (bb_db B) root (env_state env)" by auto
  have "env_ok B g h env'" using e(2,5) ok header_chain unfolding env_ok_def by blast
  with e that show thesis by (simp add: revert_bundle_def)
qed

lemma take_Suc_prefix: "take (Suc (length ys)) xs = ys @ [y] \<Longrightarrow> take (length ys) xs = ys"
  by (drule arg_cong [of _ _ "take (length ys)"]) simp

text \<open>The block after a bundle.\<close>

definition bundle_block :: "'tx list \<Rightarrow> receipt list \<Rightarrow> nat \<Rightarrow> 'tx list \<Rightarrow> bundle_end \<Rightarrow> ('tx, 's) environment \<Rightarrow> bool" where
  "bundle_block txs rs start new e env \<longleftrightarrow>
     (case e of
        BundleDone \<Rightarrow> env_txs env = txs @ new \<and> take (length txs) (env_receipts env) = rs
      | BundleReverted _ _ \<Rightarrow> env_txs env = take start txs \<and> env_receipts env = take start rs)"

lemma commit_bundle_Ok:
  assumes B: "gas_lawful B" and g: "g < 2 ^ 64"
    and "env_ok B g h env" and "start \<le> length (env_txs env)" and "commit_bundle B ck root start ptxs env = (Ok e, env')"
  shows "env_ok B g h env' \<and> bundle_block (env_txs env) (env_receipts env) start (map ptx_tx ptxs) e env'"
  using assms(3-)
proof (induction ptxs arbitrary: env)
  case Nil
  then show ?case by (simp add: bundle_block_def env_ok_def env_inv_def receipts_ok_def)
next
  case (Cons t ts)
  obtain b env1 where b: "on_state (sdb_get_balance (bb_db B) (h_miner (env_header env))) env = (Ok b, env1)"
    using Cons.prems(3) by (auto simp: and_then_Ok)
  then have s1: "same_block env env1" by (auto simp: try_state_Ok dest: env_db_same)
  then have ok1: "env_ok B g h env1" and b1: "env_txs env1 = env_txs env" "env_receipts env1 = env_receipts env"
    using Cons.prems(1) by (auto simp: env_ok_same dest: same_blockD)
  obtain r env2 where c: "commit_transaction B ck t env1 = (r, env2)" by fastforce
  have np: "r \<noteq> Panic" using Cons.prems(3) b c by (auto simp: and_then_Ok split: prod.splits outcome.splits)
  have ok2: "env_ok B g h env2" by (rule staysD [OF commit_transaction_stays [OF B ok1] c np])
  have len: "length (env_txs env) = length (env_receipts env)" using Cons.prems(1) by (simp add: env_ok_def env_inv_def receipts_ok_def)
  let ?C = "\<lambda>env. env\<lparr>env_checked_txs := bt_insert (ptx_hash t) True (env_checked_txs env)\<rparr>"
  show ?case
  proof (cases "\<exists>rc. r = Ok (Success rc)")
    case True
    then obtain rc where rc: "r = Ok (Success rc)" by blast
    have b2: "env_txs env2 = env_txs env @ [ptx_tx t]" "env_receipts env2 = env_receipts env @ [rc]"
      using commit_txs c rc b1 by metis+
    show ?thesis
    proof (cases "ptx_allow_revert t \<or> bb_succ B rc")
      case True
      then have "commit_bundle B ck root start ts (?C env2) = (Ok e, env')"
        using Cons.prems(3) b c rc by (auto simp: and_then_Ok)
      with Cons.IH [of "?C env2"] ok2 b2 Cons.prems(2) len
      have "env_ok B g h env' \<and> bundle_block (env_txs env @ [ptx_tx t]) (env_receipts env @ [rc]) start (map ptx_tx ts) e env'" by simp
      with Cons.prems(2) len show ?thesis
        using take_Suc_prefix [of "env_receipts env" "env_receipts env'" rc] by (cases e) (simp_all add: bundle_block_def)
    next
      case False
      then have "revert_bundle B root start False (ptx_hash t) (?C env2) = (Ok e, env')"
        using Cons.prems(3) b c rc by (auto simp: and_then_Ok)
      with revert_bundle_ok [OF _ g, of B h "?C env2" start root False "ptx_hash t"] ok2 b2 Cons.prems(2) len show ?thesis
        by (auto simp: bundle_block_def split: bundle_end.splits)
    qed
  next
    case False
    then have "same_block env1 env2" using commit_transaction_same [OF c] np by blast
    then have b2: "env_txs env2 = env_txs env" "env_receipts env2 = env_receipts env" using b1 by (auto dest: same_blockD)
    have "\<exists>stop. revert_bundle B root start stop (ptx_hash t) env2 = (Ok e, env')"
      using Cons.prems(3) b c False by (auto simp: and_then_Ok split: outcome.splits commit_action.splits)
    then obtain stop where rv: "revert_bundle B root start stop (ptx_hash t) env2 = (Ok e, env')" by blast
    have le: "start \<le> length (env_txs env2)" using b2 Cons.prems(2) by simp
    show ?thesis
      by (rule revert_bundle_ok [OF ok2 g le, of root stop "ptx_hash t"]) (use rv b2 in \<open>auto simp: bundle_block_def\<close>)
  qed
qed

definition submitted_txs :: "'tx bundle_result list \<Rightarrow> 'tx list" where
  "submitted_txs rs = concat (map (\<lambda>r. map ptx_tx (b_txs (br_bundle r))) (filter (\<lambda>r. br_status r = ''submitted'') rs))"

lemma submitted_txs_snoc [simp]:
  "submitted_txs (rs @ [\<lparr>br_bundle = b, br_status = ''submitted''\<rparr>]) = submitted_txs rs @ map ptx_tx (b_txs b)"
  "submitted_txs (rs @ [\<lparr>br_bundle = b, br_status = ''reverted in tx: '' @ h\<rparr>]) = submitted_txs rs"
  "submitted_txs [] = []"
  by (simp_all add: submitted_txs_def)

text \<open>One round of the loop over the bundles.\<close>

lemma fill_bundles_round:
  assumes B: "gas_lawful B" and g: "g < 2 ^ 64" and ok: "env_ok B g h env"
    and run: "fill_bundles_loop B ck (b # rest) result env = (Ok out, env')"
  obtains "out = result" and "env_ok B g h env'" and "env_txs env' = env_txs env"
  | env1 r1 where "br_bundle r1 = b" and "env_ok B g h env1" and "env_txs env1 = env_txs env @ submitted_txs [r1]"
      and "(out = result @ [r1] \<and> env' = env1) \<or> fill_bundles_loop B ck rest (result @ [r1]) env1 = (Ok out, env')"
proof (cases "ck_alive ck (env_tick env)")
  case False
  with run ok that(1) show thesis by (auto simp: is_alive_def)
next
  case True
  let ?env = "env\<lparr>env_tick := Suc (env_tick env)\<rparr>"
  obtain u env1 e env2 where p: "on_state (sdb_prefetch (bb_db B) (concat (map ptx_access_list (b_txs b)))) ?env = (Ok u, env1)"
    and c: "commit_bundle B ck (sdb_state_root (bb_db B) (env_state env1)) (length (env_txs env1)) (b_txs b) env1 = (Ok e, env2)"
    and k: "(case e of BundleReverted stop hash \<Rightarrow>
        (let result = result @ [\<lparr>br_bundle = b, br_status = ''reverted in tx: '' @ show_hash (bb_bundles B) hash\<rparr>]
         in if stop then (Ok result, env2) else fill_bundles_loop B ck rest result env2)
      | BundleDone \<Rightarrow> and_then (on_state (sdb_flush (bb_db B))) (\<lambda>_.
          fill_bundles_loop B ck rest (result @ [\<lparr>br_bundle = b, br_status = ''submitted''\<rparr>])) env2) = (Ok out, env')"
    using run True by (auto simp: is_alive_def and_then_Ok Let_def)
  have s1: "same_block ?env env1" using p by (auto simp: try_state_Ok dest: env_db_same)
  then have ok1: "env_ok B g h env1" and t1: "env_txs env1 = env_txs env"
    using ok by (auto simp: env_ok_same dest: same_blockD)
  note b2 = commit_bundle_Ok [OF B g ok1 order.refl c]
  show thesis
  proof (cases e)
    case BundleDone
    then obtain v env3 where f: "on_state (sdb_flush (bb_db B)) env2 = (Ok v, env3)"
      and l: "fill_bundles_loop B ck rest (result @ [\<lparr>br_bundle = b, br_status = ''submitted''\<rparr>]) env3 = (Ok out, env')"
      using k by (auto simp: and_then_Ok)
    have "same_block env2 env3" using f by (auto simp: try_state_Ok dest: env_db_same)
    with b2 BundleDone t1 l show thesis
      by (intro that(2) [of "\<lparr>br_bundle = b, br_status = ''submitted''\<rparr>" env3])
        (auto simp: env_ok_same bundle_block_def submitted_txs_def dest: same_blockD)
  next
    case (BundleReverted stop hash)
    with b2 t1 k show thesis
      by (intro that(2) [of "\<lparr>br_bundle = b, br_status = ''reverted in tx: '' @ show_hash (bb_bundles B) hash\<rparr>" env2])
        (auto simp: bundle_block_def submitted_txs_def Let_def split: if_splits)
  qed
qed

lemma submitted_txs_append [simp]: "submitted_txs (xs @ ys) = submitted_txs xs @ submitted_txs ys"
  by (simp add: submitted_txs_def)

lemma fill_bundles_loop_Ok:
  assumes B: "gas_lawful B" and g: "g < 2 ^ 64"
  shows "env_ok B g h env \<Longrightarrow> fill_bundles_loop B ck bs result env = (Ok out, env') \<Longrightarrow>
    env_ok B g h env' \<and> (\<exists>new. out = result @ new \<and> env_txs env' = env_txs env @ submitted_txs new \<and>
      length new \<le> length bs \<and> map br_bundle new = take (length new) bs)"
proof (induction bs arbitrary: result env)
  case Nil
  then show ?case by auto
next
  case (Cons b bs)
  from B g Cons.prems show ?case
  proof (cases rule: fill_bundles_round)
    case 1
    then show ?thesis by auto
  next
    case (2 env1 r1)
    show ?thesis
    proof (cases "out = result @ [r1] \<and> env' = env1")
      case True
      with 2 show ?thesis by (intro conjI exI [of _ "[r1]"]) auto
    next
      case False
      with 2 have "fill_bundles_loop B ck bs (result @ [r1]) env1 = (Ok out, env')" by blast
      from Cons.IH [OF 2(2) this] obtain new where n: "env_ok B g h env'" "out = (result @ [r1]) @ new"
        "env_txs env' = env_txs env1 @ submitted_txs new" "length new \<le> length bs" "map br_bundle new = take (length new) bs" by blast
      from n 2(1,3) submitted_txs_append [of "[r1]" new] show ?thesis
        by (intro conjI exI [of _ "r1 # new"]) auto
    qed
  qed
qed

section \<open>The database under bundles\<close>

text \<open>
  The documented behaviour of \<open>flush\<close>, \<open>state_root\<close> and \<open>revert\<close>: \<open>known\<close> gives the balances and
  nonces of the roots a state can go back to; \<open>flush\<close> adds the current ones under the root it returns,
  and \<open>revert\<close> restores those of a known root.  No other call changes the roots.
\<close>

definition db_snapshots ::
  "('s, 'e) statedb \<Rightarrow> ('s \<Rightarrow> h160 \<Rightarrow> u256) \<Rightarrow> ('s \<Rightarrow> h160 \<Rightarrow> u64) \<Rightarrow> ('s \<Rightarrow> h256 \<Rightarrow> ((h160 \<Rightarrow> u256) \<times> (h160 \<Rightarrow> u64)) option) \<Rightarrow> bool" where
  "db_snapshots D bal non known \<longleftrightarrow>
     db_keeps D (\<lambda>s. (known s, sdb_state_root D s)) \<and>
     (\<forall>s r s'. sdb_flush D s = (Inr r, s') \<longrightarrow>
        bal s' = bal s \<and> non s' = non s \<and> sdb_state_root D s' = r \<and> known s' = (known s)(r \<mapsto> (bal s, non s))) \<and>
     (\<forall>r s b n. known s r = Some (b, n) \<longrightarrow>
        bal (sdb_revert D r s) = b \<and> non (sdb_revert D r s) = n \<and> sdb_state_root D (sdb_revert D r s) = r \<and>
        known (sdb_revert D r s) = known s)"

definition clean_state ::
  "('s, 'e) statedb \<Rightarrow> ('s \<Rightarrow> h160 \<Rightarrow> u256) \<Rightarrow> ('s \<Rightarrow> h160 \<Rightarrow> u64) \<Rightarrow> ('s \<Rightarrow> h256 \<Rightarrow> ((h160 \<Rightarrow> u256) \<times> (h160 \<Rightarrow> u64)) option) \<Rightarrow> 's \<Rightarrow> bool" where
  "clean_state D bal non known s \<longleftrightarrow> known s (sdb_state_root D s) = Some (bal s, non s)"

lemma env_db_keeps: "(\<And>s. obs (snd (f s)) = obs s) \<Longrightarrow> env_db f env = (r, env') \<Longrightarrow> obs (env_state env') = obs (env_state env)"
proof -
  assume "\<And>s. obs (snd (f s)) = obs s" and run: "env_db f env = (r, env')"
  from this(1) [of "env_state env"] run show ?thesis by (auto simp: env_db_def split: prod.splits sum.splits)
qed

lemma commit_transaction_keeps:
  assumes D: "db_keeps (bb_db B) obs" and E: "evm_keeps (bb_transact B) obs"
    and run: "commit_transaction B ck pool_tx env = (r, env')" and "r \<noteq> Panic"
  shows "obs (env_state env') = obs (env_state env)"
  using run
proof (cases rule: commit_transaction_cases)
  case (run q s)
  have s: "obs s = obs (env_state env)" using executor_apply_keeps [OF D E] run(1) by (metis snd_conv)
  let ?e = "(env_before B pool_tx env)\<lparr>env_state := s\<rparr>"
  show ?thesis
  proof (cases q)
    case (Ok rc)
    with run have c: "commit_success B (ptx_tx pool_tx) rc ?e = (r, env')" by simp
    from commit_success_Ok(10) [OF c \<open>r \<noteq> Panic\<close>] obtain b where
      "sdb_get_balance (bb_db B) (h_miner (env_header ?e)) s = (Inr b, env_state env')" by auto
    with db_keepsD(1) [OF D, of "h_miner (env_header ?e)" s] s show ?thesis by simp
  next
    case (Err e)
    with run have "commit_failure B (ptx_tx pool_tx) e ?e = (r, env')" by simp
    then have "env_state env' = s" by (cases e) (auto simp: commit_failure_def)
    with s show ?thesis by simp
  qed (use run assms in auto)
qed simp

lemma revert_txs_to_state: "revert_txs_to A at env = Some env' \<Longrightarrow> env_state env' = env_state env"
proof (induction A "at" env rule: revert_txs_to.induct)
  case (1 A "at" env)
  from "1.prems" show ?case
    by (subst (asm) revert_txs_to.simps)
      (auto simp: Let_def env_refund_gas_def split: if_splits option.splits dest!: "1.IH" [OF _ _ refl refl refl])
qed

lemma commit_bundle_state:
  assumes D: "db_keeps (bb_db B) obs" and E: "evm_keeps (bb_transact B) obs"
    and "commit_bundle B ck root start ptxs env = (Ok e, env')"
  shows "case e of
      BundleDone \<Rightarrow> obs (env_state env') = obs (env_state env)
    | BundleReverted _ _ \<Rightarrow> \<exists>s. env_state env' = sdb_revert (bb_db B) root s \<and> obs s = obs (env_state env)"
  using assms(3)
proof (induction ptxs arbitrary: env)
  case (Cons t ts)
  obtain b env1 where b: "on_state (sdb_get_balance (bb_db B) (h_miner (env_header env))) env = (Ok b, env1)"
    using Cons.prems by (auto simp: and_then_Ok)
  then have o1: "obs (env_state env1) = obs (env_state env)"
    by (intro env_db_keeps [where obs = obs and f = "sdb_get_balance (bb_db B) (h_miner (env_header env))"])
      (simp_all add: try_state_Ok db_keepsD(1) [OF D])
  obtain r env2 where c: "commit_transaction B ck t env1 = (r, env2)" by fastforce
  have np: "r \<noteq> Panic" using Cons.prems b c by (auto simp: and_then_Ok split: prod.splits outcome.splits)
  have o2: "obs (env_state env2) = obs (env_state env)" using commit_transaction_keeps [OF D E c np] o1 by simp
  have rev: ?case if "revert_bundle B root start stop (ptx_hash t) env3 = (Ok e, env')" "env_state env3 = env_state env2" for stop env3
    using that o2 by (auto simp: revert_bundle_def split: option.splits dest!: revert_txs_to_state)
  show ?case
  proof (cases "\<exists>rc. r = Ok (Success rc)")
    case True
    then obtain rc where rc: "r = Ok (Success rc)" by blast
    let ?env = "env2\<lparr>env_checked_txs := bt_insert (ptx_hash t) True (env_checked_txs env2)\<rparr>"
    consider "commit_bundle B ck root start ts ?env = (Ok e, env')" | "revert_bundle B root start False (ptx_hash t) ?env = (Ok e, env')"
      using Cons.prems b c rc by (auto simp: and_then_Ok Let_def split: if_splits)
    then show ?thesis
      by cases (use Cons.IH [of ?env] rev [of False ?env] o2 in \<open>auto split: bundle_end.splits\<close>)
  next
    case False
    then have "\<exists>stop. revert_bundle B root start stop (ptx_hash t) env2 = (Ok e, env')"
      using Cons.prems b c by (auto simp: and_then_Ok split: outcome.splits commit_action.splits)
    with rev show ?thesis by blast
  qed
qed simp

lemma db_snapshotsD:
  assumes "db_snapshots D bal non known"
  shows "db_keeps D (\<lambda>s. (known s, sdb_state_root D s))"
    and "sdb_flush D s = (Inr r, s') \<Longrightarrow> clean_state D bal non known s'"
    and "known s r = Some (b, n) \<Longrightarrow> bal (sdb_revert D r s) = b \<and> non (sdb_revert D r s) = n \<and>
      sdb_state_root D (sdb_revert D r s) = r \<and> known (sdb_revert D r s) = known s"
  using assms by (auto simp: db_snapshots_def clean_state_def)

text \<open>The same receipts mean the same gas.\<close>

lemma env_inv_gas:
  assumes "env_inv A g env" and "env_inv A g env'" and "env_receipts env' = env_receipts env"
  shows "env_gas_pool env' = env_gas_pool env" "h_gas_used (env_header env') = h_gas_used (env_header env)"
proof -
  show "h_gas_used (env_header env') = h_gas_used (env_header env)"
    using assms by (simp add: env_inv_def word_unat_eq_iff)
  then show "env_gas_pool env' = env_gas_pool env" using assms by (simp add: env_inv_def word_unat_eq_iff)
qed

text \<open>A reverted bundle, run from a clean state, leaves the block and the accounts as they were.\<close>

lemma reverted_bundle:
  assumes B: "gas_lawful B" and g: "g < 2 ^ 64" and S: "db_snapshots (bb_db B) bal non known"
    and E: "evm_keeps (bb_transact B) (\<lambda>s. (known s, sdb_state_root (bb_db B) s))"
    and ok: "env_ok B g h env" and clean: "clean_state (bb_db B) bal non known (env_state env)"
    and run: "commit_bundle B ck (sdb_state_root (bb_db B) (env_state env)) (length (env_txs env)) ptxs env =
      (Ok (BundleReverted stop hash), env')"
  shows "env_txs env' = env_txs env" "env_receipts env' = env_receipts env" "env_gas_pool env' = env_gas_pool env"
    "env_header env' = env_header env"
    "bal (env_state env') = bal (env_state env)" "non (env_state env') = non (env_state env)"
    "clean_state (bb_db B) bal non known (env_state env')"
proof -
  note b = commit_bundle_Ok [OF B g ok order.refl run]
  have len: "length (env_txs env) = length (env_receipts env)" using ok by (simp add: env_ok_def env_inv_def receipts_ok_def)
  from b len show t: "env_txs env' = env_txs env" "env_receipts env' = env_receipts env" by (simp_all add: bundle_block_def)
  have inv: "env_inv (bb_api B) g env" "env_inv (bb_api B) g env'" using ok b by (simp_all add: env_ok_def)
  show "env_gas_pool env' = env_gas_pool env" by (rule env_inv_gas [OF inv t(2)])
  have "h_gas_used (env_header env') = h_gas_used (env_header env)" by (rule env_inv_gas [OF inv t(2)])
  moreover have "env_header env' = h\<lparr>h_gas_used := h_gas_used (env_header env')\<rparr>" "env_header env = h\<lparr>h_gas_used := h_gas_used (env_header env)\<rparr>"
    using ok b by (simp_all add: env_ok_def)
  ultimately show "env_header env' = env_header env" by metis
  obtain s where s: "env_state env' = sdb_revert (bb_db B) (sdb_state_root (bb_db B) (env_state env)) s"
    "known s = known (env_state env)"
    using commit_bundle_state [OF db_snapshotsD(1) [OF S] E run] by auto
  note r = db_snapshotsD(3) [OF S, of s "sdb_state_root (bb_db B) (env_state env)"]
  with s clean show "bal (env_state env') = bal (env_state env)" "non (env_state env') = non (env_state env)"
    "clean_state (bb_db B) bal non known (env_state env')" by (auto simp: clean_state_def)
qed

text \<open>Every bundle of \<open>fill_bundles\<close> starts from a clean state when the first one does.\<close>

lemma prefetch_clean:
  assumes S: "db_snapshots D bal non known" and D: "lawful_db D bal non"
    and "env_db (sdb_prefetch D al) env = (r, env')" and "clean_state D bal non known (env_state env)"
  shows "clean_state D bal non known (env_state env')"
proof -
  obtain v s where p: "sdb_prefetch D al (env_state env) = (v, s)" and e: "env_state env' = s"
    using assms(3) by (auto simp: env_db_def split: prod.splits sum.splits)
  have "known s = known (env_state env)" "sdb_state_root D s = sdb_state_root D (env_state env)"
    using db_keepsD(10) [OF db_snapshotsD(1) [OF S], of al "env_state env"] p by simp_all
  with lawful_dbD(4) [OF D p] assms(4) e show ?thesis by (simp add: clean_state_def)
qed

lemma fill_bundles_clean:
  assumes B: "gas_lawful B" and g: "g < 2 ^ 64" and D: "lawful_db (bb_db B) bal non" and S: "db_snapshots (bb_db B) bal non known"
    and E: "evm_keeps (bb_transact B) (\<lambda>s. (known s, sdb_state_root (bb_db B) s))"
  shows "env_ok B g h env \<Longrightarrow> clean_state (bb_db B) bal non known (env_state env) \<Longrightarrow>
    fill_bundles_loop B ck bs result env = (Ok out, env') \<Longrightarrow> clean_state (bb_db B) bal non known (env_state env')"
proof (induction bs arbitrary: result env)
  case (Cons b bs)
  show ?case
  proof (cases "ck_alive ck (env_tick env)")
    case False
    with Cons.prems show ?thesis by (auto simp: is_alive_def)
  next
    case True
    let ?env = "env\<lparr>env_tick := Suc (env_tick env)\<rparr>"
    obtain u env1 e env2 where p: "on_state (sdb_prefetch (bb_db B) (concat (map ptx_access_list (b_txs b)))) ?env = (Ok u, env1)"
      and c: "commit_bundle B ck (sdb_state_root (bb_db B) (env_state env1)) (length (env_txs env1)) (b_txs b) env1 = (Ok e, env2)"
      and k: "(case e of BundleReverted stop hash \<Rightarrow>
          (let result = result @ [\<lparr>br_bundle = b, br_status = ''reverted in tx: '' @ show_hash (bb_bundles B) hash\<rparr>]
           in if stop then (Ok result, env2) else fill_bundles_loop B ck bs result env2)
        | BundleDone \<Rightarrow> and_then (on_state (sdb_flush (bb_db B))) (\<lambda>_.
            fill_bundles_loop B ck bs (result @ [\<lparr>br_bundle = b, br_status = ''submitted''\<rparr>])) env2) = (Ok out, env')"
      using Cons.prems(3) True by (auto simp: is_alive_def and_then_Ok Let_def)
    have "same_block ?env env1" using p by (auto simp: try_state_Ok dest: env_db_same)
    then have ok1: "env_ok B g h env1" using Cons.prems(1) by (simp add: env_ok_same)
    have c1: "clean_state (bb_db B) bal non known (env_state env1)"
      using prefetch_clean [OF S D] p Cons.prems(2) by (fastforce simp: try_state_Ok)
    have ok2: "env_ok B g h env2" using commit_bundle_Ok [OF B g ok1 order.refl c] by simp
    show ?thesis
    proof (cases e)
      case BundleDone
      then obtain r s where f: "sdb_flush (bb_db B) (env_state env2) = (Inr r, s)"
        and l: "fill_bundles_loop B ck bs (result @ [\<lparr>br_bundle = b, br_status = ''submitted''\<rparr>]) (env2\<lparr>env_state := s\<rparr>) = (Ok out, env')"
        using k by (auto simp: and_then_Ok try_state_Ok env_db_Ok)
      from Cons.IH [OF _ _ l] db_snapshotsD(2) [OF S f] ok2 show ?thesis by simp
    next
      case (BundleReverted stop hash)
      note c2 = reverted_bundle(7) [OF B g S E ok1 c1 c [unfolded BundleReverted]]
      from k Cons.IH [OF ok2 c2] c2 BundleReverted show ?thesis by (auto simp: Let_def split: if_splits)
    qed
  qed
qed simp

text \<open>C12: A bundle that is reverted leaves no trace: the transactions, the receipts, the gas pool and the header of the
  block are as before it, and so are all balances and nonces of the database, whichever of its
  transactions failed.  This is for a database that was flushed or reverted last, as it is when a bundle
  starts, with the documented behaviour of its roots.\<close>

theorem bundle_reverted_noop:
  assumes "gas_lawful B" and "g < 2 ^ 64" and "db_snapshots (bb_db B) bal non known"
    and "evm_keeps (bb_transact B) (\<lambda>s. (known s, sdb_state_root (bb_db B) s))"
    and "env_ok B g h env" and "clean_state (bb_db B) bal non known (env_state env)"
    and "commit_bundle B ck (sdb_state_root (bb_db B) (env_state env)) (length (env_txs env)) ptxs env =
      (Ok (BundleReverted stop hash), env')"
  shows "env_txs env' = env_txs env \<and> env_receipts env' = env_receipts env \<and> env_gas_pool env' = env_gas_pool env \<and>
    env_header env' = env_header env \<and> bal (env_state env') = bal (env_state env) \<and> non (env_state env') = non (env_state env)"
  using reverted_bundle [OF assms] by simp

text \<open>C13: Bundles are atomic in the block: \<open>fill_bundles\<close> adds exactly the transactions of the bundles it reports as
  submitted, each bundle whole and in the order of the list, and reports the bundles of a prefix of the
  list that the pool returned.  The invariant of the block is kept.\<close>

theorem fill_bundles_atomic:
  assumes "gas_lawful B" and "g < 2 ^ 64" and "env_ok B g h env"
    and run: "fill_bundles B ck pool env = ((Ok result, env'), pool')"
  shows "env_txs env' = env_txs env @ submitted_txs result \<and> env_ok B g h env' \<and>
    map br_bundle result =
      take (length result) (fst (bundle_pool_list_bundles (bb_bundles B) (h_number h) (h_timestamp h) pool))"
proof -
  have h: "env_header env = h\<lparr>h_gas_used := h_gas_used (env_header env)\<rparr>" using assms(3) by (simp add: env_ok_def)
  have "h_number (env_header env) = h_number h" "h_timestamp (env_header env) = h_timestamp h" by (subst h, simp)+
  then have "fill_bundles_loop B ck (fst (bundle_pool_list_bundles (bb_bundles B) (h_number h) (h_timestamp h) pool)) [] env = (Ok result, env')"
    using run by (auto simp: fill_bundles_def split: prod.splits)
  from fill_bundles_loop_Ok [OF assms(1-3) this] show ?thesis by auto
qed

end
