(* ===== verification/Block_Build.thy ===== *)
theory Block_Build
  imports Block_Fill
begin

text \<open>
  The whole build: it ends, and the block it returns is well formed.

  The interface \<open>paged_flow\<close> states what \<open>commit_pool\<close> needs of a \<open>CommitFlow\<close> to end: a page holds the
  transaction that \<open>peek\<close> returns, and \<open>shift\<close> and \<open>pop\<close> make the list smaller.  Inside it
  \<open>commit_pool\<close> is shown to end; the price pool's flow satisfies it, so every build ends.
\<close>

section \<open>Steps that leave the block alone\<close>

lemma stays_same_db: "same_block env0 env \<Longrightarrow> stays (same_block env0) (on_state f env)"
  by (intro stays_intros) (auto simp: stays_def dest: env_db_same [THEN same_block_trans [rotated], of f env "fst (env_db f env)" "snd (env_db f env)", simplified])

lemma filter_nonce_stays_same: "same_block env0 env \<Longrightarrow> stays (same_block env0) (filter_nonce B txs env)"
  by (induction txs arbitrary: env) (auto intro!: stays_Pair stays_and_then stays_same_db)

lemma prefetch_page_same:
  assumes "prefetch_page B txs env = (r, env')" and "r \<noteq> Panic"
  shows "same_block env env'"
proof -
  have "stays (same_block env) (prefetch_page B txs env)"
    unfolding prefetch_page_def by (intro stays_and_then stays_same_db filter_nonce_stays_same same_block_refl)
  with assms show ?thesis by (simp add: stays_def)
qed

lemma commit_apply_env:
  "commit_apply flow t action c = Inr c' \<Longrightarrow> cm_env c' = cm_env c"
  "commit_apply flow t action c = Inl (r, c') \<Longrightarrow> cm_env c' = cm_env c"
  by (cases action; auto)+

section \<open>The interface of a flow\<close>

locale paged_flow =
  fixes flow :: "('tx, 's, 'pool, 'list) commit_flow" and size :: "'list \<Rightarrow> nat" and ok :: "'list \<Rightarrow> bool"
  assumes fetch_ok: "ok (fst (fl_fetch flow env pool))"
    and peekn_peek: "fl_peek flow l = Some t \<Longrightarrow> 0 < n \<Longrightarrow> t \<in> set (fl_peekn flow n l)"
    and peekn_empty: "fl_peek flow l = None \<Longrightarrow> fl_peekn flow n l = []"
    and shift_less: "ok l \<Longrightarrow> fl_peek flow l = Some t \<Longrightarrow> ok (fl_shift flow l) \<and> size (fl_shift flow l) < size l"
    and pop_less: "ok l \<Longrightarrow> fl_peek flow l = Some t \<Longrightarrow> ok (fl_pop flow l) \<and> size (fl_pop flow l) < size l"
begin

text \<open>A page in which the inner loop makes progress comes first, then the outer loop, then a stale page.\<close>

definition page_rank :: "('tx, 's, 'pool, 'list) commit_state \<Rightarrow> nat" where
  "page_rank c =
     (case cm_page c of
        None \<Rightarrow> 1
      | Some tx_list \<Rightarrow>
          (case fl_peek flow (cm_list c) of
             None \<Rightarrow> 2
           | Some t \<Rightarrow> if ptx_hash t \<in> set (map ptx_hash tx_list) then 0 else 2))"

definition commit_measure :: "('tx, 's, 'pool, 'list) commit_state \<Rightarrow> nat" where
  "commit_measure c = 3 * size (cm_list c) + page_rank c"

lemma page_rank_le: "page_rank c \<le> 2"
  by (simp add: page_rank_def split: option.splits)

lemma commit_page_less:
  assumes "0 < limit" and "cm_page c = None" and "commit_page B ck flow limit c = Inr c'"
  shows "cm_list c' = cm_list c \<and> commit_measure c' < commit_measure c"
proof -
  obtain env env' where env: "c' = c\<lparr>cm_env := env, cm_page := Some (fl_peekn flow limit (cm_list c)), cm_env := env'\<rparr>"
    and ne: "fl_peekn flow limit (cm_list c) \<noteq> []"
    using assms(3) by (auto simp: commit_page_def is_alive_def Let_def split: if_splits prod.splits outcome.splits)
  obtain t where t: "fl_peek flow (cm_list c) = Some t" using ne peekn_empty by (cases "fl_peek flow (cm_list c)") auto
  have "ptx_hash t \<in> set (map ptx_hash (fl_peekn flow limit (cm_list c)))" using peekn_peek [OF t assms(1)] by simp
  with env t assms(2) show ?thesis by (simp add: commit_measure_def page_rank_def)
qed

lemma commit_apply_less:
  assumes "ok (cm_list c)" and "fl_peek flow (cm_list c) = Some t" and "commit_apply flow pool_tx action c = Inr c'"
  shows "ok (cm_list c') \<and> size (cm_list c') < size (cm_list c)"
  using assms shift_less [OF assms(1,2)] pop_less [OF assms(1,2)] by (cases action) auto

lemma commit_step_less:
  fixes B :: "('tx, 's, 'e, 'blk) builder"
  assumes ok: "ok (cm_list c)" and "0 < limit" and step: "commit_step B ck flow limit c = Inr c'"
  shows "ok (cm_list c') \<and> commit_measure c' < commit_measure c"
proof (cases "cm_page c")
  case None
  with step have "commit_page B ck flow limit c = Inr c'" by (simp add: commit_step_def)
  from commit_page_less [OF assms(2) None this] ok show ?thesis by simp
next
  case (Some tx_list)
  show ?thesis
  proof (cases "\<exists>t. fl_peek flow (cm_list c) = Some t \<and> ptx_hash t \<in> set (map ptx_hash tx_list)")
    case True
    then obtain t where t: "fl_peek flow (cm_list c) = Some t" "ptx_hash t \<in> set (map ptx_hash tx_list)" by blast
    obtain action env
      where "(commit_apply flow t action (c\<lparr>cm_env := env\<rparr>) :: (('e build_error, commit_stat) outcome \<times> _) + _) = Inr c'"
      using step Some t by (auto simp: commit_step_def split: prod.splits outcome.splits)
    from commit_apply_less [OF _ _ this] ok t page_rank_le [of c'] show ?thesis by (simp add: commit_measure_def)
  next
    case False
    then have "c' = c\<lparr>cm_page := None\<rparr>" "page_rank c = 2"
      using step Some by (auto simp: commit_step_def page_rank_def split: option.splits if_splits)
    with ok show ?thesis by (simp add: commit_measure_def page_rank_def)
  qed
qed

lemma commit_pool_ends:
  assumes "0 < limit"
  shows "\<exists>r. commit_pool B ck flow limit pool env = Some r"
proof -
  obtain l env1 pool1 where f: "fl_fetch flow env pool = (l, env1, pool1)" by (metis prod_cases3)
  then have "ok l" using fetch_ok [of env pool] by simp
  then have "\<exists>r. iterate (commit_step B ck flow limit)
      \<lparr>cm_page = None, cm_stat = \<lparr>cs_removed = 0, cs_total = 0, cs_failed = 0\<rparr>, cm_list = l, cm_pool = pool1, cm_env = env1\<rparr> = Some r"
    by (intro iterate_ends [where I = "\<lambda>c. ok (cm_list c)" and m = commit_measure]) (auto dest: commit_step_less [OF _ assms])
  with f show ?thesis by (auto simp: commit_pool_def)
qed

end

text \<open>The commits of a flow come from its list: \<open>items\<close> are the transactions it can still return.\<close>

locale item_flow = paged_flow +
  fixes items :: "'d \<Rightarrow> 'a pool_tx set"
  assumes peek_item: "fl_peek flow l = Some t \<Longrightarrow> t \<in> items l"
    and shift_items: "items (fl_shift flow l) \<subseteq> items l"
    and pop_items: "items (fl_pop flow l) \<subseteq> items l"
begin

text \<open>What has been committed so far, of the transactions \<open>S\<close>.\<close>

definition drawn :: "'a pool_tx set \<Rightarrow> 'a list \<Rightarrow> ('a, 'b, 'c, 'd) commit_state \<Rightarrow> bool" where
  "drawn S txs c \<longleftrightarrow> items (cm_list c) \<subseteq> S \<and> (\<exists>new. env_txs (cm_env c) = txs @ new \<and> set new \<subseteq> ptx_tx ` S)"

lemma commit_apply_drawn:
  assumes "items (cm_list c) \<subseteq> S"
  shows "commit_apply flow t action c = Inr c' \<Longrightarrow> items (cm_list c') \<subseteq> S"
    and "commit_apply flow t action c = Inl (r, c') \<Longrightarrow> items (cm_list c') \<subseteq> S"
  using assms shift_items [of "cm_list c"] pop_items [of "cm_list c"] by (cases action; auto)+

lemma commit_step_drawn:
  fixes B :: "('a, 'b, 'e, 'blk) builder"
  assumes S: "drawn S txs c"
  shows "case commit_step B ck flow limit c of Inr c' \<Rightarrow> drawn S txs c' | Inl p \<Rightarrow> fst p \<noteq> Panic \<longrightarrow> drawn S txs (snd p)"
proof (cases "cm_page c")
  case None
  have "env_txs env' = env_txs env" if "prefetch_page B ts env = (r, env')" "r \<noteq> Panic" for ts env r env'
    using prefetch_page_same [OF that] by (auto dest: same_blockD)
  with None S show ?thesis
    by (fastforce simp: commit_step_def commit_page_def is_alive_def Let_def drawn_def split: prod.splits outcome.splits)
next
  case (Some tx_list)
  show ?thesis
  proof (cases "\<exists>t. fl_peek flow (cm_list c) = Some t \<and> ptx_hash t \<in> set (map ptx_hash tx_list)")
    case True
    then obtain t where t: "fl_peek flow (cm_list c) = Some t" "ptx_hash t \<in> set (map ptx_hash tx_list)" by blast
    obtain r env where c: "commit_transaction B ck t (cm_env c) = (r, env)" by fastforce
    have tS: "t \<in> S" using peek_item [OF t(1)] S by (auto simp: drawn_def)
    have env: "\<exists>new. env_txs env = txs @ new \<and> set new \<subseteq> ptx_tx ` S" if "r \<noteq> Panic"
    proof (cases "\<exists>rc. r = Ok (Success rc)")
      case True
      then have "env_txs env = env_txs (cm_env c) @ [ptx_tx t]" using commit_txs(1) c by blast
      with S tS show ?thesis by (auto simp: drawn_def)
    next
      case False
      with commit_transaction_same [OF c] that have "env_txs env = env_txs (cm_env c)" by (auto dest: same_blockD)
      with S show ?thesis by (auto simp: drawn_def)
    qed
    have "items (cm_list (c\<lparr>cm_env := env\<rparr>)) \<subseteq> S" using S by (simp add: drawn_def)
    note a = commit_apply_drawn [OF this]
    from Some t c env S show ?thesis
      by (cases r) (auto simp: commit_step_def drawn_def split: sum.splits dest: commit_apply_env a)
  next
    case False
    with Some S show ?thesis by (auto simp: commit_step_def drawn_def split: option.splits)
  qed
qed

lemma commit_pool_drawn:
  fixes B :: "('a, 'b, 'e, 'blk) builder"
  assumes "fl_fetch flow env pool = (l, env1, pool1)" and "commit_pool B ck flow limit pool env = Some ((r, env'), pool')" and "r \<noteq> Panic"
  shows "\<exists>new. env_txs env' = env_txs env1 @ new \<and> set new \<subseteq> ptx_tx ` items l"
proof -
  obtain q c where it: "iterate (commit_step B ck flow limit)
      \<lparr>cm_page = None, cm_stat = \<lparr>cs_removed = 0, cs_total = 0, cs_failed = 0\<rparr>, cm_list = l, cm_pool = pool1, cm_env = env1\<rparr> = Some (q, c)"
    and p: "(r, env') = and_then (\<lambda>env. (q, env)) (\<lambda>stat. and_then (on_state (sdb_flush (bb_db B))) (\<lambda>_ env. (Ok stat, env))) (cm_env c)"
    using assms(1,2) by (auto simp: commit_pool_def)
  have "fst (q, c) \<noteq> Panic \<longrightarrow> drawn (items l) (env_txs env1) (snd (q, c))"
  proof (rule iterate_inv [OF it, where I = "drawn (items l) (env_txs env1)"])
    show "drawn (items l) (env_txs env1) y" if "drawn (items l) (env_txs env1) x" "commit_step B ck flow limit x = Inr y" for x y
      using commit_step_drawn [OF that(1), of B ck limit] that(2) by simp
    show "fst p \<noteq> Panic \<longrightarrow> drawn (items l) (env_txs env1) (snd p)" if "drawn (items l) (env_txs env1) x" "commit_step B ck flow limit x = Inl p" for x p
      using commit_step_drawn [OF that(1), of B ck limit] that(2) by simp
  qed (simp add: drawn_def)
  moreover have "q \<noteq> Panic" "env_txs env' = env_txs (cm_env c)"
    using p assms(3) by (auto simp: and_then_def try_state_def env_db_def split: outcome.splits prod.splits sum.splits)
  ultimately show ?thesis by (auto simp: drawn_def)
qed

end

section \<open>The price pool's flow\<close>

lemma price_list_loop_sorted:
  "bt_ok result \<Longrightarrow> bt_ok (fst (snd (price_list_loop A b limit limited pending result caches fltr n removed)))"
proof (induction A b limit limited pending result caches fltr n removed rule: price_list_loop.induct)
  case (2 A b limit limited addr l pending result caches fltr n removed)
  obtain txs dropped fltr' where f: "user_tx_list_flatten A fltr b l = (txs, dropped, fltr')" by (metis prod_cases3)
  let ?result = "if txs \<noteq> [] then bt_insert addr txs result else result"
  obtain l' caches' n' removed' where c: "clean_account A b limited addr dropped (n + user_tx_list_len l) l caches removed = (l', caches', n', removed')"
    by (metis prod_cases4)
  have ok: "bt_ok ?result" using "2.prems" by simp
  show ?case
  proof (cases "txs \<noteq> [] \<and> usize_le limit (length ?result)")
    case True
    with f ok show ?thesis by (auto simp: Let_def)
  next
    case False
    from "2.IH" [OF refl refl f [symmetric] refl refl False refl c [symmetric] refl refl ok]
    show ?thesis using f c False by (cases "txs = []") (auto simp: Let_def case_prod_beta)
  qed
qed simp

lemma price_pool_list_sorted: "bt_ok (fst (price_pool_list A fltr b limit p))"
  using price_list_loop_sorted [of "[]"] by (auto simp: price_pool_list_def case_prod_beta bt_ok_def)

lemma by_price_new_keys: "map fst (bp_txs (by_price_new A txs b)) = map fst txs"
  by (simp add: by_price_new_def by_price_heads_txs case_prod_beta comp_def)

lemma heap_peek_heads: "heap_peek hs = None \<longleftrightarrow> hs = []" "heap_peek hs = Some m \<longleftrightarrow> (\<exists>tl. hs = m # tl)"
  by (cases hs; auto)+

interpretation price_pages: paged_flow "price_flow A" by_price_len "\<lambda>q. distinct (map fst (bp_txs q))" for A
proof
  show "distinct (map fst (bp_txs (fst (fl_fetch (price_flow A) env pool))))" for env pool
    using price_pool_list_sorted [of A] by (auto simp: price_flow_def Let_def case_prod_beta by_price_new_keys bt_ok_def strict_sorted_iff)
  show "t \<in> set (fl_peekn (price_flow A) n l)" if "fl_peek (price_flow A) l = Some t" "0 < n" for l t n
    using that by (cases n) (auto simp: price_flow_def by_price_peek_def by_price_peekn_def heap_peek_heads max_def)
  show "fl_peekn (price_flow A) n l = []" if "fl_peek (price_flow A) l = None" for l n
    using that by (auto simp: price_flow_def by_price_peek_def by_price_peekn_def heap_peek_heads)
  show "distinct (map fst (bp_txs (fl_shift (price_flow A) l))) \<and> by_price_len (fl_shift (price_flow A) l) < by_price_len l"
    if "distinct (map fst (bp_txs l))" "fl_peek (price_flow A) l = Some t" for l t
  proof -
    have "bp_heads l \<noteq> []" using that(2) by (auto simp: price_flow_def by_price_peek_def)
    from by_price_shift_len [OF that(1) this, of A] that(1) show ?thesis by (simp add: price_flow_def)
  qed
  show "distinct (map fst (bp_txs (fl_pop (price_flow A) l))) \<and> by_price_len (fl_pop (price_flow A) l) < by_price_len l"
    if "distinct (map fst (bp_txs l))" "fl_peek (price_flow A) l = Some t" for l t
    using that by (auto simp: price_flow_def by_price_peek_def by_price_pop_def by_price_len_def heap_len_def heap_peek_heads)
qed

lemma set_heap_pop: "set (heap_pop hs) \<subseteq> set hs"
  by (cases hs) auto

lemma txs_of_adjust: "txs_of (bt_adjust a (\<lambda>_. ts) m) b = (if b = a \<and> map_of m a \<noteq> None then ts else txs_of m b)"
  by (auto simp: txs_of_def split: option.splits)

lemma by_price_shift_items: "queue_txs (by_price_shift A q) \<subseteq> queue_txs q"
proof (cases "heap_peek (bp_heads q)")
  case None
  then show ?thesis by (simp add: by_price_shift_def)
next
  case (Some m)
  then show ?thesis
  proof (cases rule: by_price_shift_cases [where A = A])
    case last
    then show ?thesis using set_heap_pop [of "bp_heads q"] by (auto simp: queue_txs_def)
  next
    case (promote t ts w)
    have "txs_of (bp_txs q) (head_sender A m) = t # ts" using promote(1) by (simp add: txs_of_def)
    then have "set (t # ts) \<subseteq> queue_txs q"
      using UN_upper [of "head_sender A m" UNIV "\<lambda>a. set (txs_of (bp_txs q) a)"] by (simp add: queue_txs_def le_supI2)
    then have ts: "set ts \<subseteq> queue_txs q" "t \<in> queue_txs q" by simp_all
    have "set (heap_push w (heap_pop (bp_heads q))) \<subseteq> insert w (set (bp_heads q))"
      using set_heap_push_subset [of w "heap_pop (bp_heads q)"] set_heap_pop [of "bp_heads q"] by blast
    then have "mf_tx ` set (heap_push w (heap_pop (bp_heads q))) \<subseteq> queue_txs q"
      using ts(2) promote(3) by (auto simp: queue_txs_def)
    moreover have "set (txs_of (bt_adjust (head_sender A m) (\<lambda>_. ts) (bp_txs q)) a) \<subseteq> queue_txs q" for a
      using ts(1) by (auto simp: txs_of_adjust queue_txs_def)
    ultimately show ?thesis unfolding promote(4) by (subst queue_txs_def) auto
  qed
qed

interpretation price_items: item_flow "price_flow A" by_price_len "\<lambda>q. distinct (map fst (bp_txs q))" queue_txs for A
proof
  show "t \<in> queue_txs l" if "fl_peek (price_flow A) l = Some t" for l t
    using that by (auto simp: price_flow_def by_price_peek_def queue_txs_def heap_peek_heads)
  show "queue_txs (fl_shift (price_flow A) l) \<subseteq> queue_txs l" for l
    using by_price_shift_items by (simp add: price_flow_def)
  show "queue_txs (fl_pop (price_flow A) l) \<subseteq> queue_txs l" for l
    using set_heap_pop [of "bp_heads l"] by (auto simp: price_flow_def by_price_pop_def queue_txs_def)
qed

lemma by_price_new_items:
  assumes "accounts_ok A txs" and "t \<in> queue_txs (by_price_new A txs b)"
  shows "\<exists>a l. (a, l) \<in> set txs \<and> t \<in> set l"
proof -
  note new = by_price_new_heads [OF assms(1), of b]
  have rest: "set (rest_of A b l) \<subseteq> set l" for l by (cases l) (auto simp: rest_of_def)
  consider w where "w \<in> set (bp_heads (by_price_new A txs b))" "t = mf_tx w"
    | a where "t \<in> set (txs_of (map (\<lambda>(a, l). (a, rest_of A b l)) txs) a)"
    using assms(2) new(2) by (auto simp: queue_txs_def)
  then show ?thesis
  proof cases
    case 1
    then obtain a l where "(a, l) \<in> set txs" "head_of A b l = Some w" using new(1) by blast
    with head_of_Some [OF this(2)] 1 show ?thesis by (metis list.set_intros(1))
  next
    case 2
    then obtain l where "(a, l) \<in> set (map (\<lambda>(a, l). (a, rest_of A b l)) txs)" "t \<in> set l"
      using map_of_SomeD [of "map (\<lambda>(a, l). (a, rest_of A b l)) txs" a]
      by (cases "map_of (map (\<lambda>(a, l). (a, rest_of A b l)) txs) a") (simp_all add: txs_of_def)
    with rest show ?thesis by auto
  qed
qed

section \<open>The invariant through a build\<close>

lemma fill_seq_loop_stays:
  assumes B: "gas_lawful B"
  shows "env_ok B g h env \<Longrightarrow> stays (env_ok B g h) (fst (fill_seq_loop B ck ptxs acc pool env))"
proof (induction ptxs arbitrary: acc pool env)
  case (Cons t ts)
  obtain r env1 where c: "commit_transaction B ck t env = (r, env1)" by fastforce
  have ok1: "env_ok B g h env1" if "r \<noteq> Panic" by (rule staysD [OF commit_transaction_stays [OF B Cons.prems] c that])
  show ?case
  proof (cases r)
    case (Ok action)
    with c Cons.IH ok1 show ?thesis by (cases action) (auto simp: Let_def stays_def split: option.splits)
  qed (use c ok1 in \<open>auto simp: stays_def\<close>)
qed (simp add: stays_def)

lemma fill_seq_stays:
  assumes B: "gas_lawful B" and ok: "env_ok B g h env"
  shows "stays (env_ok B g h) (fst (fill_seq B ck pool env))"
proof -
  obtain r env1 where p: "on_state (sdb_prefetch (bb_db B) (concat (map ptx_access_list (seq_pool_list_by_seq pool)))) env = (r, env1)"
    by fastforce
  have "stays (env_ok B g h) (r, env1)" unfolding p [symmetric] using ok by (intro stays_intros)
  with p fill_seq_loop_stays [OF B, of g h env1] show ?thesis
    by (cases r) (auto simp: fill_seq_def Let_def stays_def)
qed

lemma filter_nonce_stays: "env_ok B g h env \<Longrightarrow> stays (env_ok B g h) (filter_nonce B txs env)"
  by (induction txs arbitrary: env) (auto intro!: stays_intros)

lemma prefetch_page_stays: "env_ok B g h env \<Longrightarrow> stays (env_ok B g h) (prefetch_page B txs env)"
  unfolding prefetch_page_def by (intro stays_intros filter_nonce_stays)

lemma commit_step_env:
  fixes B :: "('tx, 's, 'e, 'blk) builder"
  assumes B: "gas_lawful B" and ok: "env_ok B g h (cm_env c)"
  shows "commit_step B ck flow limit c = Inr c' \<Longrightarrow> env_ok B g h (cm_env c')"
    and "commit_step B ck flow limit c = Inl (r, c') \<Longrightarrow> r \<noteq> Panic \<longrightarrow> env_ok B g h (cm_env c')"
proof -
  have "case commit_step B ck flow limit c of Inr c' \<Rightarrow> env_ok B g h (cm_env c') | Inl p \<Rightarrow> fst p \<noteq> Panic \<longrightarrow> env_ok B g h (cm_env (snd p))"
  proof (cases "cm_page c")
    case None
    have "stays (env_ok B g h) (prefetch_page B (fl_peekn flow limit (cm_list c)) (snd (is_alive ck (cm_env c))))"
      using ok by (intro prefetch_page_stays) (simp add: is_alive_def)
    with None ok show ?thesis
      by (auto simp: commit_step_def commit_page_def is_alive_def Let_def stays_def split: prod.splits outcome.splits)
  next
    case (Some tx_list)
    show ?thesis
    proof (cases "\<exists>t. fl_peek flow (cm_list c) = Some t \<and> ptx_hash t \<in> set (map ptx_hash tx_list)")
      case True
      then obtain t where t: "fl_peek flow (cm_list c) = Some t" "ptx_hash t \<in> set (map ptx_hash tx_list)" by blast
      obtain r' env' where c: "commit_transaction B ck t (cm_env c) = (r', env')" by fastforce
      have "env_ok B g h env'" if "r' \<noteq> Panic" by (rule staysD [OF commit_transaction_stays [OF B ok] c that])
      then show ?thesis using Some t c
        by (cases r') (auto simp: commit_step_def split: sum.splits dest!: commit_apply_env)
    next
      case False
      with Some ok show ?thesis by (auto simp: commit_step_def split: option.splits)
    qed
  qed
  then show "commit_step B ck flow limit c = Inr c' \<Longrightarrow> env_ok B g h (cm_env c')"
    and "commit_step B ck flow limit c = Inl (r, c') \<Longrightarrow> r \<noteq> Panic \<longrightarrow> env_ok B g h (cm_env c')" by auto
qed

lemma commit_pool_stays:
  fixes B :: "('tx, 's, 'e, 'blk) builder"
  assumes B: "gas_lawful B" and ok: "env_ok B g h (fst (snd (fl_fetch flow env pool)))"
    and run: "commit_pool B ck flow limit pool env = Some (p, pool')"
  shows "stays (env_ok B g h) p"
proof -
  obtain l env1 pool1 where f: "fl_fetch flow env pool = (l, env1, pool1)" by (metis prod_cases3)
  then obtain r c where it: "iterate (commit_step B ck flow limit)
      \<lparr>cm_page = None, cm_stat = \<lparr>cs_removed = 0, cs_total = 0, cs_failed = 0\<rparr>, cm_list = l, cm_pool = pool1, cm_env = env1\<rparr> = Some (r, c)"
    and p: "p = and_then (\<lambda>env. (r, env)) (\<lambda>stat. and_then (on_state (sdb_flush (bb_db B))) (\<lambda>_ env. (Ok stat, env))) (cm_env c)"
    using run by (auto simp: commit_pool_def)
  have "fst (r, c) \<noteq> Panic \<longrightarrow> env_ok B g h (cm_env (snd (r, c)))"
    by (rule iterate_inv [OF it, where I = "\<lambda>c. env_ok B g h (cm_env c)"])
      (use ok f in \<open>auto dest: commit_step_env(1) [OF B] commit_step_env(2) [OF B]\<close>)
  then show ?thesis unfolding p by (intro stays_intros) (auto intro!: stays_intros)
qed

lemma fill_price_stays:
  assumes "gas_lawful B" and "env_ok B g h env" and "fill_price B ck pool env = Some (p, pool')"
  shows "stays (env_ok B g h) p"
  using assms by (intro commit_pool_stays [OF assms(1)]) (auto simp: fill_price_def price_flow_def Let_def case_prod_beta)

text \<open>The gas kept for the tips is given back to the pool before they are paid.\<close>

lemma calculate_profit_stays: "env_ok B g h env \<Longrightarrow> stays (env_ok B g h) (calculate_profit B env)"
  unfolding calculate_profit_def Let_def by (auto intro!: stays_intros)

lemma env_ok_more_gas:
  assumes "env_ok B g h env" and "g + 32000 < 2 ^ 64"
  shows "env_ok B (g + 32000) h (env\<lparr>env_gas_pool := env_gas_pool env + 32000\<rparr>)"
proof -
  have "unat (env_gas_pool env) + unat (32000 :: u64) < 2 ^ LENGTH(64)"
    using assms by (simp add: env_ok_def env_inv_def)
  then have "unat (env_gas_pool env + 32000) = unat (env_gas_pool env) + 32000" by (simp add: unat_add_small)
  with assms show ?thesis by (simp add: env_ok_def env_inv_def)
qed

lemma tips_outcome_Ok:
  "tips_outcome B t a env = (Ok v, env') \<longleftrightarrow>
     (\<exists>rc. a = Success rc \<and> bb_succ B rc \<and> v = tx_value (bb_api B) (ptx_tx t) \<and> env' = env)"
  by (cases a) (auto simp: tips_outcome_def)

text \<open>The steps of \<open>fill_tips\<close> that succeed.\<close>

lemma fill_tips_Ok:
  assumes "fill_tips B ck internals bundles env = (Ok v, env')"
  obtains (no_recipient) reward where "env_tips_recipient env' = None" and "v = 0" and "calculate_profit B env = (Ok reward, env')"
    | (paid) reward env1 recipient amount fee env2 nonce rc tx_gas where
      "calculate_profit B env = (Ok reward, env1)" and "env_tips_recipient env1 = Some recipient"
      and "tips_strategy_get (bb_tips_strategy B) reward internals bundles = Some amount"
      and "tx_gas = 21000 \<or> tx_gas = 32000"
      and "unat fee = unat (h_base_fee_per_gas (env_header env1)) * unat (tx_gas :: u64)" and "fee \<le> amount"
      and "same_block env1 env2"
      and "commit_transaction B (ck\<lparr>ck_alive := \<lambda>_. True\<rparr>)
        (bb_tips_tx B nonce (h_base_fee_per_gas (env_header env2)) tx_gas recipient (amount - fee))
        (env2\<lparr>env_gas_pool := env_gas_pool env2 + 32000\<rparr>) = (Ok (Success rc), env')"
      and "bb_succ B rc"
      and "v = tx_value (bb_api B) (ptx_tx (bb_tips_tx B nonce (h_base_fee_per_gas (env_header env2)) tx_gas recipient (amount - fee)))"
proof -
  obtain reward env1 where p: "calculate_profit B env = (Ok reward, env1)"
    using assms by (auto simp: fill_tips_def and_then_Ok)
  show thesis
  proof (cases "env_tips_recipient env1")
    case None
    with assms p no_recipient show thesis by (auto simp: fill_tips_def and_then_Ok)
  next
    case (Some recipient)
    let ?tx = "\<lambda>nonce env code amount. bb_tips_tx B nonce (h_base_fee_per_gas (env_header env)) (tips_gas code) recipient amount"
    obtain code env2 amount fee env3 nonce rc where
      c: "on_state (sdb_get_code (bb_db B) recipient) env1 = (Ok code, env2)"
      and t: "tips_strategy_get (bb_tips_strategy B) reward internals bundles = Some amount"
      and f: "chk_mul (h_base_fee_per_gas (env_header env1)) (ucast (tips_gas code)) = Some fee"
      and a: "fee \<le> amount"
      and n: "on_state (sdb_get_nonce (bb_db B) (bb_payer B)) env2 = (Ok nonce, env3)"
      and r: "commit_transaction B (ck\<lparr>ck_alive := \<lambda>_. True\<rparr>) (?tx nonce env3 code (amount - fee))
        (env3\<lparr>env_gas_pool := env_gas_pool env3 + 32000\<rparr>) = (Ok (Success rc), env')"
      and k: "bb_succ B rc" "v = tx_value (bb_api B) (ptx_tx (?tx nonce env3 code (amount - fee)))"
      using assms p Some unfolding fill_tips_def and_then_Ok Let_def
      by (auto simp: and_then_Ok try_state_Ok tips_outcome_Ok not_less split: if_splits)
    have "same_block env1 env2" "same_block env2 env3" using c n by (auto simp: try_state_Ok dest: env_db_same)
    then have "same_block env1 env3" by (rule same_block_trans)
    have tg: "tips_gas code = 21000 \<or> tips_gas code = 32000" by (simp add: tips_gas_def)
    show thesis
      by (rule paid [OF p Some t tg _ a \<open>same_block env1 env3\<close> r k]) (use f in \<open>simp add: chk_simps\<close>)
  qed
qed

section \<open>The block\<close>

lemma fill_start_Ok:
  assumes "fill_start B env = (Ok u, env')" and "env_txs env = []" and "env_receipts env = []" and "h_gas_used (env_header env) = 0"
  shows "env_ok B (unat (h_gas_limit (env_header env) - 32000)) (env_header env) env'"
proof -
  let ?env = "env\<lparr>env_gas_pool := h_gas_limit (env_header env) - 32000\<rparr>"
  let ?ok = "env_ok B (unat (h_gas_limit (env_header env) - 32000)) (env_header env)"
  have "?ok ?env" using assms(2-4) by (simp add: env_ok_def env_inv_def receipts_ok_def)
  then have "stays ?ok (fill_start B env)"
    unfolding fill_start_def Let_def prefetch_basic_info_def by (auto intro!: stays_intros)
  with assms(1) show ?thesis by (simp add: stays_def)
qed

text \<open>The block is within a gas limit and not empty.\<close>

definition filled :: "('tx, 's, 'e, 'blk) builder \<Rightarrow> nat \<Rightarrow> block_header \<Rightarrow> ('tx, 's) environment \<Rightarrow> bool" where
  "filled B limit h env \<longleftrightarrow> (\<exists>g\<le>limit. env_ok B g h env) \<and> env_txs env \<noteq> []"

lemma fill_tips_filled:
  assumes B: "gas_lawful B" and ok: "env_ok B g h env" and g: "g + 32000 = limit" "limit < 2 ^ 64" and ne: "env_txs env \<noteq> []"
    and run: "fill_tips B ck internals bundles env = (Ok v, env')"
  shows "filled B limit h env'"
proof -
  have profit: "env_ok B g h env1 \<and> env_txs env1 = env_txs env" if "calculate_profit B env = (Ok r, env1)" for r env1
  proof
    show "env_ok B g h env1" by (rule staysD [OF calculate_profit_stays [OF ok] that]) simp
    show "env_txs env1 = env_txs env" using that by (auto simp: calculate_profit_def and_then_Ok Let_def try_state_Ok env_db_Ok)
  qed
  from run show ?thesis
  proof (cases rule: fill_tips_Ok)
    case no_recipient
    then show ?thesis using profit g ne by (auto simp: filled_def intro!: exI [of _ g])
  next
    case (paid reward env1 recipient amount fee env2 nonce rc tx_gas)
    have "env_ok B g h env2" using profit paid(1,7) by (simp add: env_ok_same)
    then have "env_ok B limit h (env2\<lparr>env_gas_pool := env_gas_pool env2 + 32000\<rparr>)" using env_ok_more_gas g by fastforce
    from staysD [OF commit_transaction_stays [OF B this] paid(8)] commit_txs(1) [OF paid(8)] show ?thesis
      by (auto simp: filled_def)
  qed
qed

lemma fill_transactions_Ok:
  assumes "fill_transactions B ck txpool env = Some ((Ok fr, env'), txpool')"
  obtains env0 bundle_result env1 pool1 internal_txs env2 pool2 stat env3 pool3 profit where
    "fill_start B env = (Ok (), env0)"
    and "fill_bundles B ck (tp_bundle_pool txpool) env0 = ((Ok bundle_result, env1), pool1)"
    and "fill_seq B ck (tp_seq_pool txpool) env1 = ((Ok internal_txs, env2), pool2)"
    and "fill_price B ck (tp_price_pool txpool) env2 = Some ((Ok stat, env3), pool3)"
    and "env_txs env3 \<noteq> []"
    and "fill_tips B ck internal_txs (length bundle_result) env3 = (Ok profit, env')"
    and "fr = \<lparr>fr_bundle_result = bundle_result, fr_internal_txs = internal_txs, fr_profit = profit\<rparr>"
proof -
  obtain r0 env0 where s: "fill_start B env = (r0, env0)" by fastforce
  with assms have r0: "r0 = Ok ()" by (cases r0) (auto simp: fill_transactions_def)
  obtain r1 env1 pool1 where b: "fill_bundles B ck (tp_bundle_pool txpool) env0 = ((r1, env1), pool1)" by (metis surj_pair)
  with assms s r0 obtain bundle_result where r1: "r1 = Ok bundle_result" by (cases r1) (auto simp: fill_transactions_def)
  obtain r2 env2 pool2 where q: "fill_seq B ck (tp_seq_pool txpool) env1 = ((r2, env2), pool2)" by (metis surj_pair)
  with assms s r0 b r1 obtain internal_txs where r2: "r2 = Ok internal_txs" by (cases r2) (auto simp: fill_transactions_def)
  obtain r3 env3 pool3 where p: "fill_price B ck (tp_price_pool txpool) env2 = Some ((r3, env3), pool3)"
    using assms s r0 b r1 q r2 by (auto simp: fill_transactions_def)
  with assms s r0 b r1 q r2 obtain stat profit where k: "r3 = Ok stat" "env_txs env3 \<noteq> []"
    "fill_tips B ck internal_txs (length bundle_result) env3 = (Ok profit, env')"
    "fr = \<lparr>fr_bundle_result = bundle_result, fr_internal_txs = internal_txs, fr_profit = profit\<rparr>"
    by (auto simp: fill_transactions_def and_then_Ok split: if_splits)
  show thesis by (rule that [OF s [unfolded r0] b [unfolded r1] q [unfolded r2] p [unfolded k(1)] k(2-4)])
qed

lemma fill_transactions_filled:
  assumes B: "gas_lawful B" and new: "env_txs env = []" "env_receipts env = []" "h_gas_used (env_header env) = 0"
    and limit: "32000 \<le> h_gas_limit (env_header env)"
    and run: "fill_transactions B ck txpool env = Some ((Ok fr, env'), txpool')"
  shows "filled B (unat (h_gas_limit (env_header env))) (env_header env) env'"
  using run
proof (cases rule: fill_transactions_Ok)
  case (1 env0 bundle_result env1 pool1 internal_txs env2 pool2 stat env3 pool3 profit)
  let ?g = "unat (h_gas_limit (env_header env) - 32000)" and ?h = "env_header env"
  have g: "?g + 32000 = unat (h_gas_limit ?h)" using limit by (simp add: unat_sub word_le_nat_alt)
  have lim: "unat (h_gas_limit ?h) < 2 ^ 64" by (rule unat_u64_less)
  have "env_ok B ?g ?h env0" by (rule fill_start_Ok [OF 1(1) new])
  then have "env_ok B ?g ?h env1"
    using fill_bundles_loop_Ok [OF B, of ?g ?h env0] 1(2) g lim by (fastforce simp: fill_bundles_def split: prod.splits)
  with fill_seq_stays [OF B, of ?g ?h env1 ck "tp_seq_pool txpool"] 1(3) have "env_ok B ?g ?h env2" by (simp add: stays_def)
  with fill_price_stays [OF B _ 1(4)] have ok3: "env_ok B ?g ?h env3" by (simp add: stays_def)
  show ?thesis by (rule fill_tips_filled [OF B ok3 g lim 1(5,6)])
qed

lemma add_withdrawals_same: "add_withdrawals B ws env = (Ok (), env') \<Longrightarrow> same_block env env'"
proof (induction ws arbitrary: env)
  case (Cons w ws)
  then obtain amount env1 where "on_state (sdb_add_balance (bb_db B) (w_address w) amount) env = (Ok (), env1)"
    "add_withdrawals B ws env1 = (Ok (), env')" by (auto simp: and_then_Ok)
  with Cons.IH show ?case by (auto simp: try_state_Ok dest: env_db_same intro: same_block_trans)
qed simp

lemma build_finish_Ok:
  assumes "build_finish B payload fr env = (Ok res, env')"
  obtains root where "bk_block res = bb_block_new B ((env_header env)\<lparr>h_state_root := root\<rparr>) (env_txs env) (env_receipts env) (pl_withdrawals payload)"
    and "bk_receipts res = env_receipts env" "bk_slot res = pl_slot payload" "bk_bundles res = fr_bundle_result fr" "bk_profit res = fr_profit fr"
proof -
  obtain env1 env2 root env3 env4 b where p: "on_state (sdb_prefetch (bb_db B) (remdups_adj (sort_key fst (map (\<lambda>item. (w_address item, [])) (pl_withdrawals payload))))) env = (Ok (), env1)"
    and w: "add_withdrawals B (pl_withdrawals payload) env1 = (Ok (), env2)"
    and f: "on_state (sdb_flush (bb_db B)) env2 = (Ok root, env3)"
    and g: "on_state (sdb_get_balance (bb_db B) (h_miner (bb_block_header B (bk_block res)))) env3 = (Ok b, env4)"
    and r: "bk_block res = bb_block_new B ((env_header env3)\<lparr>h_state_root := root\<rparr>) (env_txs env3) (env_receipts env3) (pl_withdrawals payload)"
      "bk_receipts res = env_receipts env4" "bk_slot res = pl_slot payload" "bk_bundles res = fr_bundle_result fr" "bk_profit res = fr_profit fr"
    using assms by (auto simp: build_finish_def finalize_and_assemble_def and_then_Ok Let_def)
  have s: "same_block env env1" "same_block env1 env2" "same_block env2 env3" "same_block env3 env4"
    using p w f g by (auto simp: try_state_Ok dest: env_db_same add_withdrawals_same)
  have "same_block env env3" "same_block env env4" using s by (blast intro: same_block_trans)+
  with r that [of root] show thesis by (auto dest!: same_blockD)
qed

lemma next_block_used: "next_block H payload = Some h \<Longrightarrow> h_gas_used h = 0"
  by (auto simp: next_block_def Let_def bind_eq_Some_conv)

lemma build_block_form:
  fixes B :: "('tx, 's, 'e, 'blk) builder"
  assumes B: "gas_lawful B" and h: "next_block (bb_header_hash B) payload = Some h" and limit: "32000 \<le> h_gas_limit h"
    and run: "build B ck state txpool payload = Some (Ok res, txpool')"
  shows "\<exists>txs used root.
    bk_block res = bb_block_new B (h\<lparr>h_gas_used := used, h_state_root := root\<rparr>) txs (bk_receipts res) (pl_withdrawals payload) \<and>
    txs \<noteq> [] \<and> receipts_ok (bb_api B) txs (bk_receipts res) \<and>
    unat used = gas_sum (bk_receipts res) \<and> used \<le> h_gas_limit h \<and> bk_slot res = pl_slot payload"
proof -
  let ?env = "environment_new state h (pl_tips_recipient payload) (pl_round payload) :: ('tx, 's) environment"
  obtain r env1 env2 where f: "fill_transactions B ck txpool ?env = Some ((r, env1), txpool')"
    and fin: "and_then (\<lambda>env. (r, env)) (build_finish B payload) env1 = (Ok res, env2)"
    using run h by (auto simp: build_def prepare_work_def prod_eq_iff)
  then obtain fr where r: "r = Ok fr" and fin: "build_finish B payload fr env1 = (Ok res, env2)" by (auto simp: and_then_Ok)
  have h0: "env_header ?env = h" "env_txs ?env = []" "env_receipts ?env = []" "h_gas_used (env_header ?env) = 0"
    using next_block_used [OF h] by (simp_all add: environment_new_def)
  have "filled B (unat (h_gas_limit h)) h env1"
    using fill_transactions_filled [OF B h0(2-4) _ f [unfolded r]] limit h0(1) by simp
  then obtain g where g: "g \<le> unat (h_gas_limit h)" "env_ok B g h env1" "env_txs env1 \<noteq> []" by (auto simp: filled_def)
  then have k: "receipts_ok (bb_api B) (env_txs env1) (env_receipts env1)"
    "unat (h_gas_used (env_header env1)) = gas_sum (env_receipts env1)" "h_gas_used (env_header env1) \<le> h_gas_limit h"
    by (simp_all add: env_ok_def env_inv_def word_le_nat_alt)
  obtain used where u: "env_header env1 = h\<lparr>h_gas_used := used\<rparr>" using g(2) unfolding env_ok_def by blast
  from fin show ?thesis
  proof (cases rule: build_finish_Ok)
    case (1 root)
    then show ?thesis
      using k g(3) by (intro exI [of _ "env_txs env1"] exI [of _ used] exI [of _ root]) (simp add: u)
  qed
qed

text \<open>C11: A block that is built is well formed: it has a transaction and one receipt per transaction, with its hash, its
  index and the gas used so far; the gas used in the header is their sum and within the gas limit; every
  other field of the header but the state root is that of the payload's next header.\<close>

theorem build_block_valid:
  fixes B :: "('tx, 's, 'e, 'blk) builder"
  assumes B: "gas_lawful B" and h: "next_block (bb_header_hash B) payload = Some h" and limit: "32000 \<le> h_gas_limit h"
    and run: "build B ck state txpool payload = Some (Ok res, txpool')"
  shows "\<exists>txs used root.
    bk_block res = bb_block_new B (h\<lparr>h_gas_used := used, h_state_root := root\<rparr>) txs (bk_receipts res) (pl_withdrawals payload) \<and>
    txs \<noteq> [] \<and> receipts_ok (bb_api B) txs (bk_receipts res) \<and>
    unat used = gas_sum (bk_receipts res) \<and> used \<le> h_gas_limit h \<and> bk_slot res = pl_slot payload"
  using assms by (rule build_block_form)

lemma build_total: "\<exists>r. build B ck state txpool payload = Some r"
proof -
  have "fill_price B ck pool env \<noteq> None" for pool env
    using price_pages.commit_pool_ends [of 20 B ck "bb_api B" pool env] by (auto simp: fill_price_def)
  then have "fill_transactions B ck txpool env \<noteq> None" for env
    unfolding fill_transactions_def Let_def by (simp split: prod.splits outcome.splits del: not_None_eq)
  then have "build B ck state txpool payload \<noteq> None" by (simp add: build_def split: option.splits del: not_None_eq)
  then show ?thesis by blast
qed

text \<open>C14: Every build ends: the loop of \<open>commit_pool\<close> over the price pool stops on every pool and every answer of the
  clock, since each page holds the transaction on top of the queue and each commit takes one off.\<close>

theorem build_ends: "\<exists>r. build B ck state txpool payload = Some r"
  by (rule build_total)

text \<open>C15: The price pool adds to the block only transactions that are pending in it under their sender and nonce and that
  pay the base fee, after the transactions that were there.\<close>

theorem fill_price_from_pool:
  fixes B :: "('tx, 's, 'e, 'blk) builder"
  assumes pool: "price_pool_run (bb_api B) pool" and run: "fill_price B ck pool env = Some ((r, env'), pool')" and np: "r \<noteq> Panic"
  shows "\<exists>new. env_txs env' = env_txs env @ new \<and>
    (\<forall>tx\<in>set new. \<exists>t. ptx_tx t = tx \<and> pend pool (tx_sender (bb_api B) tx) (tx_nonce (bb_api B) tx) = Some t \<and>
       tx_effective_gas_tip (bb_api B) tx (Some (h_base_fee_per_gas (env_header env))) \<noteq> None)"
proof -
  let ?A = "bb_api B" and ?b = "h_base_fee_per_gas (env_header env)"
  obtain txs checked pool1 where l: "price_pool_list ?A (env_checked_txs env) (Some ?b) (- 1) pool = (txs, checked, pool1)"
    by (metis prod_cases3)
  note list = price_list_accounts [OF price_pool_run_inv [OF pool] l]
  let ?q = "by_price_new ?A txs ?b"
  have "fl_fetch (price_flow ?A) env pool = (?q, env\<lparr>env_checked_txs := checked\<rparr>, pool1)"
    using l by (simp add: price_flow_def Let_def)
  from price_items.commit_pool_drawn [OF this run [unfolded fill_price_def] np] obtain new
    where new: "env_txs env' = env_txs env @ new" "set new \<subseteq> ptx_tx ` queue_txs ?q" by auto
  have "\<exists>t. ptx_tx t = tx \<and> pend pool (tx_sender ?A tx) (tx_nonce ?A tx) = Some t \<and> tx_effective_gas_tip ?A tx (Some ?b) \<noteq> None"
    if "tx \<in> set new" for tx
  proof -
    obtain t where t: "t \<in> queue_txs ?q" "ptx_tx t = tx" using new(2) \<open>tx \<in> set new\<close> by auto
    from by_price_new_items [OF list(4) t(1)] obtain a ts where "(a, ts) \<in> set txs" "t \<in> set ts" by blast
    then have "listed_ok ?A (Some ?b) (pp_pending pool) a ts" "t \<in> set ts" using list(2) by (simp_all add: bt_ok_in_set [OF list(1)])
    with t(2) show ?thesis by (force simp: listed_ok_def pend_def)
  qed
  with new(1) show ?thesis by blast
qed

end
