(* ===== verification/Block_Payments.thy ===== *)
theory Block_Payments
  imports Block_Build
begin

text \<open>
  The money of a block: the builder's profit, the tips it pays from it and the withdrawals.
\<close>

section \<open>The profit\<close>

definition tip_of :: "('tx, 's, 'e, 'blk) builder \<Rightarrow> ('tx, 's) environment \<Rightarrow> 'tx \<Rightarrow> receipt \<Rightarrow> u256 option" where
  "tip_of B env tx r = tx_reward (bb_api B) tx (r_gas_used r) (Some (h_base_fee_per_gas (env_header env)))"

definition tips_total :: "('tx, 's, 'e, 'blk) builder \<Rightarrow> ('tx, 's) environment \<Rightarrow> nat" where
  "tips_total B env = sum_list (map (\<lambda>(tx, r). unat (the (tip_of B env tx r))) (zip (env_txs env) (env_receipts env)))"

lemma sum_tips_Ok:
  "sum_tips B env i txs acc = Ok v \<Longrightarrow>
   (\<forall>(tx, r)\<in>set (zip txs (drop i (env_receipts env))). tip_of B env tx r \<noteq> None) \<and>
   unat v = unat acc + sum_list (map (\<lambda>(tx, r). unat (the (tip_of B env tx r))) (zip txs (drop i (env_receipts env))))"
proof (induction B env i txs acc rule: sum_tips.induct)
  case (2 B env i tx txs acc)
  from "2.prems" obtain tip acc' where i: "\<not> length (env_receipts env) \<le> i"
    and tip: "tip_of B env tx (env_receipts env ! i) = Some tip" and acc: "chk_add acc tip = Some acc'"
    and rest: "sum_tips B env (Suc i) txs acc' = Ok v"
    by (auto simp: tip_of_def split: if_splits option.splits)
  have "drop i (env_receipts env) = env_receipts env ! i # drop (Suc i) (env_receipts env)"
    using i by (simp add: Cons_nth_drop_Suc)
  with "2.IH" [OF i tip [unfolded tip_of_def] acc rest] tip acc show ?case by (simp add: chk_simps)
qed simp

lemma calculate_profit_Ok:
  assumes D: "lawful_db (bb_db B) bal non" and run: "calculate_profit B env = (Ok p, env')"
  shows "unat p = min (tips_total B env) (unat (bal (env_state env) (h_miner (env_header env))) - unat (env_miner_balance env))"
    and "\<forall>(tx, r)\<in>set (zip (env_txs env) (env_receipts env)). tip_of B env tx r \<noteq> None"
    and "same_block env env'" and "bal (env_state env') = bal (env_state env)"
proof -
  obtain b s tips where g: "sdb_get_balance (bb_db B) (h_miner (env_header env)) (env_state env) = (Inr b, s)"
    and e: "env' = env\<lparr>env_state := s\<rparr>" and t: "sum_tips B env' 0 (env_txs env) 0 = Ok tips"
    and p: "p = min tips (sat_sub b (env_miner_balance env))"
    using run by (auto simp: calculate_profit_def and_then_Ok try_state_Ok env_db_Ok Let_def)
  have tip: "tip_of B env' = tip_of B env" by (simp add: tip_of_def e fun_eq_iff)
  note b = lawful_dbD(1) [OF D g]
  note s = sum_tips_Ok [OF t]
  show "\<forall>(tx, r)\<in>set (zip (env_txs env) (env_receipts env)). tip_of B env tx r \<noteq> None" using s by (simp add: e tip_of_def)
  have "unat tips = tips_total B env" using s by (simp add: tips_total_def e tip_of_def)
  with b p show "unat p = min (tips_total B env) (unat (bal (env_state env) (h_miner (env_header env))) - unat (env_miner_balance env))"
    by (simp add: min_def word_le_nat_alt chk_simps)
  show "same_block env env'" by (auto simp: e intro!: same_blockI)
  show "bal (env_state env') = bal (env_state env)" using b by (simp add: e)
qed

text \<open>C16: With a recipient, the tips are one more transaction at the end of the block, from the strategy's amount for the
  profit of the builder less its own fee, which is the base fee times its gas; the value reported is what
  it pays.  The profit counts the tips of the transactions, but no more than the miner has gained.
  Without a recipient nothing is paid.\<close>

theorem fill_tips_pays:
  assumes D: "lawful_db (bb_db B) bal non" and tipval: "\<forall>n p g r v. tx_value (bb_api B) (ptx_tx (bb_tips_tx B n p g r v)) = v"
    and run: "fill_tips B ck internals bundles env = (Ok v, env')"
  shows "(env_tips_recipient env = None \<and> v = 0 \<and> env_txs env' = env_txs env) \<or>
    (\<exists>reward amount recipient nonce tx_gas.
       env_tips_recipient env = Some recipient \<and>
       unat reward = min (tips_total B env) (unat (bal (env_state env) (h_miner (env_header env))) - unat (env_miner_balance env)) \<and>
       tips_strategy_get (bb_tips_strategy B) reward internals bundles = Some amount \<and>
       tx_gas \<in> {21000, 32000} \<and>
       unat v + unat (h_base_fee_per_gas (env_header env)) * unat tx_gas = unat amount \<and>
       env_txs env' = env_txs env @ [ptx_tx (bb_tips_tx B nonce (h_base_fee_per_gas (env_header env)) tx_gas recipient v)] \<and>
       bb_succ B (last (env_receipts env')))"
  using run
proof (cases rule: fill_tips_Ok)
  case (no_recipient reward)
  with calculate_profit_Ok(3) [OF D no_recipient(3)] show ?thesis by (auto dest: same_blockD)
next
  case (paid reward env1 recipient amount fee env2 nonce rc tx_gas)
  note p = calculate_profit_Ok [OF D paid(1)]
  have same: "env_header env1 = env_header env" "env_header env2 = env_header env" "env_txs env2 = env_txs env"
    "env_tips_recipient env = Some recipient" using same_blockD [OF p(3)] same_blockD [OF paid(7)] paid(2) by auto
  have v: "v = amount - fee" using paid(10) tipval by simp
  have "unat v + unat fee = unat amount" using v paid(6) by (simp add: unat_sub word_le_nat_alt)
  moreover note commit_txs [OF paid(8)]
  ultimately show ?thesis
    using p(1) paid same v by (intro disjI2 exI [of _ reward] exI [of _ amount] exI [of _ recipient] exI [of _ nonce] exI [of _ tx_gas]) auto
qed

section \<open>Withdrawals\<close>

lemma add_withdrawals_bal:
  assumes D: "lawful_db (bb_db B) bal non"
  shows "add_withdrawals B ws env = (Ok (), env') \<Longrightarrow> bal (env_state env') a =
    bal (env_state env) a + sum_list (map (\<lambda>w. ucast (w_amount w) * bb_gwei B) (filter (\<lambda>w. w_address w = a) ws))"
proof (induction ws arbitrary: env)
  case (Cons w ws)
  then obtain amount s where m: "chk_mul (ucast (w_amount w)) (bb_gwei B) = Some amount"
    and add: "sdb_add_balance (bb_db B) (w_address w) amount (env_state env) = (Inr (), s)"
    and rest: "add_withdrawals B ws (env\<lparr>env_state := s\<rparr>) = (Ok (), env')"
    by (auto simp: and_then_Ok try_state_Ok env_db_Ok)
  have "amount = ucast (w_amount w) * bb_gwei B" using m by (simp add: chk_mul_def split: if_splits)
  with lawful_dbD(5) [OF D add] Cons.IH [OF rest] show ?case by (simp add: algebra_simps)
qed simp

text \<open>C17: The assembled block credits every withdrawal: each account gets the sum of its withdrawals in gwei, the
  header gets the root of the state after that, and transactions, receipts and withdrawals go into the
  block as they are.\<close>

theorem finalize_credits:
  assumes D: "lawful_db (bb_db B) bal non" and flush: "\<forall>s r s'. sdb_flush (bb_db B) s = (Inr r, s') \<longrightarrow> bal s' = bal s"
    and run: "finalize_and_assemble B ws env = (Ok block, env')"
  shows "(\<forall>a. bal (env_state env') a =
      bal (env_state env) a + sum_list (map (\<lambda>w. ucast (w_amount w) * bb_gwei B) (filter (\<lambda>w. w_address w = a) ws))) \<and>
    (\<exists>s root. sdb_flush (bb_db B) s = (Inr root, env_state env') \<and>
      block = bb_block_new B ((env_header env)\<lparr>h_state_root := root\<rparr>) (env_txs env) (env_receipts env) ws)"
proof -
  obtain s1 env2 root s3 where p: "sdb_prefetch (bb_db B) (remdups_adj (sort_key fst (map (\<lambda>item. (w_address item, [])) ws))) (env_state env) = (Inr (), s1)"
    and w: "add_withdrawals B ws (env\<lparr>env_state := s1\<rparr>) = (Ok (), env2)"
    and f: "sdb_flush (bb_db B) (env_state env2) = (Inr root, s3)" and e: "env' = env2\<lparr>env_state := s3\<rparr>"
    and b: "block = bb_block_new B ((env_header env2)\<lparr>h_state_root := root\<rparr>) (env_txs env2) (env_receipts env2) ws"
    using run by (auto simp: finalize_and_assemble_def Let_def and_then_Ok try_state_Ok env_db_Ok)
  have "bal s1 = bal (env_state env)" using lawful_dbD(4) [OF D p] by simp
  with add_withdrawals_bal [OF D w] flush f e same_blockD [OF add_withdrawals_same [OF w]] b show ?thesis by fastforce
qed

end
