(* ===== verification/Bytes.thy ===== *)
theory Bytes
  imports Builder_Prelude "HOL-Library.Monad_Syntax"
begin

text \<open>
  Byte strings: big endian numbers, slices that panic out of range (\<open>None\<close>), padding, and the
  conversions of \<open>U256\<close> that the precompiled contracts use.
\<close>

definition be_nat :: "u8 list \<Rightarrow> nat" where
  "be_nat bs = foldl (\<lambda>n b. n * 256 + unat b) 0 bs"

primrec be_bytes :: "nat \<Rightarrow> nat \<Rightarrow> u8 list" where
  "be_bytes 0 v = []"
| "be_bytes (Suc n) v = be_bytes n (v div 256) @ [word_of_nat v]"

text \<open>\<open>&v[a..b]\<close>.\<close>

definition slice :: "'a list \<Rightarrow> u64 \<Rightarrow> u64 \<Rightarrow> 'a list option" where
  "slice xs a b = (if a \<le> b \<and> unat b \<le> length xs then Some (take (unat b - unat a) (drop (unat a) xs)) else None)"

text \<open>\<open>while data.len() < n { data.push(0) }\<close> and \<open>Vec::resize\<close>.\<close>

definition pad_to :: "nat \<Rightarrow> u8 list \<Rightarrow> u8 list" where
  "pad_to n xs = xs @ replicate (n - length xs) 0"

definition resize :: "nat \<Rightarrow> u8 list \<Rightarrow> u8 list" where
  "resize n xs = take n (pad_to n xs)"

text \<open>\<open>U256::from\<close> on a slice of at most 32 bytes, \<open>U256::as_usize\<close> and \<open>U256::bits\<close>.\<close>

definition u256_from_slice :: "u8 list \<Rightarrow> u256 option" where
  "u256_from_slice bs = (if length bs \<le> 32 then Some (word_of_nat (be_nat bs)) else None)"

definition as_usize :: "u256 \<Rightarrow> u64 option" where
  "as_usize v = (if v \<le> 18446744073709551615 then Some (ucast v) else None)"

fun bit_len :: "nat \<Rightarrow> nat" where
  "bit_len n = (if n = 0 then 0 else Suc (bit_len (n div 2)))"

declare bit_len.simps [simp del]

section \<open>Numbers of byte strings\<close>

lemma be_nat_Nil [simp]: "be_nat [] = 0"
  by (simp add: be_nat_def)

lemma be_nat_snoc [simp]: "be_nat (bs @ [b]) = be_nat bs * 256 + unat b"
  by (simp add: be_nat_def)

lemma unat_u8_less: "unat (b :: u8) < 256"
  using unsigned_less [where 'a = nat, of b] by simp

lemma be_nat_less: "be_nat bs < 256 ^ length bs"
proof (induction bs rule: rev_induct)
  case (snoc b bs)
  then show ?case using unat_u8_less [of b] by (simp add: mult.commute [of 256])
qed simp

lemma be_nat_append: "be_nat (xs @ ys) = be_nat xs * 256 ^ length ys + be_nat ys"
  by (induction ys rule: rev_induct) (simp_all add: algebra_simps flip: append_assoc)

lemma be_nat_zeros [simp]: "be_nat (replicate n 0) = 0"
  by (induction n) (simp_all add: replicate_append_same [symmetric])

lemma be_nat_pad [simp]: "be_nat (replicate n 0 @ bs) = be_nat bs"
  by (simp add: be_nat_append)

lemma length_be_bytes [simp]: "length (be_bytes n v) = n"
  by (induction n arbitrary: v) simp_all

lemma be_nat_be_bytes: "be_nat (be_bytes n v) = v mod 256 ^ n"
proof (induction n arbitrary: v)
  case (Suc n)
  have "unat (word_of_nat v :: u8) = v mod 256" by (simp add: unat_of_nat)
  with Suc show ?case by (simp add: mod_mult2_eq mult.commute)
qed simp

lemma be_bytes_be_nat: "be_bytes (length bs) (be_nat bs) = bs"
proof (induction bs rule: rev_induct)
  case (snoc b bs)
  have "(be_nat bs * 256 + unat b) div 256 = be_nat bs" using unat_u8_less [of b] by simp
  moreover have "word_of_nat (be_nat bs * 256 + unat b) = b" using unat_u8_less [of b] by (simp add: word_unat_eq_iff unat_of_nat del: of_nat_add of_nat_mult)
  ultimately show ?case using snoc by simp
qed simp

lemma length_pad_to [simp]: "length (pad_to n xs) = max n (length xs)"
  by (simp add: pad_to_def)

lemma length_resize [simp]: "length (resize n xs) = n"
  by (simp add: resize_def)

lemma slice_Some: "slice xs a b = Some ys \<longleftrightarrow> a \<le> b \<and> unat b \<le> length xs \<and> ys = take (unat b - unat a) (drop (unat a) xs)"
  by (auto simp: slice_def)

lemma slice_length: "slice xs a b = Some ys \<Longrightarrow> length ys = unat b - unat a"
  by (auto simp: slice_def split: if_splits)

lemma u256_from_slice_unat: "u256_from_slice bs = Some v \<Longrightarrow> unat v = be_nat bs"
proof -
  assume v: "u256_from_slice bs = Some v"
  then have len: "length bs \<le> 32" by (auto simp: u256_from_slice_def split: if_splits)
  have "be_nat bs < 256 ^ length bs" by (rule be_nat_less)
  also have "\<dots> \<le> 256 ^ 32" by (rule power_increasing [OF len]) simp
  finally have "be_nat bs < 2 ^ 256" by simp
  with v show ?thesis by (auto simp: u256_from_slice_def unat_of_nat split: if_splits)
qed

lemma as_usize_Some: "as_usize v = Some u \<longleftrightarrow> unat u = unat v"
proof -
  have big: "v \<le> 18446744073709551615 \<longleftrightarrow> unat v < 2 ^ 64" by (simp add: word_le_nat_alt) linarith
  have "unat (ucast v :: u64) = unat v" if "unat v < 2 ^ 64"
    using that by (simp add: unsigned_ucast_eq take_bit_nat_eq_self)
  then show ?thesis using unat_u64_less [of u] unfolding as_usize_def big by (auto simp: word_unat_eq_iff)
qed

lemma bit_len_0 [simp]: "bit_len 0 = 0"
  by (simp add: bit_len.simps)

lemma bit_len_bound: "n < 2 ^ k \<longleftrightarrow> bit_len n \<le> k"
proof (induction n arbitrary: k rule: bit_len.induct)
  case (1 n)
  show ?case
  proof (cases "n = 0")
    case False
    show ?thesis
    proof (cases k)
      case 0
      with False show ?thesis by (simp add: bit_len.simps [of n])
    next
      case (Suc j)
      have "n < 2 ^ k \<longleftrightarrow> n div 2 < 2 ^ j" by (simp add: Suc div_less_iff_less_mult mult.commute)
      with "1" [OF False] Suc False show ?thesis by (simp add: bit_len.simps [of n])
    qed
  qed simp
qed

end
