(* ===== verification/Relay_Types.thy ===== *)
theory Relay_Types
  imports Eth_Types Bytes
begin

text \<open>
  What the builder sends to a relay: \<open>src/common/mev_boost/src/types.rs\<close>.

  A block of \<open>eth_types\<close> is a \<open>relay_block\<close>; its header has the fields of \<^typ>\<open>block_header\<close> and those that only
  the relay reads.  The crates \<open>ssz\<close> and \<open>blst\<close> are parameters: \<open>ssz_hash_root\<close> hashes the sequence of
  \<open>put\<close> calls that a \<open>HashTree\<close> makes, and a secret key has a public key and signs.  \<open>None\<close> is a panic.
\<close>

section \<open>Payloads\<close>

record relay_header = block_header +
  rh_receipts_root :: h256
  rh_logs_bloom :: "u8 list"
  rh_withdrawals_root :: "h256 option"

record 'wtx relay_block =
  rb_header :: relay_header
  rb_transactions :: "'wtx list"
  rb_withdrawals :: "withdrawal list option"

record 'wtx block_api =
  ba_header_hash :: "relay_header \<Rightarrow> h256"
  ba_inner_bytes :: "'wtx \<Rightarrow> u8 list option"

record relay_withdrawal =
  rw_index :: u64
  rw_validator_index :: u64
  rw_address :: h160
  rw_amount :: u64

record execution_payload =
  ep_parent_hash :: h256
  ep_fee_recipient :: h160
  ep_state_root :: h256
  ep_receipts_root :: h256
  ep_prev_randao :: h256
  ep_logs_bloom :: "u8 list"
  ep_block_number :: u64
  ep_gas_limit :: u64
  ep_gas_used :: u64
  ep_timestamp :: u64
  ep_extra_data :: "u8 list"
  ep_base_fee_per_gas :: u256
  ep_block_hash :: h256
  ep_transactions :: "u8 list list"
  ep_withdrawals :: "relay_withdrawal list"

definition relay_withdrawal_from :: "withdrawal \<Rightarrow> relay_withdrawal" where
  "relay_withdrawal_from old =
     \<lparr>rw_index = w_index old, rw_validator_index = w_validator_index old, rw_address = w_address old, rw_amount = w_amount old\<rparr>"

text \<open>\<open>len - 256\<close> wraps for a shorter bloom filter, and \<open>rotate_left\<close> panics for it.\<close>

definition execution_payload_from :: "'wtx block_api \<Rightarrow> 'wtx relay_block \<Rightarrow> execution_payload option" where
  "execution_payload_from A blk =
     (let header = rb_header blk;
          block_hash = ba_header_hash A header;
          transactions = List.map_filter (ba_inner_bytes A) (rb_transactions blk);
          logs_bloom = rh_logs_bloom header
      in if length logs_bloom < 256 then None
         else case rb_withdrawals blk of
           None \<Rightarrow> None
         | Some ws \<Rightarrow>
             Some \<lparr>ep_parent_hash = h_parent_hash header, ep_fee_recipient = h_miner header, ep_state_root = h_state_root header,
                   ep_receipts_root = rh_receipts_root header, ep_prev_randao = h_mix_hash header,
                   ep_logs_bloom = rotate (length logs_bloom - 256) logs_bloom,
                   ep_block_number = h_number header, ep_gas_limit = h_gas_limit header, ep_gas_used = h_gas_used header,
                   ep_timestamp = h_timestamp header, ep_extra_data = h_extra_data header,
                   ep_base_fee_per_gas = h_base_fee_per_gas header, ep_block_hash = block_hash,
                   ep_transactions = transactions, ep_withdrawals = map relay_withdrawal_from ws\<rparr>)"

section \<open>Bids\<close>

type_synonym pubkey = "u8 list"

definition pubkey_from :: "u8 list \<Rightarrow> pubkey option" where
  "pubkey_from v = (if length v = 48 then Some v else None)"

record bid_trace =
  bid_slot :: u64
  bid_parent_hash :: h256
  bid_block_hash :: h256
  bid_builder_pubkey :: pubkey
  bid_proposer_pubkey :: pubkey
  bid_proposer_fee_recipient :: h160
  bid_gas_limit :: u64
  bid_gas_used :: u64
  bid_value :: u256

record submit_request =
  sr_signature :: "u8 list"
  sr_message :: bid_trace
  sr_execution_payload :: execution_payload
  sr_withdrawal_root :: h256

datatype submit_error =
    SubmissionForPastSlot
  | SlotWasAlreadyDelivered
  | InvalidSignature
  | ProposerPaymentNotSuccessful
  | SlotNotKnown u64
  | FeeRecipientNotMatch h160
  | IncorrectPrevRandao h256
  | IncorrectWithdrawalsRoot h256
  | NoPrevRandao
  | Timeout
  | UnknownError string

section \<open>Signatures\<close>

datatype ssz_put = PutU64 u64 | PutBytes "u8 list"

record 'sk bls_api =
  bls_public :: "'sk \<Rightarrow> u8 list"
  bls_sign :: "'sk \<Rightarrow> u8 list \<Rightarrow> u8 list"
  ssz_hash_root :: "ssz_put list \<Rightarrow> u8 list option"

definition h256_bytes :: "h256 \<Rightarrow> u8 list" where
  "h256_bytes h = be_bytes 32 (unat h)"

definition h160_bytes :: "h160 \<Rightarrow> u8 list" where
  "h160_bytes a = be_bytes 20 (unat a)"

definition bid_trace_tree :: "bid_trace \<Rightarrow> ssz_put list" where
  "bid_trace_tree t =
     [PutU64 (bid_slot t), PutBytes (h256_bytes (bid_parent_hash t)), PutBytes (h256_bytes (bid_block_hash t)),
      PutBytes (bid_builder_pubkey t), PutBytes (bid_proposer_pubkey t), PutBytes (h160_bytes (bid_proposer_fee_recipient t)),
      PutU64 (bid_gas_limit t), PutU64 (bid_gas_used t), PutBytes (rev (be_bytes 32 (unat (bid_value t))))]"

definition fork_data_tree :: "u8 list \<Rightarrow> h256 \<Rightarrow> ssz_put list" where
  "fork_data_tree current_version genesis_validators_root =
     [PutBytes current_version, PutBytes (h256_bytes genesis_validators_root)]"

definition signing_data_tree :: "u8 list \<Rightarrow> u8 list \<Rightarrow> ssz_put list" where
  "signing_data_tree root domain = [PutBytes root, PutBytes domain]"

definition domain_new :: "'sk bls_api \<Rightarrow> u8 list \<Rightarrow> u8 list \<Rightarrow> u8 list option" where
  "domain_new H domain_type genesis_fork_version =
     (if length genesis_fork_version \<noteq> 4 then None
      else map_option (\<lambda>fork_data_root. domain_type @ take 28 fork_data_root)
        (ssz_hash_root H (fork_data_tree genesis_fork_version 0)))"

definition sign_hash_root :: "'sk bls_api \<Rightarrow> u8 list \<Rightarrow> ssz_put list \<Rightarrow> u8 list option" where
  "sign_hash_root H domain obj =
     do { root \<leftarrow> ssz_hash_root H obj; ssz_hash_root H (signing_data_tree root domain) }"

definition bid_sign :: "'sk bls_api \<Rightarrow> u8 list \<Rightarrow> 'sk \<Rightarrow> bid_trace \<Rightarrow> u8 list option" where
  "bid_sign H signing_domain sk t = map_option (bls_sign H sk) (sign_hash_root H signing_domain (bid_trace_tree t))"

section \<open>What is signed\<close>

lemma be_bytes_inj: "be_bytes n v = be_bytes n w \<Longrightarrow> v < 256 ^ n \<Longrightarrow> w < 256 ^ n \<Longrightarrow> v = w"
  by (metis be_nat_be_bytes mod_less)

lemma h256_bytes_inj [simp]: "h256_bytes a = h256_bytes b \<longleftrightarrow> a = b"
proof -
  have "unat x < 256 ^ 32" for x :: h256 using unsigned_less [where 'a = nat, of x] by simp
  then show ?thesis by (metis be_bytes_inj h256_bytes_def word_unat_eq_iff)
qed

lemma h160_bytes_inj [simp]: "h160_bytes a = h160_bytes b \<longleftrightarrow> a = b"
proof -
  have "unat x < 256 ^ 20" for x :: h160 using unsigned_less [where 'a = nat, of x] by simp
  then show ?thesis by (metis be_bytes_inj h160_bytes_def word_unat_eq_iff)
qed

text \<open>The signed sequence has every field of the bid.\<close>

lemma bid_trace_tree_inj: "bid_trace_tree t = bid_trace_tree u \<longleftrightarrow> t = u"
proof
  assume eq: "bid_trace_tree t = bid_trace_tree u"
  then have "h256_bytes (bid_value t) = h256_bytes (bid_value u)" by (simp add: bid_trace_tree_def h256_bytes_def)
  with eq show "t = u" by (intro bid_trace.equality) (simp_all add: bid_trace_tree_def)
qed simp

end
