(* ===== verification/Relay.thy ===== *)
theory Relay
  imports Relay_Types
begin

text \<open>
  The connection to the relays: \<open>src/common/mev_boost/src/relay.rs\<close>.

  The map of the registered validators by slot, which every relay's thread updates, and the request for a
  block.  \<open>HexBytes::from_hex\<close>, the HTTP answers and the keys are parameters.  The channels to the
  submitters are the list of the names that a request is sent to.
\<close>

section \<open>The registered validators\<close>

record validator_data =
  vd_pub_key :: "u8 list"
  vd_fee_recipient :: h160
  vd_gas_limit :: u64
  vd_timestamp :: u64
  vd_name :: "string list"

record validator_item =
  vi_slot :: u32
  vi_fee_recipient :: h160
  vi_gas_limit :: u64
  vi_timestamp :: u64
  vi_pubkey :: string

datatype relay_error =
    InvalidDomain string
  | RelaySubmitError submit_error
  | NoValidatorInSlot u64 u64
  | InvalidValidatorPubkey
  | FetchValidatorFail string

type_synonym validator_map = "(u64, validator_data) btree_map"

definition validator_map_new :: validator_map where
  "validator_map_new = []"

definition try_get :: "u64 \<Rightarrow> validator_map \<Rightarrow> relay_error + validator_data" where
  "try_get slot m =
     (case map_of m slot of
        Some n \<Rightarrow> Inr n
      | None \<Rightarrow>
          (case find (\<lambda>(s, _). slot < s) m of
             Some (s, _) \<Rightarrow> Inl (NoValidatorInSlot slot s)
           | None \<Rightarrow> Inl (NoValidatorInSlot slot 0)))"

text \<open>The loop of \<open>update\<close>; \<open>?\<close> leaves it with the entries that are already there.\<close>

fun validator_update_loop ::
  "(string \<Rightarrow> u8 list option) \<Rightarrow> string \<Rightarrow> validator_item list \<Rightarrow> bool \<Rightarrow> validator_map \<Rightarrow> (relay_error + bool) \<times> validator_map" where
  "validator_update_loop from_hex name [] updated m = (Inr updated, m)"
| "validator_update_loop from_hex name (item # response) updated m =
     (let slot = ucast (vi_slot item) in
      case map_of m slot of
        Some vd \<Rightarrow>
          if name \<notin> set (vd_name vd)
          then validator_update_loop from_hex name response True (bt_adjust slot (\<lambda>vd. vd\<lparr>vd_name := vd_name vd @ [name]\<rparr>) m)
          else validator_update_loop from_hex name response updated m
      | None \<Rightarrow>
          (case from_hex (vi_pubkey item) of
             None \<Rightarrow> (Inl InvalidValidatorPubkey, m)
           | Some pub_key \<Rightarrow>
               validator_update_loop from_hex name response True
                 (bt_insert slot
                   \<lparr>vd_pub_key = pub_key, vd_fee_recipient = vi_fee_recipient item, vd_gas_limit = vi_gas_limit item,
                    vd_timestamp = vi_timestamp item, vd_name = [name]\<rparr> m)))"

definition validator_update ::
  "(string \<Rightarrow> u8 list option) \<Rightarrow> string \<Rightarrow> validator_item list \<Rightarrow> validator_map \<Rightarrow> (relay_error + bool) \<times> validator_map" where
  "validator_update from_hex name response m =
     (case validator_update_loop from_hex name response False m of
        (Inl e, m) \<Rightarrow> (Inl e, m)
      | (Inr updated, m) \<Rightarrow> (Inr updated, trim_front 64 m))"

definition fetch_and_update_validator ::
  "(string \<Rightarrow> u8 list option) \<Rightarrow> string \<Rightarrow> relay_error + validator_item list \<Rightarrow> validator_map \<Rightarrow> validator_map" where
  "fetch_and_update_validator from_hex name fetched m =
     (case fetched of
        Inr response \<Rightarrow> snd (validator_update from_hex name response m)
      | Inl _ \<Rightarrow> m)"

section \<open>The relay\<close>

record 'sk relay =
  rl_signer_sk :: 'sk
  rl_signer :: pubkey
  rl_sign_domain :: "u8 list"
  rl_validators :: validator_map
  rl_senders :: "string list"

definition starts_with :: "string \<Rightarrow> string \<Rightarrow> bool" where
  "starts_with p s \<longleftrightarrow> take (length p) s = p"

definition relay_new ::
  "'sk bls_api \<Rightarrow> 'sk \<Rightarrow> u8 list \<Rightarrow> (string, string) btree_map \<Rightarrow> 'sk relay option" where
  "relay_new H signer_sk genesis_fork_version endpoints =
     map_option (\<lambda>sign_domain.
       \<lparr>rl_signer_sk = signer_sk, rl_signer = bls_public H signer_sk, rl_sign_domain = sign_domain,
        rl_validators = validator_map_new,
        rl_senders = map fst (filter (\<lambda>(name, _). \<not> starts_with ''!'' name) endpoints)\<rparr>)
       (domain_new H [0, 0, 0, 1] genesis_fork_version)"

definition build_request ::
  "'sk bls_api \<Rightarrow> 'wtx block_api \<Rightarrow> 'sk relay \<Rightarrow> u64 \<Rightarrow> validator_data \<Rightarrow> u256 \<Rightarrow> 'wtx relay_block \<Rightarrow> submit_request option" where
  "build_request H A r slot vd val blk =
     do {
       payload \<leftarrow> execution_payload_from A blk;
       proposer \<leftarrow> pubkey_from (vd_pub_key vd);
       let trace =
         \<lparr>bid_slot = slot, bid_parent_hash = ep_parent_hash payload, bid_block_hash = ep_block_hash payload,
          bid_builder_pubkey = rl_signer r, bid_proposer_pubkey = proposer, bid_proposer_fee_recipient = vd_fee_recipient vd,
          bid_gas_limit = ep_gas_limit payload, bid_gas_used = ep_gas_used payload, bid_value = val\<rparr>;
       signature \<leftarrow> bid_sign H (rl_sign_domain r) (rl_signer_sk r) trace;
       root \<leftarrow> rh_withdrawals_root (rb_header blk);
       Some \<lparr>sr_signature = signature, sr_message = trace, sr_execution_payload = payload, sr_withdrawal_root = root\<rparr>
     }"

definition relay_submit_block ::
  "'sk bls_api \<Rightarrow> 'wtx block_api \<Rightarrow> 'sk relay \<Rightarrow> u64 \<Rightarrow> validator_data \<Rightarrow> 'wtx relay_block \<Rightarrow> u256 \<Rightarrow> (string \<times> submit_request) list option" where
  "relay_submit_block H A r slot vd blk val =
     map_option (\<lambda>req. map (\<lambda>name. (name, req)) (filter (\<lambda>name. name \<in> set (vd_name vd)) (rl_senders r)))
       (build_request H A r slot vd val blk)"

definition get_validator_for_slot :: "'sk relay \<Rightarrow> u64 \<Rightarrow> relay_error + validator_data" where
  "get_validator_for_slot r next_slot = try_get next_slot (rl_validators r)"

section \<open>The map after an update\<close>

definition item_slots :: "validator_item list \<Rightarrow> u64 set" where
  "item_slots response = (\<lambda>i. ucast (vi_slot i)) ` set response"

text \<open>The entry for an item, and how an entry changes when it is listed again.\<close>

definition entry_of :: "(string \<Rightarrow> u8 list option) \<Rightarrow> string \<Rightarrow> validator_item \<Rightarrow> validator_data" where
  "entry_of from_hex name item =
     \<lparr>vd_pub_key = the (from_hex (vi_pubkey item)), vd_fee_recipient = vi_fee_recipient item, vd_gas_limit = vi_gas_limit item,
      vd_timestamp = vi_timestamp item, vd_name = [name]\<rparr>"

definition listed_by :: "string \<Rightarrow> validator_data \<Rightarrow> validator_data" where
  "listed_by name vd = (if name \<in> set (vd_name vd) then vd else vd\<lparr>vd_name := vd_name vd @ [name]\<rparr>)"

definition merged :: "(string \<Rightarrow> u8 list option) \<Rightarrow> string \<Rightarrow> validator_item list \<Rightarrow> validator_map \<Rightarrow> u64 \<Rightarrow> validator_data option" where
  "merged from_hex name response m slot =
     (case map_of m slot of
        Some vd \<Rightarrow> Some (if slot \<in> item_slots response then listed_by name vd else vd)
      | None \<Rightarrow> map_option (entry_of from_hex name) (find (\<lambda>i. ucast (vi_slot i) = slot) response))"

lemma bt_adjust_listed:
  assumes "map_of m slot = Some vd" and "name \<notin> set (vd_name vd)"
  shows "map_of (bt_adjust slot (\<lambda>vd. vd\<lparr>vd_name := vd_name vd @ [name]\<rparr>) m) = (map_of m)(slot \<mapsto> listed_by name vd)"
  using assms by (auto simp: listed_by_def fun_eq_iff)

lemma listed_by_idem [simp]: "listed_by name (listed_by name vd) = listed_by name vd"
  by (simp add: listed_by_def)

lemma entry_of_listed [simp]: "listed_by name (entry_of from_hex name item) = entry_of from_hex name item"
  by (simp add: listed_by_def entry_of_def)

lemma update_loop_merged:
  assumes "bt_ok m" and "validator_update_loop from_hex name response updated m = (Inr u, m')"
  shows "bt_ok m' \<and> map_of m' = merged from_hex name response m"
  using assms
proof (induction from_hex name response updated m rule: validator_update_loop.induct)
  case (1 from_hex name updated m)
  then show ?case by (auto simp: merged_def item_slots_def fun_eq_iff split: option.splits)
next
  case (2 from_hex name item response updated m)
  let ?slot = "ucast (vi_slot item) :: u64"
  show ?case
  proof (cases "map_of m ?slot")
    case None
    with "2.prems" obtain key where key: "from_hex (vi_pubkey item) = Some key"
      and run: "validator_update_loop from_hex name response True (bt_insert ?slot (entry_of from_hex name item) m) = (Inr u, m')"
      by (auto simp: Let_def entry_of_def split: option.splits)
    have "bt_ok m' \<and> map_of m' = merged from_hex name response (bt_insert ?slot (entry_of from_hex name item) m)"
      using "2.IH"(1) [OF refl None key] run "2.prems"(1) key by (simp add: entry_of_def)
    then show ?thesis using None by (auto simp: merged_def item_slots_def fun_eq_iff split: option.splits)
  next
    case (Some vd)
    show ?thesis
    proof (cases "name \<in> set (vd_name vd)")
      case True
      with "2.IH"(3) [OF refl Some] "2.prems" Some have "bt_ok m' \<and> map_of m' = merged from_hex name response m" by (simp add: Let_def)
      then show ?thesis using True Some by (auto simp: merged_def item_slots_def fun_eq_iff listed_by_def split: option.splits)
    next
      case False
      let ?m = "bt_adjust ?slot (\<lambda>vd. vd\<lparr>vd_name := vd_name vd @ [name]\<rparr>) m"
      have "bt_ok m' \<and> map_of m' = merged from_hex name response ?m"
        using "2.IH"(2) [OF refl Some False] "2.prems" Some False by (simp add: Let_def)
      then show ?thesis using Some bt_adjust_listed [OF Some False]
        by (auto simp: merged_def item_slots_def fun_eq_iff split: option.splits)
    qed
  qed
qed

lemma update_loop_ok: "bt_ok m \<Longrightarrow> bt_ok (snd (validator_update_loop from_hex name response updated m))"
  by (induction from_hex name response updated m rule: validator_update_loop.induct) (auto simp: Let_def split: option.splits)

lemma map_of_drop: "bt_ok m \<Longrightarrow> map_of (drop k m) s = Some v \<Longrightarrow> map_of m s = Some v"
  by (metis bt_ok_drop bt_ok_in_set in_set_dropD)

lemma dropped_smaller:
  assumes "bt_ok m" and "map_of m s = Some v" and "map_of (drop k m) s = None" and "t \<in> fst ` set (drop k m)"
  shows "s < t"
proof -
  have "(s, v) \<in> set (take k m @ drop k m)" using bt_ok_in_set [OF assms(1)] assms(2) by simp
  moreover have "(s, v) \<notin> set (drop k m)" using assms(1,3) by (simp add: bt_ok_in_set bt_ok_drop)
  ultimately have "(s, v) \<in> set (take k m)" by (simp only: set_append) blast
  then have "s \<in> fst ` set (take k m)" by (rule rev_image_eqI) simp
  moreover have "sorted_wrt (<) (map fst (take k m) @ map fst (drop k m))"
    using assms(1) by (simp only: bt_ok_def flip: map_append) simp
  ultimately show ?thesis using assms(4) by (auto simp: sorted_wrt_append)
qed

text \<open>The maps that the relays' threads can produce.\<close>

inductive validator_map_run :: "(string \<Rightarrow> u8 list option) \<Rightarrow> validator_map \<Rightarrow> bool" for from_hex where
  new: "validator_map_run from_hex validator_map_new"
| fetched: "validator_map_run from_hex m \<Longrightarrow> validator_map_run from_hex (fetch_and_update_validator from_hex name answer m)"

lemma validator_map_run_ok: "validator_map_run from_hex m \<Longrightarrow> bt_ok m"
proof (induction rule: validator_map_run.induct)
  case (fetched m name answer)
  have "bt_ok (snd (validator_update from_hex name response m))" for response
    using update_loop_ok [OF fetched.IH, of from_hex name response False]
    by (cases "validator_update_loop from_hex name response False m")
      (auto simp: validator_update_def trim_front_drop bt_ok_drop split: sum.splits)
  then show ?case using fetched.IH by (simp add: fetch_and_update_validator_def split: sum.splits)
qed (simp add: validator_map_new_def)

text \<open>C32: An update that succeeds merges the relay's list into the map and keeps the 64 largest slots: a registered validator
  only gets the relay's name, a new slot gets the first item listed for it, and what is dropped is older
  than everything kept.\<close>

theorem validator_update_exact:
  assumes "validator_map_run from_hex m" and run: "validator_update from_hex name response m = (Inr updated, m')"
  shows "length m' \<le> 64 \<and>
    (\<forall>s vd. map_of m' s = Some vd \<longrightarrow> merged from_hex name response m s = Some vd) \<and>
    (\<forall>s vd. merged from_hex name response m s = Some vd \<and> map_of m' s = None \<longrightarrow>
       length m' = 64 \<and> (\<forall>t\<in>fst ` set m'. s < t))"
proof -
  obtain m1 where loop: "validator_update_loop from_hex name response False m = (Inr updated, m1)" and m': "m' = drop (length m1 - 64) m1"
    using run by (auto simp: validator_update_def trim_front_drop split: sum.splits prod.splits)
  have m1: "bt_ok m1" "map_of m1 = merged from_hex name response m"
    using update_loop_merged [OF validator_map_run_ok [OF assms(1)] loop] by simp_all
  have "length m' = 64" if "merged from_hex name response m s = Some vd" "map_of m' s = None" for s vd
  proof -
    have "length m1 - 64 \<noteq> 0" using that by (auto simp: m1(2) [symmetric] m')
    then show ?thesis by (simp add: m')
  qed
  moreover have "s < t" if "merged from_hex name response m s = Some vd" "map_of m' s = None" "t \<in> fst ` set m'" for s vd t
    using dropped_smaller [OF m1(1), of s vd "length m1 - 64" t] that by (simp add: m1(2) m')
  moreover have "length m' \<le> 64" by (simp add: m')
  moreover have "merged from_hex name response m s = Some vd" if "map_of m' s = Some vd" for s vd
    using map_of_drop [OF m1(1)] that by (simp add: m1(2) [symmetric] m')
  ultimately show ?thesis by blast
qed

text \<open>\<open>try_get\<close> returns the validator of the slot, or names the next registered slot, which is the smallest one after it, and
  0 when there is none.\<close>

theorem try_get_exact:
  assumes "validator_map_run from_hex m"
  shows "case try_get slot m of
      Inr vd \<Rightarrow> map_of m slot = Some vd
    | Inl e \<Rightarrow> map_of m slot = None \<and> (\<exists>nxt. e = NoValidatorInSlot slot nxt \<and>
        (if \<exists>s\<in>dom (map_of m). slot < s then nxt \<in> dom (map_of m) \<and> slot < nxt \<and> (\<forall>s\<in>dom (map_of m). slot < s \<longrightarrow> nxt \<le> s)
         else nxt = 0))"
proof -
  have ok: "bt_ok m" by (rule validator_map_run_ok [OF assms])
  have dom: "dom (map_of m) = fst ` set m" by (simp add: dom_map_of_conv_image_fst)
  have least: "nxt \<in> dom (map_of m) \<and> slot < nxt \<and> (\<forall>s\<in>dom (map_of m). slot < s \<longrightarrow> nxt \<le> s)"
    if f: "find (\<lambda>(s, _). slot < s) m = Some (nxt, vd)" for nxt vd
  proof -
    obtain i where i: "i < length m" "slot < fst (m ! i)" "m ! i = (nxt, vd)" "\<forall>j<i. \<not> slot < fst (m ! j)"
      using f [unfolded split_beta find_Some_iff] by metis
    have "nxt \<le> s" if s: "s \<in> fst ` set m" "slot < s" for s
    proof -
      obtain j where j: "j < length m" "s = fst (m ! j)" using s(1) by (metis imageE in_set_conv_nth)
      then have "i \<le> j" using i(4) s(2) by (meson not_le)
      then show ?thesis
        using j i ok sorted_wrt_nth_less [of "(<)" "map fst m" i j] by (cases "i = j") (auto simp: bt_ok_def)
    qed
    moreover have "nxt \<in> fst ` set m" using i nth_mem [of i m] by (metis fst_conv image_eqI)
    moreover have "slot < nxt" using i by simp
    ultimately show ?thesis by (simp add: dom)
  qed
  have none: "find (\<lambda>(s, _). slot < s) m = None \<longleftrightarrow> \<not> (\<exists>s\<in>dom (map_of m). slot < s)"
    by (auto simp: find_None_iff dom)
  show ?thesis
  proof (cases "map_of m slot")
    case None
    show ?thesis
    proof (cases "find (\<lambda>(s, _). slot < s) m")
      case (Some p)
      obtain nxt vd where p: "p = (nxt, vd)" by fastforce
      with least [of nxt vd] Some None none show ?thesis by (auto simp: try_get_def)
    qed (use None none in \<open>auto simp: try_get_def\<close>)
  qed (simp add: try_get_def)
qed

lemma execution_payload_header:
  assumes "execution_payload_from A blk = Some payload"
  shows "ep_block_hash payload = ba_header_hash A (rb_header blk)" and "ep_parent_hash payload = h_parent_hash (rb_header blk)"
    and "ep_gas_limit payload = h_gas_limit (rb_header blk)" and "ep_gas_used payload = h_gas_used (rb_header blk)"
    and "ep_timestamp payload = h_timestamp (rb_header blk)" and "ep_prev_randao payload = h_mix_hash (rb_header blk)"
    and "ep_fee_recipient payload = h_miner (rb_header blk)" and "ep_block_number payload = h_number (rb_header blk)"
    and "\<exists>ws. rb_withdrawals blk = Some ws \<and> ep_withdrawals payload = map relay_withdrawal_from ws"
  using assms by (auto simp: execution_payload_from_def Let_def split: if_splits option.splits)

lemma build_request_Some:
  assumes "build_request H A r slot vd val blk = Some req"
  obtains payload where "execution_payload_from A blk = Some payload" and "sr_execution_payload req = payload" and "sr_message req =
      \<lparr>bid_slot = slot, bid_parent_hash = ep_parent_hash payload, bid_block_hash = ep_block_hash payload,
       bid_builder_pubkey = rl_signer r, bid_proposer_pubkey = vd_pub_key vd, bid_proposer_fee_recipient = vd_fee_recipient vd,
       bid_gas_limit = ep_gas_limit payload, bid_gas_used = ep_gas_used payload, bid_value = val\<rparr>"
    and "bid_sign H (rl_sign_domain r) (rl_signer_sk r) (sr_message req) = Some (sr_signature req)"
    and "rh_withdrawals_root (rb_header blk) = Some (sr_withdrawal_root req)"
  using assms by (auto simp: build_request_def Let_def bind_eq_Some_conv pubkey_from_def split: if_splits)

text \<open>C31: The request for a block agrees with itself: the bid names the slot, the value, the validator's key and fee recipient and
  the hashes and gas of the payload it comes with, which is the block's; the signature is the builder's,
  under the domain of the relay, over a tree that determines every field of the bid; only relays
  where the validator is registered get it.\<close>

theorem submit_block_consistent:
  assumes sent: "relay_submit_block H A r slot vd blk val = Some out" and "(name, req) \<in> set out"
  shows "name \<in> set (rl_senders r) \<and> name \<in> set (vd_name vd) \<and>
    execution_payload_from A blk = Some (sr_execution_payload req) \<and>
    bid_slot (sr_message req) = slot \<and> bid_value (sr_message req) = val \<and>
    bid_proposer_pubkey (sr_message req) = vd_pub_key vd \<and> bid_proposer_fee_recipient (sr_message req) = vd_fee_recipient vd \<and>
    bid_parent_hash (sr_message req) = h_parent_hash (rb_header blk) \<and>
    bid_block_hash (sr_message req) = ba_header_hash A (rb_header blk) \<and>
    ep_block_hash (sr_execution_payload req) = ba_header_hash A (rb_header blk) \<and>
    bid_gas_limit (sr_message req) = h_gas_limit (rb_header blk) \<and> bid_gas_used (sr_message req) = h_gas_used (rb_header blk) \<and>
    (\<exists>root. sign_hash_root H (rl_sign_domain r) (bid_trace_tree (sr_message req)) = Some root \<and>
       sr_signature req = bls_sign H (rl_signer_sk r) root) \<and>
    (\<forall>t. bid_trace_tree t = bid_trace_tree (sr_message req) \<longrightarrow> t = sr_message req) \<and>
    rh_withdrawals_root (rb_header blk) = Some (sr_withdrawal_root req)"
proof -
  have "build_request H A r slot vd val blk = Some req" and n: "name \<in> set (rl_senders r)" "name \<in> set (vd_name vd)"
    using assms by (auto simp: relay_submit_block_def)
  then show ?thesis
  proof (cases rule: build_request_Some)
    case (1 payload)
    with n execution_payload_header(1-4) [OF 1(1)] show ?thesis by (auto simp: bid_sign_def bid_trace_tree_inj)
  qed
qed

section \<open>Concrete relays\<close>

definition demo_item :: "u32 \<Rightarrow> validator_item" where
  "demo_item s = \<lparr>vi_slot = s, vi_fee_recipient = 5, vi_gas_limit = 30000000, vi_timestamp = 9, vi_pubkey = ''0x01''\<rparr>"

definition demo_hex :: "string \<Rightarrow> u8 list option" where
  "demo_hex s = (if s = ''0x01'' then Some (replicate 48 1) else None)"

definition demo_validators :: validator_map where
  "demo_validators = fetch_and_update_validator demo_hex ''a'' (Inr [demo_item 4, demo_item 7]) validator_map_new"

lemma demo_validators_run: "validator_map_run demo_hex demo_validators"
  unfolding demo_validators_def by (intro validator_map_run.intros)

theorem validator_update_exact_witness:
  "\<exists>u m'. validator_update demo_hex ''b'' [demo_item 7, demo_item 9] demo_validators = (Inr u, m') \<and>
     map fst m' = [4, 7, 9] \<and> merged demo_hex ''b'' [demo_item 7, demo_item 9] demo_validators 9 \<noteq> None"
proof -
  have run: "map_prod id (map fst) (validator_update demo_hex ''b'' [demo_item 7, demo_item 9] demo_validators) = (Inr True, [4, 7, 9])"
    by code_simp
  then obtain m' where m': "validator_update demo_hex ''b'' [demo_item 7, demo_item 9] demo_validators = (Inr True, m')" "map fst m' = [4, 7, 9]"
    by (cases "validator_update demo_hex ''b'' [demo_item 7, demo_item 9] demo_validators") auto
  then have "9 \<in> fst ` set m'" by (metis list.set_intros set_map)
  then obtain vd where "map_of m' 9 = Some vd" by (metis domD dom_map_of_conv_image_fst)
  then have "merged demo_hex ''b'' [demo_item 7, demo_item 9] demo_validators 9 \<noteq> None"
    using validator_update_exact [OF demo_validators_run m'(1)] by blast
  with m' show ?thesis by (intro exI [of _ True] exI [of _ m'] conjI)
qed

theorem try_get_exact_witness: "try_get 5 demo_validators = Inl (NoValidatorInSlot 5 7) \<and> map_of demo_validators 5 = None"
proof -
  have "try_get 5 demo_validators = Inl (NoValidatorInSlot 5 7)" by code_simp
  with try_get_exact [OF demo_validators_run, of 5] show ?thesis by simp
qed

definition demo_bls :: "nat bls_api" where
  "demo_bls = \<lparr>bls_public = (\<lambda>sk. replicate 48 (word_of_nat sk)), bls_sign = (\<lambda>sk root. word_of_nat sk # root),
     ssz_hash_root = (\<lambda>puts. Some (be_bytes 32 (length puts)))\<rparr>"

definition demo_blocks :: "nat block_api" where
  "demo_blocks = \<lparr>ba_header_hash = (\<lambda>h. 100 + ucast (h_number h)), ba_inner_bytes = (\<lambda>t. if t = 0 then None else Some [word_of_nat t])\<rparr>"

definition demo_relay :: "nat relay" where
  "demo_relay = the (relay_new demo_bls 3 [0, 0, 0, 0] [(''!x'', ''u''), (''a'', ''u''), (''b'', ''v'')])"

definition demo_relay_block :: "nat relay_block" where
  "demo_relay_block =
     \<lparr>rb_header =
        \<lparr>h_parent_hash = 1, h_number = 100, h_gas_limit = 30000000, h_gas_used = 21000, h_timestamp = 12, h_miner = 6,
         h_mix_hash = 3, h_extra_data = [], h_base_fee_per_gas = 7, h_difficulty = 0, h_state_root = 8,
         rh_receipts_root = 9, rh_logs_bloom = replicate 256 0, rh_withdrawals_root = Some 10\<rparr>,
      rb_transactions = [4, 0, 5], rb_withdrawals = Some []\<rparr>"

definition demo_validator :: validator_data where
  "demo_validator = \<lparr>vd_pub_key = replicate 48 1, vd_fee_recipient = 5, vd_gas_limit = 30000000, vd_timestamp = 9, vd_name = [''a'', ''c'']\<rparr>"

theorem submit_block_consistent_witness:
  "\<exists>req. relay_submit_block demo_bls demo_blocks demo_relay 7 demo_validator demo_relay_block 1000 = Some [(''a'', req)] \<and>
     bid_block_hash (sr_message req) = 200 \<and> bid_value (sr_message req) = 1000"
proof -
  have "\<exists>req. relay_submit_block demo_bls demo_blocks demo_relay 7 demo_validator demo_relay_block 1000 = Some [(''a'', req)]"
    by (simp add: relay_submit_block_def build_request_def execution_payload_from_def demo_relay_block_def demo_validator_def
      demo_relay_def relay_new_def domain_new_def demo_bls_def starts_with_def pubkey_from_def bid_sign_def sign_hash_root_def Let_def)
  then obtain req where req: "relay_submit_block demo_bls demo_blocks demo_relay 7 demo_validator demo_relay_block 1000 = Some [(''a'', req)]"
    by blast
  from submit_block_consistent [OF req, of "''a''" req] req show ?thesis by (simp add: demo_blocks_def demo_relay_block_def)
qed

end
