(* ===== verification/Beacon.thy ===== *)
theory Beacon
  imports Eth_Types "HOL-Library.Monad_Syntax"
begin

text \<open>
  The slots of the beacon chain and the head a block is built on: \<open>src/common/eth_client/src/beacon_client.rs\<close>
  (\<open>BeaconSlot\<close>) and \<open>beacon_head_state.rs\<close>.

  The arithmetic on \<open>u64\<close> is raw and wraps; a division by a zero \<open>block_time\<close> panics (\<open>None\<close>).  \<open>Duration\<close> is a number
  of nanoseconds.  The type \<open>Time\<close> of the crate \<open>base\<close> is the type variable \<open>'t\<close> with the operations the sources use
  as the record \<open>time_api\<close>; \<open>lawful_time\<close> says that they are those of points in time counted from the epoch.

  The loops of the background threads are steps on what the broadcast channels hold as their latest message.
  The answers of the beacon node are arguments of the steps.
\<close>

section \<open>Time\<close>

type_synonym duration = nat

definition duration_from_secs :: "u64 \<Rightarrow> duration" where
  "duration_from_secs s = unat s * 1000000000"

definition duration_from_millis :: "u64 \<Rightarrow> duration" where
  "duration_from_millis s = unat s * 1000000"

record 't time_api =
  tm_from_secs :: "u64 \<Rightarrow> 't"
  tm_from_duration :: "duration \<Rightarrow> 't"
  tm_le :: "'t \<Rightarrow> 't \<Rightarrow> bool"
  tm_add :: "'t \<Rightarrow> duration \<Rightarrow> 't option"
  tm_sub :: "'t \<Rightarrow> duration \<Rightarrow> 't option"
  tm_since :: "'t \<Rightarrow> 't \<Rightarrow> duration option"
  tm_saturating_since :: "'t \<Rightarrow> 't \<Rightarrow> duration"

abbreviation tm_less :: "'t time_api \<Rightarrow> 't \<Rightarrow> 't \<Rightarrow> bool" where
  "tm_less T a b \<equiv> \<not> tm_le T b a"

text \<open>The points in time are read by \<open>nanos\<close>, their distance from the epoch.\<close>

definition lawful_time :: "'t time_api \<Rightarrow> ('t \<Rightarrow> nat) \<Rightarrow> bool" where
  "lawful_time T nanos \<longleftrightarrow>
     (\<forall>s. nanos (tm_from_secs T s) = duration_from_secs s) \<and>
     (\<forall>d. nanos (tm_from_duration T d) = d) \<and>
     (\<forall>a b. tm_le T a b \<longleftrightarrow> nanos a \<le> nanos b) \<and>
     (\<forall>a d b. tm_add T a d = Some b \<longrightarrow> nanos b = nanos a + d) \<and>
     (\<forall>a d b. tm_sub T a d = Some b \<longrightarrow> nanos b + d = nanos a) \<and>
     (\<forall>a b d. tm_since T a b = Some d \<longrightarrow> nanos b + d = nanos a) \<and>
     (\<forall>a b. tm_saturating_since T a b = nanos a - nanos b)"

lemma lawful_timeD:
  assumes "lawful_time T nanos"
  shows "nanos (tm_from_secs T s) = duration_from_secs s" and "tm_le T a b \<longleftrightarrow> nanos a \<le> nanos b"
    and "tm_add T a d = Some b \<Longrightarrow> nanos b = nanos a + d" and "tm_sub T a d = Some b \<Longrightarrow> nanos b + d = nanos a"
    and "tm_since T a b = Some d \<Longrightarrow> nanos b + d = nanos a" and "tm_saturating_since T a b = nanos a - nanos b"
    and "nanos (tm_from_duration T d) = d"
  using assms by (auto simp: lawful_time_def)

definition demo_time :: "nat time_api" where
  "demo_time =
     \<lparr>tm_from_secs = duration_from_secs, tm_from_duration = id, tm_le = (\<le>), tm_add = (\<lambda>a d. Some (a + d)),
      tm_sub = (\<lambda>a d. if d \<le> a then Some (a - d) else None),
      tm_since = (\<lambda>a b. if b \<le> a then Some (a - b) else None), tm_saturating_since = (-)\<rparr>"

lemma demo_time_lawful: "lawful_time demo_time id"
  by (auto simp: lawful_time_def demo_time_def split: if_splits)

section \<open>\<open>BeaconSlot\<close>\<close>

record beacon_slot =
  bs_block_time :: u64
  bs_genesis_time :: u64

definition beacon_slot_new :: "u64 \<Rightarrow> u64 \<Rightarrow> beacon_slot" where
  "beacon_slot_new block_time genesis_time = \<lparr>bs_block_time = block_time, bs_genesis_time = genesis_time\<rparr>"

definition slot_secs :: "beacon_slot \<Rightarrow> u64 \<Rightarrow> u64" where
  "slot_secs S slot = bs_genesis_time S + bs_block_time S * slot"

definition slot_of :: "beacon_slot \<Rightarrow> u64 \<Rightarrow> u64 option" where
  "slot_of S ts = chk_div (ts - bs_genesis_time S) (bs_block_time S)"

text \<open>\<open>current\<close>, with the seconds \<open>now\<close> of the clock.\<close>

definition slot_current :: "beacon_slot \<Rightarrow> u64 \<Rightarrow> u64 option" where
  "slot_current S now = chk_div (now - bs_genesis_time S) (bs_block_time S)"

definition slot_time :: "'t time_api \<Rightarrow> beacon_slot \<Rightarrow> u64 \<Rightarrow> 't" where
  "slot_time T S slot = tm_from_secs T (slot_secs S slot)"

definition slot_duration :: "beacon_slot \<Rightarrow> u64 \<Rightarrow> duration" where
  "slot_duration S slot = duration_from_secs (slot_secs S slot)"

definition next_block_time :: "beacon_slot \<Rightarrow> block_header \<Rightarrow> u64 \<Rightarrow> duration" where
  "next_block_time S blk blks = duration_from_secs (h_timestamp blk + blks * bs_block_time S)"

section \<open>\<open>BeaconHead\<close>\<close>

record beacon_head =
  bh_slot :: u64
  bh_slot_time :: u64
  bh_block :: block_header
  bh_randao :: "h256 option"
  bh_withdrawal :: "withdrawal list option"

definition is_eth1_match :: "beacon_head \<Rightarrow> bool" where
  "is_eth1_match head \<longleftrightarrow> h_timestamp (bh_block head) = bh_slot_time head"

definition ready_for_submit :: "beacon_head \<Rightarrow> bool" where
  "ready_for_submit head \<longleftrightarrow> bh_randao head \<noteq> None \<and> bh_withdrawal head \<noteq> None"

definition head_randao :: "beacon_head \<Rightarrow> h256" where
  "head_randao head = (case bh_randao head of Some randao \<Rightarrow> randao | None \<Rightarrow> h_mix_hash (bh_block head))"

definition head_withdrawal :: "beacon_head \<Rightarrow> withdrawal list" where
  "head_withdrawal head = (case bh_withdrawal head of Some item \<Rightarrow> item | None \<Rightarrow> [])"

text \<open>The decimal digits of a number, as \<open>format!\<close> writes them.\<close>

fun decimal :: "nat \<Rightarrow> string" where
  "decimal n = (if n < 10 then [char_of (48 + n)] else decimal (n div 10) @ [char_of (48 + n mod 10)])"

declare decimal.simps [simp del]

definition thread_name :: "beacon_head \<Rightarrow> string" where
  "thread_name head =
     (let blk_number =
            (if h_timestamp (bh_block head) = bh_slot_time head then h_number (bh_block head)
             else h_number (bh_block head) + 1)
      in decimal (unat (bh_slot head + 1)) @ ''.'' @ decimal (unat (blk_number + 1)))"

section \<open>\<open>BeaconHeadState\<close>\<close>

text \<open>
  The latest message of each channel, and the slot the thread \<open>beacon-new-head\<close> broadcast last.
  \<open>hs_blocks\<close> is the head block of \<open>HeadState\<close>, whose \<open>get\<close> unwraps it.
\<close>

record head_channels =
  hs_last_slot :: "u64 option"
  hs_head :: "beacon_head option"
  hs_randao :: "(u64 \<times> h256) option"
  hs_withdrawal :: "(u64 \<times> withdrawal list) option"
  hs_blocks :: "block_header option"

definition head_channels_new :: "block_header option \<Rightarrow> head_channels" where
  "head_channels_new blk =
     \<lparr>hs_last_slot = None, hs_head = None, hs_randao = None, hs_withdrawal = None, hs_blocks = blk\<rparr>"

text \<open>One round of the loop of each thread; \<open>None\<close> is a panic of the thread.\<close>

definition fetch_randao_round ::
  "beacon_slot \<Rightarrow> u64 \<Rightarrow> (u64 \<Rightarrow> string + h256) \<Rightarrow> head_channels \<Rightarrow> head_channels option" where
  "fetch_randao_round S now get_randao c =
     map_option (\<lambda>slot. case get_randao slot of
         Inr randao \<Rightarrow> c\<lparr>hs_randao := Some (slot, randao)\<rparr>
       | Inl _ \<Rightarrow> c) (slot_current S now)"

record beacon_withdrawal =
  bw_index :: u64
  bw_validator_index :: u64
  bw_address :: h160
  bw_amount :: u64

definition to_standard :: "beacon_withdrawal \<Rightarrow> withdrawal" where
  "to_standard w =
     \<lparr>w_index = bw_index w, w_validator_index = bw_validator_index w, w_address = bw_address w, w_amount = bw_amount w\<rparr>"

definition fetch_withdrawal_round ::
  "beacon_slot \<Rightarrow> u64 \<Rightarrow> (u64 \<Rightarrow> string + beacon_withdrawal list) \<Rightarrow> head_channels \<Rightarrow> head_channels option" where
  "fetch_withdrawal_round S now get_withdrawal c =
     map_option (\<lambda>slot. case get_withdrawal slot of
         Inr result \<Rightarrow> c\<lparr>hs_withdrawal := Some (slot, map to_standard result)\<rparr>
       | Inl _ \<Rightarrow> c) (slot_current S now)"

definition new_head_round :: "beacon_slot \<Rightarrow> u64 \<Rightarrow> head_channels \<Rightarrow> head_channels option" where
  "new_head_round S now c =
     do {
       slot \<leftarrow> slot_current S now;
       if Some slot = hs_last_slot c then Some c
       else do {
         blk \<leftarrow> hs_blocks c;
         Some (c\<lparr>hs_head := Some \<lparr>bh_slot = slot, bh_slot_time = slot_secs S slot, bh_block = blk,
                                  bh_randao = None, bh_withdrawal = None\<rparr>,
                 hs_last_slot := Some slot\<rparr>)
       }
     }"

definition refresh :: "head_channels \<Rightarrow> beacon_head \<Rightarrow> beacon_head option" where
  "refresh c head =
     (let head = (case hs_randao c of
            Some (slot, randao) \<Rightarrow> if bh_slot head = slot then head\<lparr>bh_randao := Some randao\<rparr> else head
          | None \<Rightarrow> head);
          head = (case hs_withdrawal c of
            Some (slot, withdrawals) \<Rightarrow> if bh_slot head = slot then head\<lparr>bh_withdrawal := Some withdrawals\<rparr> else head
          | None \<Rightarrow> head)
      in map_option (\<lambda>new_head.
           if h_timestamp new_head = bh_slot_time head then head\<lparr>bh_block := new_head\<rparr> else head) (hs_blocks c))"

section \<open>Slots and seconds\<close>

lemma slot_secs_unat:
  assumes "unat (bs_genesis_time S) + unat (bs_block_time S) * unat s < 2 ^ 64"
  shows "unat (slot_secs S s) = unat (bs_genesis_time S) + unat (bs_block_time S) * unat s"
proof -
  have "unat (bs_block_time S * s) = unat (bs_block_time S) * unat s"
    using assms by (simp add: unat_word_ariths)
  then show ?thesis using assms by (simp add: slot_secs_def unat_add_small)
qed

lemma slot_of_Some: "bs_genesis_time S \<le> ts \<Longrightarrow>
  slot_of S ts = Some s \<longleftrightarrow> bs_block_time S \<noteq> 0 \<and> unat s = (unat ts - unat (bs_genesis_time S)) div unat (bs_block_time S)"
  by (auto simp: slot_of_def chk_simps unat_sub word_le_nat_alt)

lemma conj_absorb_eq: "P \<Longrightarrow> (P \<and> a = b) \<longleftrightarrow> b = a"
  by auto

lemma div_eq_iff_bounds: "0 < (b::nat) \<Longrightarrow> d div b = n \<longleftrightarrow> b * n \<le> d \<and> d < b * Suc n"
  by (metis div_nat_eqI dividend_less_times_div mult_Suc_right add.commute times_div_less_eq_dividend)

text \<open>C25: Slots and seconds convert into each other: when the time of a slot fits in 64 bits, it and every second until the
  next slot belong to that slot and to no other, and every second from the genesis on lies in its slot.\<close>

theorem beacon_slot_roundtrip:
  assumes "bs_block_time S \<noteq> 0" and "unat (bs_genesis_time S) + unat (bs_block_time S) * Suc (unat s) < 2 ^ 64"
  shows "slot_of S (slot_secs S s) = Some s \<and>
    (\<forall>now. bs_genesis_time S \<le> now \<longrightarrow> (slot_current S now = Some s \<longleftrightarrow> slot_secs S s \<le> now \<and> now < slot_secs S (s + 1)))"
proof -
  have s: "unat (slot_secs S s) = unat (bs_genesis_time S) + unat (bs_block_time S) * unat s"
    using assms(2) by (intro slot_secs_unat) (simp add: algebra_simps)
  have pos: "0 < unat (bs_block_time S)" using assms(1) by (simp add: unat_gt_0)
  then have "1 * Suc (unat s) \<le> unat (bs_block_time S) * Suc (unat s)" by (intro mult_le_mono1) simp
  then have "Suc (unat s) < 2 ^ 64" unfolding nat_mult_1 by (rule le_less_trans) (rule le_less_trans [OF le_add2 assms(2)])
  then have "unat (s + 1) = Suc (unat s)" using unat_add_small [of s 1] by simp
  with assms(2) have s1: "unat (slot_secs S (s + 1)) = unat (bs_genesis_time S) + unat (bs_block_time S) * Suc (unat s)"
    using slot_secs_unat [of S "s + 1"] by simp
  have slots: "slot_of S ts = Some s \<longleftrightarrow> slot_secs S s \<le> ts \<and> ts < slot_secs S (s + 1)" if g: "bs_genesis_time S \<le> ts" for ts
  proof -
    obtain d where d: "unat ts = unat (bs_genesis_time S) + d"
      using le_Suc_ex [OF g [unfolded word_le_nat_alt]] by blast
    have "slot_of S ts = Some s \<longleftrightarrow> d div unat (bs_block_time S) = unat s"
      unfolding slot_of_Some [OF g] d add_diff_cancel_left' using assms(1) by (rule conj_absorb_eq)
    also have "\<dots> \<longleftrightarrow> unat (bs_block_time S) * unat s \<le> d \<and> d < unat (bs_block_time S) * Suc (unat s)"
      by (rule div_eq_iff_bounds [OF pos])
    finally show ?thesis unfolding word_le_nat_alt word_less_nat_alt s s1 d by (simp only: nat_add_left_cancel_le nat_add_left_cancel_less)
  qed
  have "bs_genesis_time S \<le> slot_secs S s" "slot_secs S s < slot_secs S (s + 1)"
    using pos unfolding word_le_nat_alt word_less_nat_alt s s1 by simp_all
  then have "slot_of S (slot_secs S s) = Some s" using slots by blast
  moreover have "slot_current S = slot_of S" by (rule ext) (simp only: slot_current_def slot_of_def)
  ultimately show ?thesis using slots by metis
qed

theorem beacon_slot_roundtrip_witness:
  "slot_of (beacon_slot_new 12 1606824023) (slot_secs (beacon_slot_new 12 1606824023) 6000000) = Some 6000000 \<and>
   slot_current (beacon_slot_new 12 1606824023) 1678824034 = Some 6000000"
  using beacon_slot_roundtrip [of "beacon_slot_new 12 1606824023" 6000000]
  by (simp add: beacon_slot_new_def slot_secs_def)

section \<open>The data of a head\<close>

text \<open>
  The channels after any interleaving of the threads; \<open>R\<close> and \<open>W\<close> collect what the beacon node has answered, with
  the slot it was asked for, and \<open>heads\<close> the heads that subscribers hold, refreshed any number of times.
\<close>

inductive beacon_reach ::
  "beacon_slot \<Rightarrow> (u64 \<times> h256) set \<Rightarrow> (u64 \<times> withdrawal list) set \<Rightarrow> beacon_head set \<Rightarrow> head_channels \<Rightarrow> bool"
  for S where
  start: "beacon_reach S {} {} {} (head_channels_new blk)"
| new_block: "beacon_reach S R W heads c \<Longrightarrow> beacon_reach S R W heads (c\<lparr>hs_blocks := Some blk\<rparr>)"
| randao: "beacon_reach S R W heads c \<Longrightarrow> fetch_randao_round S now get c = Some c' \<Longrightarrow>
    beacon_reach S (R \<union> {(slot, r). slot_current S now = Some slot \<and> get slot = Inr r}) W heads c'"
| withdrawal: "beacon_reach S R W heads c \<Longrightarrow> fetch_withdrawal_round S now get_w c = Some c' \<Longrightarrow>
    beacon_reach S R (W \<union> {(slot, map to_standard ws) |slot ws. slot_current S now = Some slot \<and> get_w slot = Inr ws}) heads c'"
| new_head: "beacon_reach S R W heads c \<Longrightarrow> new_head_round S now c = Some c' \<Longrightarrow>
    beacon_reach S R W (heads \<union> set_option (hs_head c')) c'"
| refreshed: "beacon_reach S R W heads c \<Longrightarrow> head \<in> heads \<Longrightarrow> refresh c head = Some head' \<Longrightarrow>
    beacon_reach S R W (insert head' heads) c"

text \<open>A head has the time of its slot, and data that the node gave for its slot.\<close>

definition head_ok ::
  "beacon_slot \<Rightarrow> (u64 \<times> h256) set \<Rightarrow> (u64 \<times> withdrawal list) set \<Rightarrow> beacon_head \<Rightarrow> bool" where
  "head_ok S R W head \<longleftrightarrow> bh_slot_time head = slot_secs S (bh_slot head) \<and>
     (\<forall>r. bh_randao head = Some r \<longrightarrow> (bh_slot head, r) \<in> R) \<and>
     (\<forall>ws. bh_withdrawal head = Some ws \<longrightarrow> (bh_slot head, ws) \<in> W)"

lemma head_ok_mono: "head_ok S R W head \<Longrightarrow> R \<subseteq> R' \<Longrightarrow> W \<subseteq> W' \<Longrightarrow> head_ok S R' W' head"
  by (auto simp: head_ok_def)

lemma head_ok_new: "head_ok S R W \<lparr>bh_slot = slot, bh_slot_time = slot_secs S slot, bh_block = blk, bh_randao = None, bh_withdrawal = None\<rparr>"
  by (simp add: head_ok_def)

lemma refresh_ok:
  assumes "head_ok S R W head" and "set_option (hs_randao c) \<subseteq> R" and "set_option (hs_withdrawal c) \<subseteq> W" and "refresh c head = Some head'"
  shows "head_ok S R W head'" and "bh_slot head' = bh_slot head"
    and "bh_block head' = bh_block head \<or> hs_blocks c = Some (bh_block head') \<and> is_eth1_match head'"
proof -
  show "bh_slot head' = bh_slot head"
    using assms(4) by (auto simp: refresh_def Let_def split: option.splits if_splits prod.splits)
  show "head_ok S R W head'"
    using assms by (auto simp: refresh_def head_ok_def Let_def split: option.splits if_splits prod.splits)
  show "bh_block head' = bh_block head \<or> hs_blocks c = Some (bh_block head') \<and> is_eth1_match head'"
    using assms(4) by (auto simp: refresh_def is_eth1_match_def Let_def split: option.splits if_splits prod.splits)
qed

lemma fetch_randao_round_Some:
  "fetch_randao_round S now get c = Some c' \<longleftrightarrow> (\<exists>slot. slot_current S now = Some slot \<and>
     (\<exists>e. get slot = Inl e \<and> c' = c) \<or> (\<exists>slot r. slot_current S now = Some slot \<and> get slot = Inr r \<and> c' = c\<lparr>hs_randao := Some (slot, r)\<rparr>))"
  unfolding fetch_randao_round_def by (cases "slot_current S now") (auto split: sum.splits)

lemma fetch_withdrawal_round_Some:
  "fetch_withdrawal_round S now get c = Some c' \<longleftrightarrow> (\<exists>slot. slot_current S now = Some slot \<and>
     (\<exists>e. get slot = Inl e \<and> c' = c) \<or> (\<exists>slot ws. slot_current S now = Some slot \<and> get slot = Inr ws \<and> c' = c\<lparr>hs_withdrawal := Some (slot, map to_standard ws)\<rparr>))"
  unfolding fetch_withdrawal_round_def by (cases "slot_current S now") (auto split: sum.splits)

lemma beacon_reach_ok:
  assumes "beacon_reach S R W heads c"
  shows "(\<forall>head\<in>heads \<union> set_option (hs_head c). head_ok S R W head) \<and>
    set_option (hs_randao c) \<subseteq> R \<and> set_option (hs_withdrawal c) \<subseteq> W"
  using assms
proof (induction rule: beacon_reach.induct)
  case (start blk)
  then show ?case by (simp add: head_channels_new_def)
next
  case (new_block R W heads c blk)
  then show ?case by simp
next
  case (randao R W heads c now get c')
  then show ?case
    unfolding fetch_randao_round_Some by (auto intro: head_ok_mono)
next
  case (withdrawal R W heads c now get_w c')
  then show ?case
    unfolding fetch_withdrawal_round_Some by (auto intro: head_ok_mono)
next
  case (new_head R W heads c now c')
  then show ?case
    by (auto simp: new_head_round_def head_ok_new split: if_splits bind_splits)
next
  case (refreshed R W heads c head head')
  then show ?case using refresh_ok(1) [of S R W head c head'] by auto
qed

end
