(* ===== verification/Build_Service.thy ===== *)
theory Build_Service
  imports Block_Payments Relay Beacon
begin

text \<open>
  The block builder service: \<open>src/apps/block-builder/src/build.rs\<close> (\<open>BuildService\<close>) and the thread of \<open>app.rs\<close> that
  fills the pools.  It composes the beacon head, the relay, the builder and the pools.

  Every reading of a clock and every answer of another thread during a round is a field of \<open>round_input\<close>; the
  blocks of the builder are those of the relay.  The loop of \<open>build_multiple_rounds\<close> is an \<open>iterate\<close>.
  \<open>ready_for_submit\<close> is never called, so a round does not wait for the beacon node's answers.
\<close>

section \<open>Collecting transactions\<close>

datatype 'tx mempool_item = SeqItem "'tx pool_tx" | PriceItem "'tx pool_tx" | BundleItem "'tx eth_bundle"

definition item_pool_tx :: "'tx mempool_item \<Rightarrow> 'tx pool_tx option" where
  "item_pool_tx item = (case item of SeqItem tx \<Rightarrow> Some tx | PriceItem tx \<Rightarrow> Some tx | BundleItem _ \<Rightarrow> None)"

text \<open>
  The closure of \<open>collect-tx\<close>.  \<open>show_left\<close> prints the time left until a point in time; the subtraction of the
  block numbers is raw.  \<open>None\<close> is a panic of the price pool.
\<close>

definition collect_item ::
  "'tx tx_api \<Rightarrow> 'tx bundle_api \<Rightarrow> beacon_slot \<Rightarrow> (duration \<Rightarrow> string) \<Rightarrow> nat \<Rightarrow> block_header \<Rightarrow> 'tx mempool_item \<Rightarrow> 'tx tx_pool
     \<Rightarrow> 'tx tx_pool option" where
  "collect_item A Bu S show_left now head item txpool =
     (case item of
        BundleItem bundle \<Rightarrow>
          (let next = next_block_time S head (b_block_number bundle - h_number head)
           in Some (txpool\<lparr>tp_bundle_pool := snd (bundle_pool_add Bu bundle (show_left next) (tp_bundle_pool txpool))\<rparr>))
      | PriceItem tx \<Rightarrow>
          map_option (\<lambda>(_, pool). txpool\<lparr>tp_price_pool := pool\<rparr>) (price_pool_push A tx (tp_price_pool txpool))
      | SeqItem tx \<Rightarrow> Some (txpool\<lparr>tp_seq_pool := snd (seq_pool_push A now tx (tp_seq_pool txpool))\<rparr>))"

section \<open>A round\<close>

record ('tx, 's, 'e, 'wtx, 'sk, 't) build_service =
  sv_builder :: "('tx, 's, 'e, 'wtx relay_block) builder"
  sv_extra :: "u8 list"
  sv_relay :: "'sk relay"
  sv_bls :: "'sk bls_api"
  sv_blocks :: "'wtx block_api"
  sv_beacon_slot :: beacon_slot
  sv_submit_time :: duration
  sv_time :: "'t time_api"

text \<open>The pools, and the deadline of the \<open>Alive\<close> in \<open>current_alive\<close> with whether \<open>rebuild\<close> has shut it down.\<close>

record ('tx, 't) service_state =
  st_txpool :: "'tx tx_pool"
  st_current_alive :: "('t \<times> bool) option"

record ('s, 't) round_input =
  ri_channels :: head_channels
  ri_now :: 't
  ri_alive :: "'t \<Rightarrow> clock"
  ri_state :: 's
  ri_built :: 't
  ri_history :: u64

definition rebuild :: "('tx, 't) service_state \<Rightarrow> ('tx, 't) service_state" where
  "rebuild st = st\<lparr>st_current_alive := map_option (\<lambda>(deadline, _). (deadline, True)) (st_current_alive st)\<rparr>"

definition round_payload ::
  "('tx, 's, 'e, 'wtx, 'sk, 't) build_service \<Rightarrow> nat \<Rightarrow> beacon_head \<Rightarrow> validator_data \<Rightarrow> build_payload" where
  "round_payload sv round head vd =
     (let new_slot = bh_slot head + 1
      in \<lparr>pl_round = round, pl_slot = new_slot, pl_base = bh_block head, pl_coinbase = bb_payer (sv_builder sv),
          pl_gas_limit = vd_gas_limit vd, pl_timestamp = slot_secs (sv_beacon_slot sv) new_slot, pl_random = head_randao head,
          pl_extra = sv_extra sv, pl_withdrawals = head_withdrawal head, pl_tips_recipient = Some (vd_fee_recipient vd)\<rparr>)"

definition set_histories :: "'tx bundle_api \<Rightarrow> u64 \<Rightarrow> 'tx bundle_result list \<Rightarrow> 'tx bundle_pool_list \<Rightarrow> 'tx bundle_pool_list" where
  "set_histories Bu now results = fold (\<lambda>r. bundle_pool_set_history Bu now (br_bundle r) (br_status r)) results"

type_synonym ('tx, 't) round_result =
  "(unit, bool \<times> (string \<times> submit_request) list) outcome \<times> beacon_head \<times> ('tx, 't) service_state"

text \<open>After a successful build: is there time to submit, but not more than three seconds?\<close>

definition available_for_submit :: "'t time_api \<Rightarrow> 't \<Rightarrow> 't \<Rightarrow> bool option" where
  "available_for_submit T deadline now =
     (if tm_less T now deadline then map_option (\<lambda>left. left \<le> duration_from_secs 3) (tm_since T deadline now) else Some False)"

definition submit_built ::
  "('tx, 's, 'e, 'wtx, 'sk, 't) build_service \<Rightarrow> ('s, 't) round_input \<Rightarrow> validator_data \<Rightarrow> 't \<Rightarrow> ('tx, 'wtx relay_block) block_result
     \<Rightarrow> beacon_head \<Rightarrow> ('tx, 't) service_state \<Rightarrow> ('tx, 't) round_result" where
  "submit_built sv inp vd deadline blk head st =
     (case Option.bind (tm_add (sv_time sv) deadline (sv_submit_time sv)) (\<lambda>deadline. available_for_submit (sv_time sv) deadline (ri_built inp)) of
        None \<Rightarrow> (Panic, head, st)
      | Some False \<Rightarrow> (Ok (True, []), head, st)
      | Some True \<Rightarrow>
          (case relay_submit_block (sv_bls sv) (sv_blocks sv) (sv_relay sv) (bk_slot blk) vd (bk_block blk) (bk_profit blk) of
             None \<Rightarrow> (Panic, head, st)
           | Some sends \<Rightarrow>
               (Ok (True, sends), head,
                st\<lparr>st_txpool := (st_txpool st)\<lparr>tp_bundle_pool :=
                     set_histories (bb_bundles (sv_builder sv)) (ri_history inp) (bk_bundles blk) (tp_bundle_pool (st_txpool st))\<rparr>\<rparr>)))"

definition round_end ::
  "('tx, 's, 'e, 'wtx, 'sk, 't) build_service \<Rightarrow> ('s, 't) round_input \<Rightarrow> validator_data \<Rightarrow> 't
     \<Rightarrow> ('e build_error, ('tx, 'wtx relay_block) block_result) outcome \<Rightarrow> beacon_head \<Rightarrow> ('tx, 't) service_state \<Rightarrow> ('tx, 't) round_result" where
  "round_end sv inp vd deadline r head st =
     (case r of
        Panic \<Rightarrow> (Panic, head, st)
      | Err _ \<Rightarrow> (Ok (True, []), head, st)
      | Ok blk \<Rightarrow> submit_built sv inp vd deadline blk head st)"

definition build_single_round ::
  "('tx, 's, 'e, 'wtx, 'sk, 't) build_service \<Rightarrow> ('s, 't) round_input \<Rightarrow> nat \<Rightarrow> beacon_head \<Rightarrow> ('tx, 't) service_state
     \<Rightarrow> ('tx, 't) round_result option" where
  "build_single_round sv inp round head st =
     (case get_validator_for_slot (sv_relay sv) (bh_slot head + 1) of
        Inl _ \<Rightarrow> Some (Ok (False, []), head, st)
      | Inr vd \<Rightarrow>
     (case refresh (ri_channels inp) head of
        None \<Rightarrow> Some (Panic, head, st)
      | Some head \<Rightarrow>
     (let new_slot = bh_slot head + 1; T = sv_time sv in
      case tm_sub T (slot_time T (sv_beacon_slot sv) new_slot) (sv_submit_time sv) of
        None \<Rightarrow> Some (Panic, head, st)
      | Some deadline \<Rightarrow>
          if tm_le T deadline (ri_now inp) then Some (Ok (False, []), head, st)
          else if duration_from_secs 60 < tm_saturating_since T deadline (tm_from_secs T (h_timestamp (bh_block head)))
          then Some (Ok (False, []), head, st)
          else
            let st = st\<lparr>st_current_alive := Some (deadline, False)\<rparr> in
            map_option (\<lambda>(r, txpool). round_end sv inp vd deadline r head (st\<lparr>st_txpool := txpool\<rparr>))
              (build (sv_builder sv) (ri_alive inp deadline) (ri_state inp) (st_txpool st) (round_payload sv round head vd)))))"

section \<open>The rounds of a slot\<close>

text \<open>What the loop reads before a round: \<open>alive\<close>, the seconds of the clock, and the inputs of the round.\<close>

record ('s, 't) loop_input =
  li_alive :: bool
  li_now :: u64
  li_round :: "('s, 't) round_input"

record ('tx, 't) loop_state =
  ls_round :: nat
  ls_head :: beacon_head
  ls_service :: "('tx, 't) service_state"
  ls_sent :: "(nat \<times> string \<times> submit_request) list"

definition rounds_step ::
  "('tx, 's, 'e, 'wtx, 'sk, 't) build_service \<Rightarrow> (nat \<Rightarrow> ('s, 't) loop_input) \<Rightarrow> ('tx, 't) loop_state
     \<Rightarrow> ((unit, unit) outcome \<times> ('tx, 't) loop_state) + ('tx, 't) loop_state" where
  "rounds_step sv inputs l =
     (let inp = inputs (ls_round l) in
      if \<not> li_alive inp then Inl (Ok (), l)
      else case slot_current (sv_beacon_slot sv) (li_now inp) of
        None \<Rightarrow> Inl (Panic, l)
      | Some slot \<Rightarrow>
          if slot \<noteq> bh_slot (ls_head l) then Inl (Ok (), l)
          else case build_single_round sv (li_round inp) (ls_round l) (ls_head l) (ls_service l) of
            None \<Rightarrow> Inr l
          | Some (r, head, st) \<Rightarrow>
              (let l' = l\<lparr>ls_head := head, ls_service := st\<rparr> in
               case r of
                 Panic \<Rightarrow> Inl (Panic, l')
               | Err e \<Rightarrow> Inl (Err e, l')
               | Ok (cont, sends) \<Rightarrow>
                   (let l' = l'\<lparr>ls_sent := ls_sent l' @ map (Pair (ls_round l)) sends\<rparr>
                    in if cont then Inr (l'\<lparr>ls_round := Suc (ls_round l)\<rparr>) else Inl (Ok (), l'))))"

definition build_multiple_rounds ::
  "('tx, 's, 'e, 'wtx, 'sk, 't) build_service \<Rightarrow> (nat \<Rightarrow> ('s, 't) loop_input) \<Rightarrow> beacon_head \<Rightarrow> ('tx, 't) service_state
     \<Rightarrow> ((unit, unit) outcome \<times> ('tx, 't) loop_state) option" where
  "build_multiple_rounds sv inputs head st =
     iterate (rounds_step sv inputs) \<lparr>ls_round = 0, ls_head = head, ls_service = st, ls_sent = []\<rparr>"

section \<open>What a round sends\<close>

text \<open>\<open>Block::new\<close> of \<open>eth_types\<close> keeps the header it is given, but for the roots, and the withdrawals.\<close>

definition block_kept :: "('tx, 's, 'e, 'wtx relay_block) builder \<Rightarrow> bool" where
  "block_kept B \<longleftrightarrow> (\<forall>h txs rs ws.
     block_header.truncate (rb_header (bb_block_new B h txs rs ws)) = h \<and> rb_withdrawals (bb_block_new B h txs rs ws) = Some ws)"

lemma truncate_header [simp]:
  "h_parent_hash (block_header.truncate r) = h_parent_hash r" "h_gas_limit (block_header.truncate r) = h_gas_limit r"
  "h_gas_used (block_header.truncate r) = h_gas_used r" "h_timestamp (block_header.truncate r) = h_timestamp r"
  "h_miner (block_header.truncate r) = h_miner r" "h_mix_hash (block_header.truncate r) = h_mix_hash r"
  by (simp_all add: block_header.truncate_def)

lemma next_block_parts:
  assumes "next_block H payload = Some h"
  shows "h_parent_hash h = H (pl_base payload)" and "h_timestamp h = pl_timestamp payload" and "h_miner h = pl_coinbase payload"
    and "h_mix_hash h = pl_random payload" and "h_gas_limit h = calc_gas_limit (h_gas_limit (pl_base payload)) (pl_gas_limit payload)"
  using assms by (auto simp: next_block_def Let_def bind_eq_Some_conv)

lemma build_next_block: "build B ck state txpool payload = Some (Ok res, txpool') \<Longrightarrow> \<exists>h. next_block (bb_header_hash B) payload = Some h"
  by (auto simp: build_def prepare_work_def split: option.splits)

text \<open>A parent gas limit of 33000 leaves room for the tips transaction.\<close>

lemma gas_limit_room:
  assumes "33000 \<le> parent" and "unat parent + unat parent div 1024 < 2 ^ 64"
  shows "32000 \<le> calc_gas_limit parent desired"
proof -
  have p: "33000 \<le> unat parent" using assms(1) by (simp add: word_le_nat_alt)
  then have "1024 \<le> parent" by (simp add: word_le_nat_alt)
  note calc_gas_limit_unat [OF this assms(2), of desired]
  then have "32000 \<le> unat (calc_gas_limit parent desired)"
    using p by (auto simp: Let_def min_def max_def split: if_splits)
  then show ?thesis by (simp add: word_le_nat_alt)
qed

text \<open>The way through a round that sends a request.\<close>

lemma round_sends:
  assumes "build_single_round sv inp round head st = Some (Ok (cont, sends), head', st')" and "req \<in> set sends"
  obtains vd deadline limit left blk txpool where
    "get_validator_for_slot (sv_relay sv) (bh_slot head + 1) = Inr vd" and "refresh (ri_channels inp) head = Some head'"
    and "tm_sub (sv_time sv) (slot_time (sv_time sv) (sv_beacon_slot sv) (bh_slot head' + 1)) (sv_submit_time sv) = Some deadline"
    and "tm_less (sv_time sv) (ri_now inp) deadline"
    and "tm_saturating_since (sv_time sv) deadline (tm_from_secs (sv_time sv) (h_timestamp (bh_block head'))) \<le> duration_from_secs 60"
    and "build (sv_builder sv) (ri_alive inp deadline) (ri_state inp) (st_txpool st) (round_payload sv round head' vd) = Some (Ok blk, txpool)"
    and "tm_add (sv_time sv) deadline (sv_submit_time sv) = Some limit" and "tm_less (sv_time sv) (ri_built inp) limit"
    and "tm_since (sv_time sv) limit (ri_built inp) = Some left" and "left \<le> duration_from_secs 3"
    and "relay_submit_block (sv_bls sv) (sv_blocks sv) (sv_relay sv) (bk_slot blk) vd (bk_block blk) (bk_profit blk) = Some sends"
proof -
  obtain vd where vd: "get_validator_for_slot (sv_relay sv) (bh_slot head + 1) = Inr vd"
    using assms by (auto simp: build_single_round_def split: sum.splits)
  moreover obtain h where h: "refresh (ri_channels inp) head = Some h"
    using assms vd by (auto simp: build_single_round_def split: option.splits)
  moreover obtain deadline where d: "tm_sub (sv_time sv) (slot_time (sv_time sv) (sv_beacon_slot sv) (bh_slot h + 1)) (sv_submit_time sv) = Some deadline"
    using assms vd h by (auto simp: build_single_round_def Let_def split: option.splits)
  moreover have now: "tm_less (sv_time sv) (ri_now inp) deadline"
    "tm_saturating_since (sv_time sv) deadline (tm_from_secs (sv_time sv) (h_timestamp (bh_block h))) \<le> duration_from_secs 60"
    using assms vd h d by (auto simp: build_single_round_def Let_def not_less split: if_splits)
  moreover obtain r txpool where b: "build (sv_builder sv) (ri_alive inp deadline) (ri_state inp) (st_txpool st) (round_payload sv round h vd) = Some (r, txpool)"
    using assms vd h d now by (auto simp: build_single_round_def Let_def)
  moreover obtain blk where r: "r = Ok blk"
    using assms vd h d now b by (cases r) (auto simp: build_single_round_def round_end_def Let_def)
  moreover have s: "submit_built sv inp vd deadline blk h (st\<lparr>st_current_alive := Some (deadline, False), st_txpool := txpool\<rparr>) = (Ok (cont, sends), head', st')"
    using assms vd h d now b r by (auto simp: build_single_round_def round_end_def Let_def)
  moreover obtain limit where l: "tm_add (sv_time sv) deadline (sv_submit_time sv) = Some limit"
    "available_for_submit (sv_time sv) limit (ri_built inp) = Some True" and h': "h = head'"
    using s assms(2) by (auto simp: submit_built_def bind_eq_Some_conv split: option.splits bool.splits)
  moreover obtain left where "tm_less (sv_time sv) (ri_built inp) limit" "tm_since (sv_time sv) limit (ri_built inp) = Some left" "left \<le> duration_from_secs 3"
    using l(2) by (auto simp: available_for_submit_def split: if_splits)
  moreover have "relay_submit_block (sv_bls sv) (sv_blocks sv) (sv_relay sv) (bk_slot blk) vd (bk_block blk) (bk_profit blk) = Some sends"
    using s l by (auto simp: submit_built_def split: option.splits)
  ultimately show thesis using that by blast
qed

text \<open>The header of the block that a round submits is that of its payload.\<close>

lemma built_header:
  assumes B: "gas_lawful B" "block_kept B"
    and limit: "33000 \<le> h_gas_limit (pl_base payload)" "unat (h_gas_limit (pl_base payload)) + unat (h_gas_limit (pl_base payload)) div 1024 < 2 ^ 64"
    and run: "build B ck state txpool payload = Some (Ok blk, txpool')"
  shows "h_parent_hash (rb_header (bk_block blk)) = bb_header_hash B (pl_base payload)"
    and "h_timestamp (rb_header (bk_block blk)) = pl_timestamp payload" and "h_miner (rb_header (bk_block blk)) = pl_coinbase payload"
    and "h_mix_hash (rb_header (bk_block blk)) = pl_random payload" and "rb_withdrawals (bk_block blk) = Some (pl_withdrawals payload)"
    and "h_gas_used (rb_header (bk_block blk)) \<le> h_gas_limit (rb_header (bk_block blk))" and "bk_slot blk = pl_slot payload"
proof -
  obtain h where h: "next_block (bb_header_hash B) payload = Some h" using build_next_block [OF run] by blast
  note parts = next_block_parts [OF h]
  have "32000 \<le> h_gas_limit h" using gas_limit_room [OF limit] by (simp add: parts)
  from build_block_form [OF B(1) h this run] obtain txs used root where
    blk: "bk_block blk = bb_block_new B (h\<lparr>h_gas_used := used, h_state_root := root\<rparr>) txs (bk_receipts blk) (pl_withdrawals payload)"
    and used: "used \<le> h_gas_limit h" and slot: "bk_slot blk = pl_slot payload" by blast
  have t: "block_header.truncate (rb_header (bk_block blk)) = h\<lparr>h_gas_used := used, h_state_root := root\<rparr>"
    and w: "rb_withdrawals (bk_block blk) = Some (pl_withdrawals payload)"
    using B(2) unfolding blk block_kept_def by blast+
  have "f (block_header.truncate (rb_header (bk_block blk))) = f (h\<lparr>h_gas_used := used, h_state_root := root\<rparr>)" for f :: "block_header \<Rightarrow> 'z"
    by (simp only: t)
  from this [of h_parent_hash] this [of h_timestamp] this [of h_miner] this [of h_mix_hash] this [of h_gas_limit] this [of h_gas_used]
  show "h_parent_hash (rb_header (bk_block blk)) = bb_header_hash B (pl_base payload)"
    "h_timestamp (rb_header (bk_block blk)) = pl_timestamp payload" "h_miner (rb_header (bk_block blk)) = pl_coinbase payload"
    "h_mix_hash (rb_header (bk_block blk)) = pl_random payload" "rb_withdrawals (bk_block blk) = Some (pl_withdrawals payload)"
    "h_gas_used (rb_header (bk_block blk)) \<le> h_gas_limit (rb_header (bk_block blk))" "bk_slot blk = pl_slot payload"
    using used w slot by (simp_all add: parts)
qed

lemma round_head:
  assumes "beacon_reach S R W heads c" and "head \<in> heads" and "refresh c head = Some head'"
  shows "bh_slot head' = bh_slot head" and "(bh_slot head, head_randao head') \<in> R \<or> head_randao head' = h_mix_hash (bh_block head')"
    and "(bh_slot head, head_withdrawal head') \<in> W \<or> head_withdrawal head' = []"
proof -
  note ok = beacon_reach_ok [OF assms(1)]
  have "head_ok S R W head" using ok assms(2) by blast
  note r = refresh_ok [OF this _ _ assms(3)]
  show slot: "bh_slot head' = bh_slot head" using ok by (intro r(2)) auto
  have "head_ok S R W head'" using ok by (intro r(1)) auto
  then show "(bh_slot head, head_randao head') \<in> R \<or> head_randao head' = h_mix_hash (bh_block head')"
    "(bh_slot head, head_withdrawal head') \<in> W \<or> head_withdrawal head' = []"
    by (auto simp: head_ok_def head_randao_def head_withdrawal_def slot split: option.splits)
qed

lemma round_window:
  assumes T: "lawful_time (sv_time sv) nanos"
    and run: "build_single_round sv inp round head st = Some (Ok (cont, sends), head', st')" and sent: "req \<in> set sends"
    and slot: "bh_slot head' = bh_slot head"
  shows "let start = duration_from_secs (slot_secs (sv_beacon_slot sv) (bh_slot head + 1)) in
      nanos (ri_now inp) + sv_submit_time sv < start \<and> nanos (ri_built inp) < start \<and> start \<le> nanos (ri_built inp) + duration_from_secs 3 \<and>
      start \<le> duration_from_secs (h_timestamp (bh_block head')) + duration_from_secs 60 + sv_submit_time sv"
  using run sent
proof (cases rule: round_sends)
  case (1 vd deadline limit left blk txpool)
  let ?T = "sv_time sv" and ?start = "duration_from_secs (slot_secs (sv_beacon_slot sv) (bh_slot head + 1))"
  have d: "nanos deadline + sv_submit_time sv = ?start"
    using lawful_timeD(4) [OF T 1(3)] lawful_timeD(1) [OF T] by (simp add: slot_time_def slot)
  have l: "nanos limit = ?start" using lawful_timeD(3) [OF T 1(7)] d by simp
  have "nanos (ri_now inp) < nanos deadline" "nanos (ri_built inp) < nanos limit"
    using 1(4,8) by (simp_all add: lawful_timeD(2) [OF T] not_le)
  moreover have "nanos limit \<le> nanos (ri_built inp) + duration_from_secs 3" using lawful_timeD(5) [OF T 1(9)] 1(10) by linarith
  moreover have "nanos deadline \<le> duration_from_secs (h_timestamp (bh_block head')) + duration_from_secs 60"
    using 1(5) by (simp add: lawful_timeD(1,6) [OF T])
  ultimately show ?thesis using d l unfolding Let_def by linarith
qed

text \<open>C22: Every request that a round sends is right for the slot after its head: it goes to relays where the slot's validator
  is registered, with the validator's key and fee recipient; the payload builds on the head block, has the time
  of the slot, the builder as coinbase, and the randomness and withdrawals that the beacon node gave for the slot of
  the head (or the head block's randomness and none); the gas is within the limit; building began
  before the deadline, on a block at most a minute before it, and the request is sent in the last three
  seconds before the slot.\<close>

theorem round_submits:
  fixes sv :: "('tx, 's, 'e, 'wtx, 'sk, 't) build_service"
  assumes T: "lawful_time (sv_time sv) nanos" and B: "gas_lawful (sv_builder sv)" "block_kept (sv_builder sv)"
    and reach: "beacon_reach (sv_beacon_slot sv) R W heads (ri_channels inp)" "head \<in> heads"
    and run: "build_single_round sv inp round head st = Some (Ok (cont, sends), head', st')" and sent: "(name, req) \<in> set sends"
    and limit: "33000 \<le> h_gas_limit (bh_block head')" "unat (h_gas_limit (bh_block head')) + unat (h_gas_limit (bh_block head')) div 1024 < 2 ^ 64"
  shows "(\<exists>vd. map_of (rl_validators (sv_relay sv)) (bh_slot head + 1) = Some vd \<and> name \<in> set (vd_name vd) \<and> name \<in> set (rl_senders (sv_relay sv)) \<and>
      bid_proposer_pubkey (sr_message req) = vd_pub_key vd \<and> bid_proposer_fee_recipient (sr_message req) = vd_fee_recipient vd) \<and>
    bid_slot (sr_message req) = bh_slot head + 1 \<and>
    bid_parent_hash (sr_message req) = bb_header_hash (sv_builder sv) (bh_block head') \<and>
    bid_gas_used (sr_message req) \<le> bid_gas_limit (sr_message req) \<and>
    ep_timestamp (sr_execution_payload req) = slot_secs (sv_beacon_slot sv) (bh_slot head + 1) \<and>
    ep_fee_recipient (sr_execution_payload req) = bb_payer (sv_builder sv) \<and>
    ((bh_slot head, ep_prev_randao (sr_execution_payload req)) \<in> R \<or> ep_prev_randao (sr_execution_payload req) = h_mix_hash (bh_block head')) \<and>
    (\<exists>ws. ep_withdrawals (sr_execution_payload req) = map relay_withdrawal_from ws \<and> ((bh_slot head, ws) \<in> W \<or> ws = [])) \<and>
    (let start = duration_from_secs (slot_secs (sv_beacon_slot sv) (bh_slot head + 1)) in
      nanos (ri_now inp) + sv_submit_time sv < start \<and> nanos (ri_built inp) < start \<and> start \<le> nanos (ri_built inp) + duration_from_secs 3 \<and>
      start \<le> duration_from_secs (h_timestamp (bh_block head')) + duration_from_secs 60 + sv_submit_time sv)"
  using run sent
proof (cases rule: round_sends)
  case (1 vd deadline limit left blk txpool)
  note head = round_head [OF reach 1(2)]
  define p where "p = round_payload sv round head' vd"
  have p: "pl_base p = bh_block head'" "pl_slot p = bh_slot head + 1" "pl_timestamp p = slot_secs (sv_beacon_slot sv) (bh_slot head + 1)"
    "pl_coinbase p = bb_payer (sv_builder sv)" "pl_random p = head_randao head'" "pl_withdrawals p = head_withdrawal head'"
    by (simp_all add: p_def round_payload_def Let_def head(1))
  note blk = built_header [OF B, of p, unfolded p(1), OF limit 1(6) [folded p_def], unfolded p]
  have "build_request (sv_bls sv) (sv_blocks sv) (sv_relay sv) (bk_slot blk) vd (bk_profit blk) (bk_block blk) = Some req"
    and name: "name \<in> set (rl_senders (sv_relay sv))" "name \<in> set (vd_name vd)"
    using 1(11) sent by (auto simp: relay_submit_block_def)
  from this(1) obtain payload where payload: "execution_payload_from (sv_blocks sv) (bk_block blk) = Some payload"
    and req: "sr_execution_payload req = payload" "bid_slot (sr_message req) = bk_slot blk" "bid_parent_hash (sr_message req) = ep_parent_hash payload"
      "bid_proposer_pubkey (sr_message req) = vd_pub_key vd" "bid_proposer_fee_recipient (sr_message req) = vd_fee_recipient vd"
      "bid_gas_limit (sr_message req) = ep_gas_limit payload" "bid_gas_used (sr_message req) = ep_gas_used payload"
    by (cases rule: build_request_Some) simp
  note ep = execution_payload_header [OF payload]
  have vd: "map_of (rl_validators (sv_relay sv)) (bh_slot head + 1) = Some vd"
    using 1(1) by (auto simp: get_validator_for_slot_def try_get_def split: option.splits)
  have "\<exists>ws. ep_withdrawals payload = map relay_withdrawal_from ws \<and> ((bh_slot head, ws) \<in> W \<or> ws = [])"
    using ep(9) blk(5) head(3) by auto
  with vd name head(2) round_window [OF T run sent head(1)] show ?thesis by (simp add: req ep blk del: ex_simps)
qed

section \<open>The rounds end\<close>

lemma refresh_slot: "refresh c head = Some head' \<Longrightarrow> bh_slot head' = bh_slot head"
  by (auto simp: refresh_def Let_def split: option.splits if_splits prod.splits)

lemma submit_built_head: "submit_built sv inp vd deadline blk head st = (r, head', st') \<Longrightarrow> head' = head"
  by (auto simp: submit_built_def split: option.splits bool.splits)

lemma round_end_head: "round_end sv inp vd deadline blk head st = (r, head', st') \<Longrightarrow> head' = head"
  by (auto simp: round_end_def split: outcome.splits dest: submit_built_head)

lemma single_round_slot:
  "build_single_round sv inp round head st = Some (r, head', st') \<Longrightarrow> bh_slot head' = bh_slot head"
  by (auto simp: build_single_round_def Let_def split: sum.splits option.splits if_splits dest!: round_end_head dest: refresh_slot)

lemma build_not_None: "build B ck state txpool payload \<noteq> None"
  using build_total [of B ck state txpool payload] by auto

lemma single_round_total: "\<exists>x. build_single_round sv inp round head st = Some x"
proof -
  have "build_single_round sv inp round head st \<noteq> None"
    unfolding build_single_round_def Let_def
    by (simp add: build_not_None split: sum.splits option.splits del: not_None_eq)
  then show ?thesis by blast
qed

text \<open>The loop is in a round of the slot when it runs, and everything it sent it sent in such a round.\<close>

definition in_slot :: "beacon_slot \<Rightarrow> u64 \<Rightarrow> ('s, 't) loop_input \<Rightarrow> bool" where
  "in_slot S slot inp \<longleftrightarrow> li_alive inp \<and> slot_current S (li_now inp) = Some slot"

definition rounds_inv ::
  "beacon_slot \<Rightarrow> u64 \<Rightarrow> (nat \<Rightarrow> ('s, 't) loop_input) \<Rightarrow> ('tx, 't) loop_state \<Rightarrow> bool" where
  "rounds_inv S slot inputs l \<longleftrightarrow> bh_slot (ls_head l) = slot \<and> (\<forall>k<ls_round l. in_slot S slot (inputs k)) \<and>
     (\<forall>(k, _) \<in> set (ls_sent l). k \<le> ls_round l \<and> in_slot S slot (inputs k))"

lemma rounds_step_Inr:
  assumes "rounds_inv (sv_beacon_slot sv) slot inputs l" and "rounds_step sv inputs l = Inr l'"
  shows "rounds_inv (sv_beacon_slot sv) slot inputs l' \<and> in_slot (sv_beacon_slot sv) slot (inputs (ls_round l)) \<and> ls_round l' = Suc (ls_round l)"
proof -
  obtain r head st where b: "build_single_round sv (li_round (inputs (ls_round l))) (ls_round l) (ls_head l) (ls_service l) = Some (r, head, st)"
    using single_round_total by (metis prod_cases3)
  have i: "in_slot (sv_beacon_slot sv) slot (inputs (ls_round l))"
    using assms by (auto simp: rounds_step_def rounds_inv_def in_slot_def Let_def split: if_splits option.splits)
  with assms(1) have slot: "slot_current (sv_beacon_slot sv) (li_now (inputs (ls_round l))) = Some (bh_slot (ls_head l))" "li_alive (inputs (ls_round l))"
    by (simp_all add: in_slot_def rounds_inv_def)
  from assms(2) obtain sends where "l' = l\<lparr>ls_head := head, ls_service := st, ls_sent := ls_sent l @ map (Pair (ls_round l)) sends, ls_round := Suc (ls_round l)\<rparr>"
    by (auto simp: rounds_step_def slot b Let_def split: outcome.splits if_splits)
  with i assms(1) single_round_slot [OF b] show ?thesis
    by (auto simp: rounds_inv_def less_Suc_eq le_Suc_eq)
qed

lemma rounds_step_Inl:
  assumes "rounds_inv (sv_beacon_slot sv) slot inputs l" and "rounds_step sv inputs l = Inl (r, l')"
  shows "rounds_inv (sv_beacon_slot sv) slot inputs l' \<and> ls_round l' = ls_round l"
proof (cases "slot_current (sv_beacon_slot sv) (li_now (inputs (ls_round l))) = Some slot \<and> li_alive (inputs (ls_round l))")
  case False
  then have "l' = l" using assms by (auto simp: rounds_step_def rounds_inv_def Let_def split: if_splits option.splits)
  with assms(1) show ?thesis by simp
next
  case True
  then have slot: "slot_current (sv_beacon_slot sv) (li_now (inputs (ls_round l))) = Some (bh_slot (ls_head l))" "li_alive (inputs (ls_round l))"
    using assms(1) by (simp_all add: rounds_inv_def)
  obtain r' head st where b: "build_single_round sv (li_round (inputs (ls_round l))) (ls_round l) (ls_head l) (ls_service l) = Some (r', head, st)"
    using single_round_total by (metis prod_cases3)
  from assms(2) obtain sends where "l' = l\<lparr>ls_head := head, ls_service := st, ls_sent := ls_sent l @ map (Pair (ls_round l)) sends\<rparr>"
    by (auto simp: rounds_step_def slot b Let_def split: outcome.splits if_splits) (use that [of "[]"] in auto)
  with True assms(1) single_round_slot [OF b] show ?thesis by (auto simp: rounds_inv_def in_slot_def)
qed

text \<open>C23: The rounds of a slot end: when the service is shut down or the clock leaves the slot before some round, the loop
  returns and makes no later round; until then it makes its rounds in order, and every request it sends it
  sends in a round of the slot, while the service is alive.\<close>

theorem rounds_end:
  assumes "\<not> in_slot (sv_beacon_slot sv) (bh_slot head) (inputs n)"
  shows "\<exists>r l. build_multiple_rounds sv inputs head st = Some (r, l) \<and> ls_round l \<le> n \<and> bh_slot (ls_head l) = bh_slot head \<and>
    (\<forall>k<ls_round l. in_slot (sv_beacon_slot sv) (bh_slot head) (inputs k)) \<and>
    (\<forall>(k, _) \<in> set (ls_sent l). k \<le> ls_round l \<and> in_slot (sv_beacon_slot sv) (bh_slot head) (inputs k))"
proof -
  let ?I = "\<lambda>l. rounds_inv (sv_beacon_slot sv) (bh_slot head) inputs l \<and> ls_round l \<le> n"
  let ?l = "\<lparr>ls_round = 0, ls_head = head, ls_service = st, ls_sent = []\<rparr>"
  have keep: "?I l' \<and> n - ls_round l' < n - ls_round l" if "?I l" and s: "rounds_step sv inputs l = Inr l'" for l l'
  proof -
    from that rounds_step_Inr [OF _ s] have i: "rounds_inv (sv_beacon_slot sv) (bh_slot head) inputs l'"
      "in_slot (sv_beacon_slot sv) (bh_slot head) (inputs (ls_round l))" "ls_round l' = Suc (ls_round l)" by blast+
    with assms have "ls_round l \<noteq> n" by metis
    moreover have "ls_round l \<le> n" using that by blast
    ultimately show ?thesis using i by (simp add: diff_less_mono2)
  qed
  have start: "?I ?l" by (simp add: rounds_inv_def)
  then obtain p where run: "iterate (rounds_step sv inputs) ?l = Some p"
    using iterate_ends [where I = ?I and m = "\<lambda>l. n - ls_round l", OF start keep] by blast
  have "?I (snd p)"
  proof (rule iterate_inv [where I = ?I, OF run start])
    show "?I (snd p)" if "?I l" "rounds_step sv inputs l = Inl p" for l p
      using that rounds_step_Inl [of sv "bh_slot head" inputs l "fst p" "snd p"] by simp
  qed (use keep in blast)
  with run show ?thesis by (cases p) (auto simp: build_multiple_rounds_def rounds_inv_def)
qed

section \<open>The pools of the service\<close>

text \<open>A pool that is well formed and holds only what was collected for it.\<close>

definition bundle_ok :: "'tx bundle_api \<Rightarrow> 'tx mempool_item set \<Rightarrow> 'tx bundle_pool_list \<Rightarrow> bool" where
  "bundle_ok Bu items pool \<longleftrightarrow> bundle_pool_run Bu pool \<and> (\<forall>uuid b. bundle_pool_get uuid pool = Some b \<longrightarrow> BundleItem b \<in> items \<and> uuid = b_uuid b)"

definition seq_ok :: "'tx tx_api \<Rightarrow> nat \<Rightarrow> 'tx mempool_item set \<Rightarrow> 'tx seq_pool \<Rightarrow> bool" where
  "seq_ok A mx items pool \<longleftrightarrow> seq_pool_run A mx pool \<and> (\<forall>tx \<in> set (seq_pool_list_by_seq pool). SeqItem tx \<in> items)"

definition price_ok :: "'tx tx_api \<Rightarrow> 'tx mempool_item set \<Rightarrow> 'tx price_pool \<Rightarrow> bool" where
  "price_ok A items pool \<longleftrightarrow> price_pool_run A pool \<and> (\<forall>a n tx. pend pool a n = Some tx \<longrightarrow> PriceItem tx \<in> items)"

lemma bundle_ok_new: "bundle_ok Bu items bundle_pool_new"
  by (simp add: bundle_ok_def bundle_pool_run.new) (simp add: bundle_pool_new_def bundle_pool_get_def)

lemma bundle_ok_add: "bundle_ok Bu items pool \<Longrightarrow> bundle_ok Bu (insert (BundleItem b) items) (snd (bundle_pool_add Bu b dur pool))"
  by (auto simp: bundle_ok_def bundle_pool_run.add bundle_pool_get_def bundle_pool_add_ok(2) [OF bundle_pool_run_inv] split: if_splits)

lemma bundle_ok_set_history: "bundle_ok Bu items pool \<Longrightarrow> bundle_ok Bu items (bundle_pool_set_history Bu now b status pool)"
  using bundle_pool_run_inv [of Bu pool]
  by (simp add: bundle_ok_def bundle_pool_run.set_history)
    (simp add: bundle_pool_set_history_def bundle_pool_get_def update_stat_ok bundle_inv_def)

lemma bundle_ok_list: "bundle_ok Bu items pool \<Longrightarrow> bundle_ok Bu items (snd (bundle_pool_list_bundles Bu n ts pool))"
  using bundle_pool_run_inv [of Bu pool] bundle_pool_run.list [of Bu pool n ts]
  by (auto simp: bundle_ok_def bundle_pool_list_bundles_def bundle_pool_get_def case_prod_beta fold_expire_ok map_of_fold_remove split: if_splits)

lemma set_spec_push: "set (spec_push A mx tx xs) \<subseteq> insert tx (set xs)"
  by (auto simp: spec_push_def trim_front_drop dest: in_set_dropD)

lemma seq_ok_new: "seq_ok A mx items (seq_pool_new mx)"
  using seq_run_view(1) [OF seq_pool_run.new [of A mx]] by (simp add: seq_ok_def seq_pool_run.new) (simp add: seq_pool_new_def seq_view_def seq_list_empty_def)

lemma seq_push_list:
  assumes "seq_pool_run A mx pool"
  shows "seq_pool_list_by_seq (snd (seq_pool_push A now tx pool)) =
    (if seq_pool_contains pool (ptx_hash tx) then seq_pool_list_by_seq pool else spec_push A mx tx (seq_pool_list_by_seq pool))"
proof (cases "seq_pool_contains pool (ptx_hash tx)")
  case True
  then show ?thesis by (simp add: seq_pool_push_def seq_pool_contains_def)
next
  case False
  note view = seq_run_view [OF assms]
  show ?thesis
    using False seq_pool_push_view [OF view(2) False, of now] view(1,3) seq_run_view(1) [OF seq_pool_run.push [OF assms]] by simp
qed

lemma seq_ok_push: "seq_ok A mx items pool \<Longrightarrow> seq_ok A mx (insert (SeqItem tx) items) (snd (seq_pool_push A now tx pool))"
  using set_spec_push [of A mx tx "seq_pool_list_by_seq pool"] by (auto simp: seq_ok_def seq_pool_run.push seq_push_list split: if_splits)

lemma seq_ok_mark_fail: "seq_ok A mx items pool \<Longrightarrow> seq_ok A mx items (seq_pool_mark_fail h reason pool)"
  using seq_pool_removals [of A mx pool] by (simp add: seq_ok_def seq_pool_run.mark_fail)

lemma seq_ok_remove: "seq_ok A mx items pool \<Longrightarrow> seq_ok A mx items (snd (seq_pool_remove h pool))"
  using seq_pool_removals [of A mx pool h] by (auto simp: seq_ok_def seq_pool_run.remove)

lemma price_ok_new: "price_ok A items (price_pool_new limited_size)"
  by (simp add: price_ok_def price_pool_run.new) (simp add: price_pool_new_def pend_def)

lemma price_ok_push:
  assumes "price_ok A items pool" and push: "price_pool_push A tx pool = Some (r, pool')"
  shows "price_ok A (insert (PriceItem tx) items) pool'"
proof -
  have run: "price_pool_run A pool'" using assms by (auto simp: price_ok_def intro: price_pool_run.push)
  show ?thesis
  proof (cases "price_pool_contains pool (ptx_hash tx)")
    case True
    then have "pool' = pool" using push by (simp add: price_pool_push_def price_pool_contains_def)
    then show ?thesis using assms(1) by (auto simp: price_ok_def)
  next
    case False
    note push' = price_pool_push_pend(3) [OF price_pool_run_inv False push]
    show ?thesis using assms(1) run by (auto simp: price_ok_def push' pushed_def Let_def split: if_splits)
  qed
qed

lemma price_ok_remove: "price_ok A items pool \<Longrightarrow> price_ok A items (snd (price_pool_remove A h pool))"
proof (cases "map_of (pp_caches pool) h")
  case None
  then show "price_ok A items pool \<Longrightarrow> ?thesis" by (simp add: price_pool_remove_def)
next
  case (Some tx)
  then show "price_ok A items pool \<Longrightarrow> ?thesis"
    using price_pool_remove_pend(2) [OF price_pool_run_inv Some] by (auto simp: price_ok_def price_pool_run.remove split: if_splits)
qed

text \<open>Listing the pool only drops transactions.\<close>

lemma clean_account_items:
  assumes "clean_account A b limited a d tot l caches rem = (l', caches', tot', rem')"
  shows "set (ul_items l') \<subseteq> set (ul_items l)"
  using assms clean_underprice_spec by (fastforce simp: clean_account_def split: if_splits prod.splits)

lemma price_list_loop_items:
  "price_list_loop A b limit limited pending result caches fltr tot rem = (pending', result', caches', fltr', rem') \<Longrightarrow>
     (a, l') \<in> set pending' \<Longrightarrow> \<exists>l. (a, l) \<in> set pending \<and> set (ul_items l') \<subseteq> set (ul_items l)"
proof (induction pending arbitrary: result caches fltr tot rem pending')
  case (Cons e pending)
  obtain c l where e: "e = (c, l)" by (cases e)
  from Cons.prems(1) [unfolded e] show ?case
  proof (cases rule: price_list_loop_Cons)
    case (stop txs d)
    then show ?thesis using Cons.prems(2) e by auto
  next
    case (go txs d fltr1 l1 caches1 tot1 rem1 pending1)
    then show ?thesis using Cons.IH [OF go(4)] Cons.prems(2) clean_account_items [OF go(3)] e by auto
  qed
qed simp

lemma price_ok_list:
  assumes ok: "price_ok A items pool" and run: "price_pool_list A fltr b limit pool = (result, fltr', pool')"
  shows "price_ok A items pool'"
proof -
  have inv: "price_inv A pool" "price_pool_run A pool" using ok price_pool_run_inv by (auto simp: price_ok_def)
  obtain pending' caches' rem' where
    loop: "price_list_loop A b limit (pp_limited_size pool) (pp_pending pool) [] (pp_caches pool) fltr 0 [] =
      (pending', result, caches', fltr', rem')"
    and p': "pool' = pool\<lparr>pp_pending := fold bt_remove rem' pending', pp_caches := caches'\<rparr>"
    using run by (auto simp: price_pool_list_def split: prod.splits)
  have "PriceItem tx \<in> items" if pend: "pend pool' a n = Some tx" for a n tx
  proof -
    obtain l' where "(a, l') \<in> set pending'" "(n, tx) \<in> set (ul_items l')"
      using pend by (auto simp: pend_def p' map_of_fold_remove split: option.splits if_splits dest!: map_of_SomeD)
    then obtain l where l: "(a, l) \<in> set (pp_pending pool)" "(n, tx) \<in> set (ul_items l)" using price_list_loop_items [OF loop] by blast
    then have "bt_ok (pp_pending pool)" "bt_ok (ul_items l)" using inv(1) by (auto simp: price_inv_def pending_ok_def user_list_ok_def)
    then have "pend pool a n = Some tx" using l by (simp add: pend_def bt_ok_distinct)
    then show ?thesis using ok by (simp add: price_ok_def)
  qed
  then show ?thesis using price_pool_run.list [OF inv(2) run] by (simp add: price_ok_def)
qed


definition pools_run :: "'tx tx_api \<Rightarrow> 'tx bundle_api \<Rightarrow> nat \<Rightarrow> 'tx mempool_item set \<Rightarrow> 'tx tx_pool \<Rightarrow> bool" where
  "pools_run A Bu mx items txpool \<longleftrightarrow> bundle_ok Bu items (tp_bundle_pool txpool) \<and> seq_ok A mx items (tp_seq_pool txpool) \<and>
     price_ok A items (tp_price_pool txpool)"

text \<open>What was collected for one pool does not matter for another, and more may have been collected.\<close>

lemma pools_ok_mono:
  "items \<subseteq> items' \<Longrightarrow> bundle_ok Bu items b \<Longrightarrow> bundle_ok Bu items' b"
  "items \<subseteq> items' \<Longrightarrow> seq_ok A mx items s \<Longrightarrow> seq_ok A mx items' s"
  "items \<subseteq> items' \<Longrightarrow> price_ok A items p \<Longrightarrow> price_ok A items' p"
  by (auto simp: bundle_ok_def seq_ok_def price_ok_def)

lemma collect_item_run:
  assumes "pools_run A Bu mx items txpool" and "collect_item A Bu S show_left now head item txpool = Some txpool'"
  shows "pools_run A Bu mx (insert item items) txpool'"
  using assms by (cases item) (auto simp: collect_item_def pools_run_def Let_def
    intro: pools_ok_mono [OF subset_insertI] bundle_ok_add seq_ok_push price_ok_push)

lemma fill_bundles_run:
  "bundle_ok (bb_bundles B) items pool \<Longrightarrow> fill_bundles B ck pool env = (r, pool') \<Longrightarrow> bundle_ok (bb_bundles B) items pool'"
  using bundle_ok_list [of "bb_bundles B" items pool] by (auto simp: fill_bundles_def Let_def split_beta)

lemma fill_seq_loop_run:
  "seq_ok A mx items pool \<Longrightarrow> fill_seq_loop B ck txs internal pool env = (r, pool') \<Longrightarrow> seq_ok A mx items pool'"
proof (induction txs arbitrary: internal pool env)
  case Nil
  then show ?case by simp
next
  case (Cons tx txs)
  obtain x env1 where c: "commit_transaction B ck tx env = (x, env1)" by force
  show ?case
  proof (cases x)
    case (Ok action)
    then show ?thesis
      using Cons.prems Cons.IH [OF Cons.prems(1)] Cons.IH [OF seq_ok_mark_fail [OF Cons.prems(1)]]
        Cons.IH [OF seq_ok_remove [OF Cons.prems(1)]]
      by (cases action) (auto simp: c Let_def split: option.splits)
  qed (use Cons.prems c in auto)
qed

lemma fill_seq_run: "seq_ok A mx items pool \<Longrightarrow> fill_seq B ck pool env = (r, pool') \<Longrightarrow> seq_ok A mx items pool'"
  by (auto simp: fill_seq_def Let_def split: prod.splits outcome.splits dest: fill_seq_loop_run)

lemma commit_step_price_run:
  assumes "price_ok A items (cm_pool c)"
  shows "case commit_step B ck (price_flow A) limit c of Inr c' \<Rightarrow> price_ok A items (cm_pool c') | Inl p \<Rightarrow> price_ok A items (cm_pool (snd p))"
proof -
  have "price_ok A items (snd (price_pool_remove A h (cm_pool c)))" for h using assms by (rule price_ok_remove)
  moreover have "case commit_apply (price_flow A) tx action (c\<lparr>cm_env := env\<rparr>) of
      Inr c' \<Rightarrow> price_ok A items (cm_pool c') | Inl p \<Rightarrow> price_ok A items (cm_pool (snd p))" for tx action env
    using assms calculation by (cases action) (auto simp: price_flow_def)
  ultimately show ?thesis
    using assms by (auto simp: commit_step_def commit_page_def Let_def split_beta split: option.splits outcome.splits prod.splits)
qed

lemma fill_price_run:
  assumes "price_ok (bb_api B) items pool" and "fill_price B ck pool env = Some (r, pool')"
  shows "price_ok (bb_api B) items pool'"
proof -
  let ?A = "bb_api B" and ?I = "\<lambda>c. price_ok (bb_api B) items (cm_pool c)"
  obtain l env1 pool1 where f: "fl_fetch (price_flow ?A) env pool = (l, env1, pool1)" by (metis prod_cases3)
  then have start: "price_ok ?A items pool1"
    using assms(1) by (auto simp: price_flow_def Let_def split: prod.splits intro: price_ok_list)
  obtain p where run: "iterate (commit_step B ck (price_flow ?A) 20)
      \<lparr>cm_page = None, cm_stat = \<lparr>cs_removed = 0, cs_total = 0, cs_failed = 0\<rparr>, cm_list = l, cm_pool = pool1, cm_env = env1\<rparr> = Some p"
    and pool': "pool' = cm_pool (snd p)"
    using assms(2) f by (auto simp: fill_price_def commit_pool_def)
  have "?I (snd p)"
  proof (rule iterate_inv [where I = ?I, OF run])
    show "?I y" if "?I x" "commit_step B ck (price_flow ?A) 20 x = Inr y" for x y
      using commit_step_price_run [OF that(1), of B ck 20] that(2) by simp
    show "?I (snd q)" if "?I x" "commit_step B ck (price_flow ?A) 20 x = Inl q" for x q
      using commit_step_price_run [OF that(1), of B ck 20] that(2) by simp
  qed (use start in simp)
  then show ?thesis by (simp add: pool')
qed

lemma fill_transactions_run:
  assumes "pools_run (bb_api B) (bb_bundles B) mx items txpool" and "fill_transactions B ck txpool env = Some (r, txpool')"
  shows "pools_run (bb_api B) (bb_bundles B) mx items txpool'"
proof -
  obtain x env1 where s: "fill_start B env = (x, env1)" by force
  obtain y env2 p1 where b: "fill_bundles B ck (tp_bundle_pool txpool) env1 = ((y, env2), p1)" by (metis prod.collapse)
  obtain z env3 p2 where q: "fill_seq B ck (tp_seq_pool txpool) env2 = ((z, env3), p2)" by (metis prod.collapse)
  have "bundle_ok (bb_bundles B) items p1" "seq_ok (bb_api B) mx items p2"
    using assms(1) fill_bundles_run [OF _ b] fill_seq_run [OF _ q] by (auto simp: pools_run_def)
  then show ?thesis
    using assms fill_price_run [of B items "tp_price_pool txpool" ck env3]
    by (cases x; cases y; cases z) (auto simp: fill_transactions_def s b q pools_run_def)
qed

lemma build_run:
  "pools_run (bb_api B) (bb_bundles B) mx items txpool \<Longrightarrow> build B ck state txpool payload = Some (r, txpool') \<Longrightarrow>
     pools_run (bb_api B) (bb_bundles B) mx items txpool'"
  by (auto simp: build_def split: option.splits dest: fill_transactions_run)

lemma set_histories_run: "bundle_ok Bu items pool \<Longrightarrow> bundle_ok Bu items (set_histories Bu now results pool)"
  unfolding set_histories_def by (induction results arbitrary: pool) (auto intro: bundle_ok_set_history)

abbreviation service_ok :: "('tx, 's, 'e, 'wtx, 'sk, 't) build_service \<Rightarrow> nat \<Rightarrow> 'tx mempool_item set \<Rightarrow> ('tx, 't) service_state \<Rightarrow> bool" where
  "service_ok sv mx items st \<equiv> pools_run (bb_api (sv_builder sv)) (bb_bundles (sv_builder sv)) mx items (st_txpool st)"

lemma submit_built_run:
  "service_ok sv mx items st \<Longrightarrow> submit_built sv inp vd deadline blk head st = (r, head', st') \<Longrightarrow> service_ok sv mx items st'"
  by (auto simp: submit_built_def pools_run_def set_histories_run split: option.splits bool.splits)

lemma round_end_run:
  "service_ok sv mx items st \<Longrightarrow> round_end sv inp vd deadline blk head st = (r, head', st') \<Longrightarrow> service_ok sv mx items st'"
  by (auto simp: round_end_def split: outcome.splits intro: submit_built_run)

lemma single_round_run:
  assumes "service_ok sv mx items st" and "build_single_round sv inp round head st = Some (r, head', st')"
  shows "service_ok sv mx items st'"
  using assms by (auto simp: build_single_round_def Let_def split: sum.splits option.splits if_splits
    dest: build_run elim!: round_end_run [rotated])

text \<open>The pools while the thread \<open>collect-tx\<close> and the rounds of any number of slots work on them; \<open>items\<close> are the items
  collected so far.\<close>

inductive service_reach ::
  "('tx, 's, 'e, 'wtx, 'sk, 't) build_service \<Rightarrow> nat \<Rightarrow> 'tx mempool_item set \<Rightarrow> ('tx, 't) service_state \<Rightarrow> bool"
  for sv mx where
  start: "service_reach sv mx {} \<lparr>st_txpool = tx_pool_new mx, st_current_alive = None\<rparr>"
| collect: "service_reach sv mx items st \<Longrightarrow>
    collect_item (bb_api (sv_builder sv)) (bb_bundles (sv_builder sv)) S show_left now head item (st_txpool st) = Some txpool \<Longrightarrow>
    service_reach sv mx (insert item items) (st\<lparr>st_txpool := txpool\<rparr>)"
| round: "service_reach sv mx items st \<Longrightarrow> build_single_round (sv\<lparr>sv_relay := relay\<rparr>) inp n head st = Some (r, head', st') \<Longrightarrow>
    service_reach sv mx items st'"
| rebuild: "service_reach sv mx items st \<Longrightarrow> service_reach sv mx items (rebuild st)"

lemma service_reach_ok: "service_reach sv mx items st \<Longrightarrow> service_ok sv mx items st"
proof (induction rule: service_reach.induct)
  case start
  then show ?case by (simp add: tx_pool_new_def pools_run_def bundle_ok_new seq_ok_new price_ok_new)
next
  case (collect items st S show_left now head item txpool)
  then show ?case using collect_item_run by auto
next
  case (round items st relay inp n head r head' st')
  then show ?case using single_round_run [of "sv\<lparr>sv_relay := relay\<rparr>" mx items st inp n head r head' st'] by simp
next
  case (rebuild items st)
  then show ?case by (simp add: rebuild_def)
qed

text \<open>What collecting an item does to the pools: it goes to the pool of its kind and to no other.\<close>

definition collected :: "'tx tx_api \<Rightarrow> nat \<Rightarrow> 'tx mempool_item \<Rightarrow> 'tx tx_pool \<Rightarrow> 'tx tx_pool \<Rightarrow> bool" where
  "collected A mx item txpool txpool' \<longleftrightarrow>
     (case item of
        BundleItem b \<Rightarrow> bundle_pool_get (b_uuid b) (tp_bundle_pool txpool') = Some b \<and>
          tp_seq_pool txpool' = tp_seq_pool txpool \<and> tp_price_pool txpool' = tp_price_pool txpool
      | SeqItem tx \<Rightarrow> seq_pool_list_by_seq (tp_seq_pool txpool') =
            (if seq_pool_contains (tp_seq_pool txpool) (ptx_hash tx) then seq_pool_list_by_seq (tp_seq_pool txpool)
             else spec_push A mx tx (seq_pool_list_by_seq (tp_seq_pool txpool))) \<and>
          tp_bundle_pool txpool' = tp_bundle_pool txpool \<and> tp_price_pool txpool' = tp_price_pool txpool
      | PriceItem tx \<Rightarrow> price_pool_contains (tp_price_pool txpool') (ptx_hash tx) \<and>
          tp_bundle_pool txpool' = tp_bundle_pool txpool \<and> tp_seq_pool txpool' = tp_seq_pool txpool)"

lemma collect_item_effect:
  assumes "pools_run A Bu mx items txpool"
  shows "\<exists>txpool'. collect_item A Bu S show_left now head item txpool = Some txpool' \<and> collected A mx item txpool txpool'"
proof (cases item)
  case (SeqItem tx)
  then show ?thesis using assms by (simp add: collect_item_def collected_def pools_run_def seq_ok_def seq_push_list)
next
  case (PriceItem tx)
  obtain r pool where push: "price_pool_push A tx (tp_price_pool txpool) = Some (r, pool)" using price_pool_push_total by blast
  have "price_pool_contains pool (ptx_hash tx)"
  proof (cases "price_pool_contains (tp_price_pool txpool) (ptx_hash tx)")
    case True
    then show ?thesis using push by (simp add: price_pool_push_def price_pool_contains_def)
  next
    case False
    then show ?thesis using price_pool_push_pend(2) [OF price_pool_run_inv False push] assms by (auto simp: pools_run_def price_ok_def)
  qed
  with push PriceItem show ?thesis by (simp add: collect_item_def collected_def)
next
  case (BundleItem b)
  then show ?thesis using assms bundle_pool_run_inv [of Bu "tp_bundle_pool txpool"]
    by (simp add: collect_item_def collected_def Let_def pools_run_def bundle_ok_def bundle_pool_get_def bundle_pool_add_ok(2))
qed

text \<open>C24: In every state the service can reach by collecting items and by building and submitting blocks, each pool holds only what was
  collected for it: the bundles, under their identifiers, are bundles collected, the listed sequential transactions were collected as
  such and the pending public transactions as such; the invariants of the three pools hold, the sequential pool
  stays within its bound and the bundle history within 100 entries.  Collecting another item never panics and puts
  it into the pool of its kind, leaving the other two alone.\<close>

theorem service_pools_collected:
  assumes "service_reach sv mx items st"
  defines "txpool \<equiv> st_txpool st" and "A \<equiv> bb_api (sv_builder sv)" and "Bu \<equiv> bb_bundles (sv_builder sv)"
  shows "(\<forall>uuid b. bundle_pool_get uuid (tp_bundle_pool txpool) = Some b \<longrightarrow> BundleItem b \<in> items \<and> uuid = b_uuid b) \<and>
    (\<forall>tx \<in> set (seq_pool_list_by_seq (tp_seq_pool txpool)). SeqItem tx \<in> items) \<and>
    (\<forall>a n tx. pend (tp_price_pool txpool) a n = Some tx \<longrightarrow> PriceItem tx \<in> items) \<and>
    bundle_inv (tp_bundle_pool txpool) \<and> pool_inv A (tp_seq_pool txpool) \<and> price_inv A (tp_price_pool txpool) \<and>
    seq_list_len (sp_list (tp_seq_pool txpool)) \<le> mx \<and> length (bl_history (tp_bundle_pool txpool)) \<le> 100 \<and>
    (\<exists>txpool'. collect_item A Bu S show_left now head item txpool = Some txpool' \<and> collected A mx item txpool txpool')"
proof -
  have ok: "pools_run A Bu mx items txpool" unfolding A_def Bu_def txpool_def by (rule service_reach_ok [OF assms(1)])
  then have "bundle_inv (tp_bundle_pool txpool)" "price_inv A (tp_price_pool txpool)" "pool_inv A (tp_seq_pool txpool)"
    "sp_max (tp_seq_pool txpool) = mx"
    by (auto simp: pools_run_def bundle_ok_def seq_ok_def price_ok_def dest: bundle_pool_run_inv price_pool_run_inv seq_pool_run_inv)
  moreover from this have "length (bl_history (tp_bundle_pool txpool)) \<le> 100" "seq_list_len (sp_list (tp_seq_pool txpool)) \<le> mx"
    by (auto simp: bundle_inv_def history_ok_def pool_inv_def)
  ultimately show ?thesis using ok collect_item_effect [OF ok] by (simp add: pools_run_def bundle_ok_def seq_ok_def price_ok_def)
qed

end
