(* ===== verification/Block_Demo.thy ===== *)
theory Block_Demo
  imports Block_Payments
begin

text \<open>
  A block built with a concrete database, EVM and pools, step by step: the hypotheses of the properties
  of the builder hold there.  \<open>demo_run\<close> collects the equations that evaluate one step.
\<close>

section \<open>A concrete builder\<close>

type_synonym demo_block = "block_header \<times> demo_tx list \<times> receipt list \<times> withdrawal list"

definition demo_tips_tx :: "u64 \<Rightarrow> u256 \<Rightarrow> u64 \<Rightarrow> h160 \<Rightarrow> u256 \<Rightarrow> demo_tx pool_tx" where
  "demo_tips_tx n p g r v =
     \<lparr>ptx_caller = 9,
      ptx_tx = \<lparr>d_hash = 99, d_nonce = n, d_gas = g, d_value = v, d_fee_cap = p, d_tip_cap = p, d_sender = 9\<rparr>,
      ptx_access_list = [], ptx_hash = 99, ptx_gas = g, ptx_allow_revert = False, ptx_block = 0, ptx_result = ''''\<rparr>"

definition demo_builder :: "(demo_tx, demo_state, string, demo_block) builder" where
  "demo_builder =
     \<lparr>bb_api = demo_api, bb_db = demo_db, bb_transact = demo_evm, bb_bundles = demo_bundle_api,
      bb_succ = (\<lambda>r. r_status r = 1), bb_payer = 9, bb_tips_strategy = demo_strategy, bb_precompiles = [1, 2],
      bb_tips_tx = demo_tips_tx, bb_show_error = (\<lambda>_. ''error''), bb_show_action = (\<lambda>_. ''action''),
      bb_gwei = 1000000000, bb_header_hash = (\<lambda>_. 77),
      bb_block_new = (\<lambda>h txs rs ws. (h, txs, rs, ws)), bb_block_header = fst\<rparr>"

definition demo_clock :: clock where
  "demo_clock = \<lparr>ck_alive = (\<lambda>_. True), ck_now = (\<lambda>n. 100 + n)\<rparr>"

definition demo_first :: "demo_tx pool_tx" where
  "demo_first = demo_ptx 7 0 11 5000 3000"

definition demo_gap :: "demo_tx pool_tx" where
  "demo_gap = demo_ptx 7 5 22 5000 3000"

definition demo_price :: "demo_tx price_pool" where
  "demo_price = snd (the (price_pool_push demo_api demo_first (price_pool_new 100)))"

definition demo_pools :: "demo_tx tx_pool" where
  "demo_pools = (tx_pool_new 100)\<lparr>tp_price_pool := demo_price\<rparr>"

definition demo_job :: build_payload where
  "demo_job = demo_payload\<lparr>pl_withdrawals := [\<lparr>w_index = 0, w_validator_index = 4, w_address = 8, w_amount = 5\<rparr>]\<rparr>"

definition demo_next :: block_header where
  "demo_next =
     \<lparr>h_parent_hash = 77, h_number = 101, h_gas_limit = 30029295, h_gas_used = 0, h_timestamp = 24, h_miner = 6,
      h_mix_hash = 3, h_extra_data = [1], h_base_fee_per_gas = 1125, h_difficulty = 0, h_state_root = 0\<rparr>"

definition demo_state1 :: demo_state where
  "demo_state1 = demo_state_of [(7, 1000000000000), (8, 1000000000000), (9, 1000000000000)]"

definition demo_state2 :: demo_state where
  "demo_state2 = demo_state1\<lparr>
     ds_bal := [(1, 1), (6, 63000000), (7, 999913374999), (8, 1000000000000), (9, 1000000000000)], ds_non := [(1, 0), (7, 1)]\<rparr>"

definition demo_receipt :: receipt where
  "demo_receipt =
     \<lparr>r_status = 1, r_transaction_hash = 11, r_transaction_index = 0, r_gas_used = 21000,
      r_cumulative_gas_used = 21000, r_logs = []\<rparr>"

text \<open>The environment before and after the first transaction.\<close>

definition demo_env :: "h160 option \<Rightarrow> nat \<Rightarrow> (demo_tx, demo_state) environment" where
  "demo_env r t =
     \<lparr>env_state = demo_state1, env_miner_balance = 0, env_header = demo_next, env_txs = [], env_receipts = [],
      env_gas_pool = 29997295, env_checked_txs = [], env_tips_recipient = r, env_round = 0, env_tick = t\<rparr>"

definition demo_env1 :: "h160 option \<Rightarrow> nat \<Rightarrow> (demo_tx, demo_state) environment" where
  "demo_env1 r t =
     \<lparr>env_state = demo_state2, env_miner_balance = 0, env_header = demo_next\<lparr>h_gas_used := 21000\<rparr>,
      env_txs = [ptx_tx demo_first], env_receipts = [demo_receipt],
      env_gas_pool = 29976295, env_checked_txs = [(11, True)], env_tips_recipient = r, env_round = 0, env_tick = t\<rparr>"

named_theorems demo_run \<open>the equations that evaluate one step of the concrete builder\<close>

lemmas [demo_run] = Let_def and_then_def or_panic_def env_db_def try_state_def is_alive_def use_gas_def
  demo_builder_def demo_clock_def demo_db_def demo_set_def demo_bal_def demo_non_def lookup0_def
  demo_env_def demo_env1_def demo_next_def demo_state1_def demo_state2_def demo_state_of_def bt_insert_def
  chk_add_def chk_mul_def chk_sub_def chk_div_def sat_sub_def demo_receipt_def

lemmas demo_exec = demo_run commit_transaction_def executor_apply_def executor_run_def executor_new_def check_nonce_def
  buy_gas_def refund_gas_def run_evm_def run_finish_def execute_logs_def commit_success_def commit_failure_def
  on_db_def on_db_unwrap_def demo_api_def demo_ptx_def demo_evm_def demo_first_def demo_gap_def

section \<open>The parts keep their promises\<close>

definition demo_known :: "demo_state \<Rightarrow> h256 \<Rightarrow> ((h160 \<Rightarrow> u256) \<times> (h160 \<Rightarrow> u64)) option" where
  "demo_known s r = map_option (\<lambda>(b, n). (lookup0 b, lookup0 n)) (map_of (ds_snaps s) r)"

lemma demo_gas_lawful: "gas_lawful demo_builder"
  by (simp add: gas_lawful_def demo_builder_def demo_api_def evm_gas_ok_def demo_evm_def Let_def)

lemma demo_snapshots: "db_snapshots demo_db demo_bal demo_non demo_known"
  unfolding db_snapshots_def db_keeps_def demo_db_def demo_set_def demo_bal_def demo_non_def demo_known_def
  by (auto simp: fun_eq_iff split: option.splits)

lemma demo_evm_keeps: "evm_keeps demo_evm obs"
  by (simp add: evm_keeps_def demo_evm_def Let_def)

lemma demo_clean: "clean_state demo_db demo_bal demo_non demo_known demo_state1"
  by (simp add: clean_state_def demo_known_def demo_db_def demo_state1_def demo_state_of_def demo_bal_def demo_non_def)

lemma demo_env_ok: "env_ok demo_builder 29997295 demo_next (demo_env r t)"
  by (simp add: env_ok_def env_inv_def receipts_ok_def demo_env_def demo_next_def)

lemma demo_env1_ok: "env_ok demo_builder 29997295 demo_next (demo_env1 r t)"
  by (simp add: env_ok_def env_inv_def receipts_ok_def demo_env1_def demo_next_def demo_receipt_def gas_sum_def
    demo_builder_def demo_api_def demo_first_def demo_ptx_def)

lemma demo_header_fields [simp]:
  "h_number (env_header (demo_env r t)) = 101" "h_timestamp (env_header (demo_env r t)) = 24"
  by (simp_all add: demo_env_def demo_next_def)

lemma demo_price_run: "price_pool_run demo_api demo_price"
  unfolding demo_price_def by (intro price_pool_run_push price_pool_run.new)

section \<open>One transaction\<close>

lemma demo_commit:
  "commit_transaction demo_builder demo_clock demo_first (demo_env r t) = (Ok (Success demo_receipt), demo_env1 r (Suc t))"
  by (simp add: demo_exec)

lemma demo_commit_gap:
  "commit_transaction demo_builder demo_clock demo_gap (demo_env1 r t) =
     (Ok (MarkFail ''error''), (demo_env1 r t)\<lparr>env_checked_txs := [(11, True), (22, False)], env_tick := Suc t\<rparr>)"
  by (simp add: demo_exec)

lemma demo_balance [simp]:
  "on_state (sdb_get_balance (bb_db demo_builder) a) env = (Ok (demo_bal (env_state env) a), env)"
  by (simp add: try_state_def env_db_def demo_builder_def demo_db_def)

lemma demo_prefetch [simp]: "on_state (sdb_prefetch (bb_db demo_builder) al) env = (Ok (), env)"
  by (simp add: try_state_def env_db_def demo_builder_def demo_db_def)

lemma demo_checked [simp]: "(demo_env1 r t)\<lparr>env_checked_txs := bt_insert 11 True (env_checked_txs (demo_env1 r t))\<rparr> = demo_env1 r t"
  by (simp add: demo_env1_def bt_insert_def)

lemma demo_tick [simp]:
  "env_tick (demo_env r t) = t" "(demo_env r t)\<lparr>env_tick := u\<rparr> = demo_env r u"
  "env_tick (demo_env1 r t) = t" "(demo_env1 r t)\<lparr>env_tick := u\<rparr> = demo_env1 r u"
  by (simp_all add: demo_env_def demo_env1_def)

section \<open>Bundles\<close>

lemma demo_commit_bundle:
  "commit_bundle demo_builder demo_clock root start (demo_first # rest) (demo_env r t) =
     commit_bundle demo_builder demo_clock root start rest (demo_env1 r (Suc t))"
proof -
  have "bb_succ demo_builder demo_receipt" "ptx_hash demo_first = 11" by (simp_all add: demo_builder_def demo_receipt_def demo_first_def demo_ptx_def)
  then show ?thesis by (simp add: and_then_def demo_commit Let_def)
qed

theorem bundle_reverted_noop_witness:
  "\<exists>env'. commit_bundle demo_builder demo_clock 0 0 [demo_first, demo_gap] (demo_env None 0) = (Ok (BundleReverted False 22), env') \<and>
     env_txs env' = [] \<and> env_gas_pool env' = 29997295 \<and> demo_bal (env_state env') 7 = 1000000000000"
proof -
  have db: "bb_db demo_builder = demo_db" "bb_transact demo_builder = demo_evm" by (simp_all add: demo_builder_def)
  have start: "sdb_state_root (bb_db demo_builder) (env_state (demo_env None 0)) = 0" "length (env_txs (demo_env None 0)) = 0"
    by (simp_all add: demo_run)
  have "ptx_hash demo_gap = 22" by (simp add: demo_gap_def demo_ptx_def)
  let ?env = "(demo_env1 None 1)\<lparr>env_checked_txs := [(11, True), (22, False)], env_tick := 2\<rparr>"
  have eq: "commit_bundle demo_builder demo_clock 0 0 [demo_first, demo_gap] (demo_env None 0) = revert_bundle demo_builder 0 0 False 22 ?env"
    unfolding demo_commit_bundle using \<open>ptx_hash demo_gap = 22\<close> by (simp add: and_then_def demo_commit_gap eval_nat_numeral)
  have ok: "env_ok demo_builder 29997295 demo_next ?env" by (simp add: demo_env1_ok)
  have g: "(29997295 :: nat) < 2 ^ 64" and le0: "0 \<le> length (env_txs ?env)" by simp_all
  obtain env' where "revert_bundle demo_builder 0 0 False 22 ?env = (Ok (BundleReverted False 22), env')"
    by (rule revert_bundle_ok [OF ok g le0, of 0 False 22]) (rule that)
  then have run: "commit_bundle demo_builder demo_clock 0 0 [demo_first, demo_gap] (demo_env None 0) = (Ok (BundleReverted False 22), env')"
    by (simp only: eq)
  have clean: "clean_state (bb_db demo_builder) demo_bal demo_non demo_known (env_state (demo_env None 0))"
    using demo_clean by (simp add: db demo_env_def)
  have run0: "commit_bundle demo_builder demo_clock (sdb_state_root (bb_db demo_builder) (env_state (demo_env None 0)))
      (length (env_txs (demo_env None 0))) [demo_first, demo_gap] (demo_env None 0) = (Ok (BundleReverted False 22), env')"
    using run by (simp only: start)
  note noop = bundle_reverted_noop [OF demo_gas_lawful g demo_snapshots [folded db] demo_evm_keeps [folded db] demo_env_ok clean run0]
  have "env_txs env' = [] \<and> env_gas_pool env' = 29997295 \<and> demo_bal (env_state env') 7 = 1000000000000"
    using noop by (simp add: demo_env_def demo_bal_def lookup0_def demo_state1_def demo_state_of_def)
  with run show ?thesis by blast
qed

definition demo_flash :: "demo_tx eth_bundle" where
  "demo_flash = (demo_bundle ''a'' 101 None)\<lparr>b_txs := [demo_first]\<rparr>"

definition demo_flashes :: "demo_tx bundle_pool_list" where
  "demo_flashes = snd (bundle_pool_add demo_bundle_api demo_flash ''1s'' bundle_pool_new)"

lemma demo_list: "fst (bundle_pool_list_bundles (bb_bundles demo_builder) 101 24 demo_flashes) = [demo_flash]"
  unfolding demo_builder_def demo_flashes_def demo_flash_def by code_simp

theorem fill_bundles_atomic_witness:
  "\<exists>result env' pool'. fill_bundles demo_builder demo_clock demo_flashes (demo_env None 0) = ((Ok result, env'), pool') \<and>
     map br_bundle result = [demo_flash] \<and> env_txs env' = [ptx_tx demo_first]"
proof -
  obtain env' pool' where run: "fill_bundles demo_builder demo_clock demo_flashes (demo_env None 0) =
      ((Ok [\<lparr>br_bundle = demo_flash, br_status = ''submitted''\<rparr>], env'), pool')"
  proof -
    have "b_txs demo_flash = [demo_first]" "ck_alive demo_clock t" for t by (simp_all add: demo_flash_def demo_clock_def)
    then have "\<exists>env'. fill_bundles_loop demo_builder demo_clock [demo_flash] [] (demo_env None 0) =
        (Ok [\<lparr>br_bundle = demo_flash, br_status = ''submitted''\<rparr>], env')"
      by (simp add: is_alive_def and_then_def demo_commit_bundle Let_def del: commit_bundle.simps(2)) (simp add: demo_run)
    then show thesis using that demo_list by (auto simp: fill_bundles_def Let_def split_beta simp del: fill_bundles_loop.simps)
  qed
  from fill_bundles_atomic [OF demo_gas_lawful _ demo_env_ok run] run show ?thesis
    by (auto simp: demo_env_def submitted_txs_def demo_flash_def)
qed

section \<open>The price pool\<close>

definition demo_listed :: "(h160, demo_tx pool_tx list) btree_map \<times> (h256, bool) btree_map \<times> demo_tx price_pool" where
  "demo_listed = price_pool_list demo_api [] (Some 1125) (- 1) demo_price"

lemma demo_listed_txs: "fst demo_listed = [(7, [demo_first])] \<and> fst (snd demo_listed) = []"
  unfolding demo_listed_def demo_price_def demo_first_def by code_simp

abbreviation demo_queue :: "demo_tx tx_with_miner_fee list \<Rightarrow> demo_tx by_price" where
  "demo_queue heads \<equiv> \<lparr>bp_txs = [(7, [])], bp_heads = heads, bp_base_fee = 1125\<rparr>"

lemma demo_queue_first:
  "by_price_new demo_api [(7, [demo_first])] 1125 = demo_queue [\<lparr>mf_tx = demo_first, mf_fee = 3000\<rparr>]"
  "by_price_shift demo_api (demo_queue [\<lparr>mf_tx = demo_first, mf_fee = 3000\<rparr>]) = demo_queue []"
  unfolding demo_first_def by code_simp+

definition demo_fetch :: "(demo_tx, demo_state, demo_tx price_pool, demo_tx by_price) commit_state" where
  "demo_fetch = \<lparr>cm_page = None, cm_stat = \<lparr>cs_removed = 0, cs_total = 0, cs_failed = 0\<rparr>,
     cm_list = demo_queue [\<lparr>mf_tx = demo_first, mf_fee = 3000\<rparr>], cm_pool = snd (snd demo_listed), cm_env = demo_env None 0\<rparr>"

abbreviation demo_step ::
  "(demo_tx, demo_state, demo_tx price_pool, demo_tx by_price) commit_state
     \<Rightarrow> ((string build_error, commit_stat) outcome \<times> (demo_tx, demo_state, demo_tx price_pool, demo_tx by_price) commit_state) +
       (demo_tx, demo_state, demo_tx price_pool, demo_tx by_price) commit_state" where
  "demo_step \<equiv> commit_step demo_builder demo_clock (price_flow (bb_api demo_builder)) 20"

abbreviation demo_stop :: "(demo_tx, demo_state, demo_tx price_pool, demo_tx by_price) commit_state" where
  "demo_stop \<equiv> demo_fetch\<lparr>cm_env := demo_env1 None 2, cm_list := demo_queue [], cm_stat := \<lparr>cs_removed = 0, cs_total = 1, cs_failed = 0\<rparr>\<rparr>"

lemma demo_parts [simp]:
  "bb_api demo_builder = demo_api" "ck_alive demo_clock t" "ptx_hash demo_first = 11" "bb_db demo_builder = demo_db"
  by (simp_all add: demo_builder_def demo_clock_def demo_first_def demo_ptx_def)

lemma demo_page: "prefetch_page demo_builder [demo_first] env = (Ok (), env)"
  by (simp add: prefetch_page_def and_then_def try_state_def env_db_def demo_db_def)

lemma demo_steps:
  "demo_step demo_fetch = Inr (demo_fetch\<lparr>cm_page := Some [demo_first], cm_env := demo_env None 1\<rparr>)"
  "demo_step (demo_fetch\<lparr>cm_page := Some [demo_first], cm_env := demo_env None 1\<rparr>) = Inr (demo_stop\<lparr>cm_page := Some [demo_first]\<rparr>)"
  "demo_step (demo_stop\<lparr>cm_page := Some [demo_first]\<rparr>) = Inr (demo_stop\<lparr>cm_page := None\<rparr>)"
  "demo_step (demo_stop\<lparr>cm_page := None\<rparr>) = Inl (Ok \<lparr>cs_removed = 0, cs_total = 1, cs_failed = 0\<rparr>, demo_stop\<lparr>cm_env := demo_env1 None 3\<rparr>)"
  by (simp_all add: commit_step_def commit_page_def demo_fetch_def price_flow_def by_price_peek_def by_price_peekn_def
    is_alive_def demo_page demo_commit demo_queue_first eval_nat_numeral)

definition demo_state3 :: demo_state where
  "demo_state3 = demo_state2\<lparr>ds_root := 1, ds_snaps := bt_insert 1 (ds_bal demo_state2, ds_non demo_state2) (ds_snaps demo_state2)\<rparr>"

lemma demo_fill_price:
  "\<exists>pool'. fill_price demo_builder demo_clock demo_price (demo_env None 0) =
     Some ((Ok \<lparr>cs_removed = 0, cs_total = 1, cs_failed = 0\<rparr>, (demo_env1 None 3)\<lparr>env_state := demo_state3\<rparr>), pool')"
proof -
  have "fl_fetch (price_flow demo_api) (demo_env None 0) demo_price =
      (demo_queue [\<lparr>mf_tx = demo_first, mf_fee = 3000\<rparr>], demo_env None 0, snd (snd demo_listed))"
  proof -
    obtain pool' where "price_pool_list demo_api [] (Some 1125) (- 1) demo_price = ([(7, [demo_first])], [], pool')"
      "snd (snd demo_listed) = pool'"
      using demo_listed_txs unfolding demo_listed_def by (cases "price_pool_list demo_api [] (Some 1125) (- 1) demo_price") auto
    then show ?thesis by (simp add: price_flow_def demo_queue_first(1)) (simp add: demo_env_def demo_next_def demo_queue_first(1))
  qed
  moreover have "iterate demo_step demo_fetch = Some (Ok \<lparr>cs_removed = 0, cs_total = 1, cs_failed = 0\<rparr>, demo_stop\<lparr>cm_env := demo_env1 None 3\<rparr>)"
    by (simp only: iterate_Inr [where step = demo_step, OF demo_steps(1)] iterate_Inr [where step = demo_step, OF demo_steps(2)]
      iterate_Inr [where step = demo_step, OF demo_steps(3)] iterate_Inl [where step = demo_step, OF demo_steps(4)])
  moreover have "on_state (sdb_flush demo_db) (demo_env1 None 3) = (Ok 1, (demo_env1 None 3)\<lparr>env_state := demo_state3\<rparr>)"
    by (simp add: try_state_def env_db_def demo_db_def demo_state3_def demo_env1_def demo_state2_def demo_state1_def demo_state_of_def)
  ultimately show ?thesis by (simp add: fill_price_def commit_pool_def and_then_def demo_fetch_def)
qed

theorem fill_price_from_pool_witness:
  "\<exists>env' pool'. fill_price demo_builder demo_clock demo_price (demo_env None 0) =
      Some ((Ok \<lparr>cs_removed = 0, cs_total = 1, cs_failed = 0\<rparr>, env'), pool') \<and>
     env_txs env' = [ptx_tx demo_first] \<and> (\<exists>t. ptx_tx t = ptx_tx demo_first \<and> pend demo_price 7 0 = Some t)"
proof -
  obtain pool' where run: "fill_price demo_builder demo_clock demo_price (demo_env None 0) =
     Some ((Ok \<lparr>cs_removed = 0, cs_total = 1, cs_failed = 0\<rparr>, (demo_env1 None 3)\<lparr>env_state := demo_state3\<rparr>), pool')"
    using demo_fill_price by blast
  have pool: "price_pool_run (bb_api demo_builder) demo_price" using demo_price_run by simp
  have "tx_sender demo_api (ptx_tx demo_first) = 7" "tx_nonce demo_api (ptx_tx demo_first) = 0"
    by (simp_all add: demo_api_def demo_first_def demo_ptx_def)
  with fill_price_from_pool [OF pool run] run show ?thesis by (auto simp: demo_env_def demo_env1_def)
qed

section \<open>Payments\<close>

lemma demo_profit: "calculate_profit demo_builder (demo_env1 r t) = (Ok 63000000, demo_env1 r t)"
  by (simp add: calculate_profit_def and_then_def demo_run demo_api_def demo_first_def demo_ptx_def min_def)

lemma demo_tips_commit:
  "fst (commit_transaction demo_builder (demo_clock\<lparr>ck_alive := \<lambda>_. True\<rparr>) (demo_tips_tx 0 1125 21000 3 39375000)
     ((demo_env1 (Some 3) t)\<lparr>env_gas_pool := 30008295\<rparr>)) =
     Ok (Success \<lparr>r_status = 1, r_transaction_hash = 99, r_transaction_index = 1, r_gas_used = 21000,
       r_cumulative_gas_used = 42000, r_logs = []\<rparr>)"
  apply (simp add: demo_run commit_transaction_def demo_tips_tx_def demo_api_def demo_ptx_def demo_first_def)
  apply (simp add: demo_run executor_apply_def executor_run_def executor_new_def check_nonce_def on_db_def)
  apply (simp add: demo_run buy_gas_def on_db_def)
  apply (simp add: demo_run run_evm_def demo_evm_def)
  apply (simp add: demo_run run_finish_def execute_logs_def on_db_unwrap_def)
  apply (simp add: demo_run refund_gas_def on_db_def commit_success_def)
  done

theorem fill_tips_pays_witness:
  "\<exists>env'. fill_tips demo_builder demo_clock [] 0 (demo_env1 (Some 3) 1) = (Ok 39375000, env') \<and> length (env_txs env') = 2"
proof -
  have strategy: "tips_strategy_get (bb_tips_strategy demo_builder) 63000000 [] 0 = Some 63000000" unfolding demo_builder_def by code_simp
  have fee: "chk_mul 1125 21000 = Some (23625000 :: u256)" by (simp add: chk_mul_def)
  have parts: "sdb_get_code demo_db a s = (Inr [], s)" "sdb_get_nonce demo_db 9 demo_state2 = (Inr 0, demo_state2)"
    "env_header (demo_env1 r t) = demo_next\<lparr>h_gas_used := 21000\<rparr>" "h_base_fee_per_gas demo_next = 1125"
    "env_tips_recipient (demo_env1 r t) = r" "env_state (demo_env1 r t) = demo_state2" "(demo_env1 r t)\<lparr>env_state := demo_state2\<rparr> = demo_env1 r t"
    "env_gas_pool (demo_env1 r t) = 29976295" "bb_payer demo_builder = 9" "bb_tips_tx demo_builder = demo_tips_tx" for a s r t
    by (simp_all add: demo_db_def demo_non_def lookup0_def demo_state2_def demo_env1_def demo_next_def demo_builder_def)
  obtain env' where commit: "commit_transaction demo_builder (demo_clock\<lparr>ck_alive := \<lambda>_. True\<rparr>) (demo_tips_tx 0 1125 21000 3 39375000)
     ((demo_env1 (Some 3) (Suc 0))\<lparr>env_gas_pool := 30008295\<rparr>) =
     (Ok (Success \<lparr>r_status = 1, r_transaction_hash = 99, r_transaction_index = 1, r_gas_used = 21000,
       r_cumulative_gas_used = 42000, r_logs = []\<rparr>), env')" using demo_tips_commit [of "Suc 0"] by (metis prod.collapse)
  have succ: "tips_outcome demo_builder (demo_tips_tx 0 1125 21000 3 39375000) (Success \<lparr>r_status = 1, r_transaction_hash = 99, r_transaction_index = 1,
      r_gas_used = 21000, r_cumulative_gas_used = 42000, r_logs = []\<rparr>) env' = (Ok 39375000, env')"
    by (simp add: tips_outcome_def demo_builder_def demo_tips_tx_def demo_api_def)
  have "fill_tips demo_builder demo_clock [] 0 (demo_env1 (Some 3) 1) = (Ok 39375000, env')"
    by (simp add: fill_tips_def and_then_def or_panic_def demo_profit parts strategy fee tips_gas_def try_state_def env_db_def commit succ)
  note run = this
  have D: "lawful_db (bb_db demo_builder) demo_bal demo_non" by (simp add: demo_db_lawful)
  have tipval: "\<forall>n p g r v. tx_value (bb_api demo_builder) (ptx_tx (bb_tips_tx demo_builder n p g r v)) = v"
    by (simp add: demo_api_def parts demo_tips_tx_def)
  from fill_tips_pays [OF D tipval run] have "length (env_txs env') = 2" by (auto simp: demo_env1_def)
  with run show ?thesis by blast
qed

lemma demo_flush_bal: "\<forall>s r s'. sdb_flush (bb_db demo_builder) s = (Inr r, s') \<longrightarrow> demo_bal s' = demo_bal s"
  by (simp add: demo_db_def demo_bal_def)

definition demo_block1 :: demo_block where
  "demo_block1 = (demo_next\<lparr>h_gas_used := 21000, h_state_root := 2\<rparr>, [ptx_tx demo_first], [demo_receipt], pl_withdrawals demo_job)"

lemma demo_finalize:
  "\<exists>env'. finalize_and_assemble demo_builder (pl_withdrawals demo_job) ((demo_env1 None 3)\<lparr>env_state := demo_state3\<rparr>) =
     (Ok demo_block1, env') \<and> env_receipts env' = [demo_receipt]"
  by (simp add: finalize_and_assemble_def demo_block1_def demo_job_def demo_state3_def demo_run)

theorem finalize_credits_witness:
  "\<exists>env'. finalize_and_assemble demo_builder (pl_withdrawals demo_job) ((demo_env1 None 3)\<lparr>env_state := demo_state3\<rparr>) =
     (Ok demo_block1, env') \<and> demo_bal (env_state env') 8 = 1005000000000"
proof -
  obtain env' where run: "finalize_and_assemble demo_builder (pl_withdrawals demo_job) ((demo_env1 None 3)\<lparr>env_state := demo_state3\<rparr>) =
     (Ok demo_block1, env')" using demo_finalize by blast
  have "lawful_db (bb_db demo_builder) demo_bal demo_non" by (simp add: demo_db_lawful)
  from finalize_credits [OF this demo_flush_bal run] have "demo_bal (env_state env') 8 =
      demo_bal demo_state3 8 + sum_list (map (\<lambda>w. ucast (w_amount w) * bb_gwei demo_builder) (filter (\<lambda>w. w_address w = 8) (pl_withdrawals demo_job)))"
    by simp
  then have "demo_bal (env_state env') 8 = 1005000000000" by (simp add: demo_job_def demo_run demo_state3_def)
  with run show ?thesis by blast
qed

section \<open>A block\<close>

lemma demo_header_next: "next_block (bb_header_hash demo_builder) demo_job = Some demo_next"
  unfolding demo_builder_def demo_job_def demo_next_def by code_simp

lemma demo_fill:
  "fill_start demo_builder (environment_new demo_state1 demo_next None 0) = (Ok (), demo_env None 0)"
  "fst (fill_bundles demo_builder demo_clock (tp_bundle_pool demo_pools) (demo_env None 0)) = (Ok [], demo_env None 0)"
  "fst (fill_seq demo_builder demo_clock (tp_seq_pool demo_pools) (demo_env None 0)) = (Ok [], demo_env None 0)"
proof -
  show "fill_start demo_builder (environment_new demo_state1 demo_next None 0) = (Ok (), demo_env None 0)"
    by (simp add: fill_start_def prefetch_basic_info_def environment_new_def demo_run)
  have "fst (bundle_pool_list_bundles (bb_bundles demo_builder) 101 24 (tp_bundle_pool demo_pools)) = []"
    by (simp add: demo_pools_def tx_pool_new_def bundle_pool_list_bundles_def bundle_pool_new_def)
  then show "fst (fill_bundles demo_builder demo_clock (tp_bundle_pool demo_pools) (demo_env None 0)) = (Ok [], demo_env None 0)"
    by (simp add: fill_bundles_def split_beta)
  have "seq_pool_list_by_seq (tp_seq_pool demo_pools) = []" unfolding demo_pools_def by code_simp
  then show "fst (fill_seq demo_builder demo_clock (tp_seq_pool demo_pools) (demo_env None 0)) = (Ok [], demo_env None 0)"
    by (simp add: fill_seq_def try_state_def env_db_def demo_db_def)
qed

lemma demo_no_tips:
  "fill_tips demo_builder demo_clock [] 0 ((demo_env1 None 3)\<lparr>env_state := demo_state3\<rparr>) =
     (Ok 0, (demo_env1 None 3)\<lparr>env_state := demo_state3\<rparr>)"
  by (simp add: fill_tips_def calculate_profit_def demo_run demo_state3_def demo_api_def demo_first_def demo_ptx_def min_def)

lemma demo_build:
  "\<exists>res txpool'. build demo_builder demo_clock demo_state1 demo_pools demo_job = Some (Ok res, txpool') \<and>
     bk_block res = demo_block1 \<and> bk_receipts res = [demo_receipt]"
proof -
  obtain pool1 pool2 pool3 where p:
    "fill_bundles demo_builder demo_clock (tp_bundle_pool demo_pools) (demo_env None 0) = ((Ok [], demo_env None 0), pool1)"
    "fill_seq demo_builder demo_clock (tp_seq_pool demo_pools) (demo_env None 0) = ((Ok [], demo_env None 0), pool2)"
    "fill_price demo_builder demo_clock (tp_price_pool demo_pools) (demo_env None 0) =
       Some ((Ok \<lparr>cs_removed = 0, cs_total = 1, cs_failed = 0\<rparr>, (demo_env1 None 3)\<lparr>env_state := demo_state3\<rparr>), pool3)"
    using demo_fill(2,3) demo_fill_price by (auto simp: demo_pools_def prod_eq_iff)
  have "\<exists>fr txpool'. fill_transactions demo_builder demo_clock demo_pools (environment_new demo_state1 demo_next None 0) =
      Some ((Ok fr, (demo_env1 None 3)\<lparr>env_state := demo_state3\<rparr>), txpool')"
    by (simp add: fill_transactions_def demo_fill(1) p Let_def and_then_def demo_no_tips) (simp add: demo_env1_def)
  then obtain fr txpool' where f: "fill_transactions demo_builder demo_clock demo_pools (environment_new demo_state1 demo_next None 0) =
      Some ((Ok fr, (demo_env1 None 3)\<lparr>env_state := demo_state3\<rparr>), txpool')" by blast
  obtain env' where fin: "finalize_and_assemble demo_builder (pl_withdrawals demo_job) ((demo_env1 None 3)\<lparr>env_state := demo_state3\<rparr>) =
     (Ok demo_block1, env')" "env_receipts env' = [demo_receipt]" using demo_finalize by blast
  have "bb_block_header demo_builder demo_block1 = demo_next\<lparr>h_gas_used := 21000, h_state_root := 2\<rparr>"
    by (simp add: demo_builder_def demo_block1_def)
  then have "\<exists>res env''. build_finish demo_builder demo_job fr ((demo_env1 None 3)\<lparr>env_state := demo_state3\<rparr>) = (Ok res, env'') \<and>
      bk_block res = demo_block1 \<and> bk_receipts res = [demo_receipt]"
    using fin by (simp add: build_finish_def and_then_def or_panic_def Let_def chk_mul_def chk_div_def demo_next_def try_state_def env_db_def demo_db_def)
  moreover have "prepare_work demo_builder demo_state1 demo_job = Some (environment_new demo_state1 demo_next None 0)"
    using demo_header_next by (simp add: prepare_work_def demo_job_def demo_payload_def)
  ultimately show ?thesis using f by (auto simp: build_def and_then_def)
qed

theorem build_block_valid_witness:
  "\<exists>res txpool'. build demo_builder demo_clock demo_state1 demo_pools demo_job = Some (Ok res, txpool') \<and>
     bk_block res = demo_block1 \<and> bk_receipts res = [demo_receipt] \<and> bk_slot res = 7 \<and>
     receipts_ok demo_api [ptx_tx demo_first] [demo_receipt]"
proof -
  obtain res txpool' where run: "build demo_builder demo_clock demo_state1 demo_pools demo_job = Some (Ok res, txpool')"
    and res: "bk_block res = demo_block1" "bk_receipts res = [demo_receipt]" using demo_build by blast
  have limit: "32000 \<le> h_gas_limit demo_next" by (simp add: demo_next_def)
  have new: "bb_block_new demo_builder = (\<lambda>h txs rs ws. (h, txs, rs, ws))" by (simp add: demo_builder_def)
  from build_block_valid [OF demo_gas_lawful demo_header_next limit run] res
  have "receipts_ok demo_api [ptx_tx demo_first] [demo_receipt]" "bk_slot res = pl_slot demo_job"
    by (auto simp: demo_block1_def new)
  with run res show ?thesis by (simp add: demo_job_def demo_payload_def)
qed

end
