(* ===== verification/Service_Demo.thy ===== *)
theory Service_Demo
  imports Build_Service Block_Demo
begin

text \<open>
  A round of the block builder service at concrete inputs: a head of slot 3, a bundle for the next block, a validator
  registered for slot 4, and a database without effects, in which every account has the same balance.
\<close>

section \<open>The parts\<close>

definition calm_db :: "(unit, string) statedb" where
  "calm_db =
     \<lparr>sdb_get_balance = (\<lambda>a s. (Inr 1000000, s)), sdb_get_nonce = (\<lambda>a s. (Inr 0, s)), sdb_try_get_nonce = (\<lambda>a s. Some 0),
      sdb_get_code = (\<lambda>a s. (Inr [], s)), sdb_add_balance = (\<lambda>a v s. (Inr (), s)), sdb_sub_balance = (\<lambda>a v s. (Inr (), s)),
      sdb_set_balance = (\<lambda>a v s. (Inr (), s)), sdb_set_nonce = (\<lambda>a n s. (Inr (), s)), sdb_set_code = (\<lambda>a c s. (Inr (), s)),
      sdb_set_state = (\<lambda>a k v s. (Inr (), s)), sdb_suicide = (\<lambda>a s. (Inr (), s)), sdb_prefetch = (\<lambda>al s. (Inr (), s)),
      sdb_flush = (\<lambda>s. (Inr 5, s)), sdb_state_root = (\<lambda>s. 5), sdb_revert = (\<lambda>r s. s)\<rparr>"

definition calm_evm :: "demo_tx exec_context \<Rightarrow> evm_call \<Rightarrow> unit \<Rightarrow> evm_output \<times> unit" where
  "calm_evm ctx call s =
     (\<lparr>eo_reason = Succeeded, eo_data = [], eo_used_gas = min 21000 (ec_gas_limit call), eo_changes = [], eo_logs = []\<rparr>, s)"

definition calm_block :: "block_header \<Rightarrow> demo_tx list \<Rightarrow> receipt list \<Rightarrow> withdrawal list \<Rightarrow> demo_tx relay_block" where
  "calm_block h txs rs ws =
     \<lparr>rb_header = block_header.extend h (relay_header.fields 9 (replicate 256 0) (Some 10)),
      rb_transactions = txs, rb_withdrawals = Some ws\<rparr>"

definition calm_builder :: "(demo_tx, unit, string, demo_tx relay_block) builder" where
  "calm_builder =
     \<lparr>bb_api = demo_api, bb_db = calm_db, bb_transact = calm_evm, bb_bundles = demo_bundle_api,
      bb_succ = (\<lambda>r. r_status r = 1), bb_payer = 9, bb_tips_strategy = demo_strategy, bb_precompiles = [1, 2],
      bb_tips_tx = demo_tips_tx, bb_show_error = (\<lambda>_. ''error''), bb_show_action = (\<lambda>_. ''action''),
      bb_gwei = 1000000000, bb_header_hash = (\<lambda>_. 77), bb_block_new = calm_block,
      bb_block_header = (\<lambda>b. block_header.truncate (rb_header b))\<rparr>"

definition calm_parent :: block_header where
  "calm_parent =
     \<lparr>h_parent_hash = 1, h_number = 100, h_gas_limit = 30000000, h_gas_used = 15000000, h_timestamp = 36, h_miner = 6,
      h_mix_hash = 3, h_extra_data = [], h_base_fee_per_gas = 0, h_difficulty = 0, h_state_root = 8\<rparr>"

definition calm_tx :: "demo_tx pool_tx" where
  "calm_tx = demo_ptx 7 0 11 0 0"

definition calm_bundle :: "demo_tx eth_bundle" where
  "calm_bundle = (demo_bundle ''a'' 101 None)\<lparr>b_txs := [calm_tx]\<rparr>"

definition calm_slots :: beacon_slot where
  "calm_slots = beacon_slot_new 12 0"

definition calm_head :: beacon_head where
  "calm_head = \<lparr>bh_slot = 3, bh_slot_time = 36, bh_block = calm_parent, bh_randao = None, bh_withdrawal = None\<rparr>"

definition calm_channels :: head_channels where
  "calm_channels = \<lparr>hs_last_slot = Some 3, hs_head = Some calm_head, hs_randao = Some (3, 55), hs_withdrawal = None, hs_blocks = Some calm_parent\<rparr>"

definition calm_service :: "(demo_tx, unit, string, demo_tx, nat, nat) build_service" where
  "calm_service =
     \<lparr>sv_builder = calm_builder, sv_extra = [], sv_relay = demo_relay\<lparr>rl_validators := demo_validators\<rparr>, sv_bls = demo_bls,
      sv_blocks = \<lparr>ba_header_hash = (\<lambda>_. 200), ba_inner_bytes = (\<lambda>_. Some [1])\<rparr>, sv_beacon_slot = calm_slots,
      sv_submit_time = duration_from_secs 2, sv_time = demo_time\<rparr>"

definition calm_pools :: "demo_tx tx_pool" where
  "calm_pools = (tx_pool_new 10)\<lparr>tp_bundle_pool := snd (bundle_pool_add demo_bundle_api calm_bundle ''1s'' bundle_pool_new)\<rparr>"

definition calm_input :: "(unit, nat) round_input" where
  "calm_input = \<lparr>ri_channels = calm_channels, ri_now = duration_from_secs 40, ri_alive = (\<lambda>_. demo_clock), ri_state = (),
     ri_built = duration_from_secs 46, ri_history = 46\<rparr>"


lemma calm_lawful: "gas_lawful calm_builder" "block_kept calm_builder"
  by (simp_all add: gas_lawful_def block_kept_def calm_builder_def demo_api_def evm_gas_ok_def calm_evm_def calm_block_def
    block_header.truncate_def block_header.extend_def relay_header.fields_def)

section \<open>The build\<close>

definition calm_payload :: build_payload where
  "calm_payload = \<lparr>pl_round = 0, pl_slot = 4, pl_base = calm_parent, pl_coinbase = 9, pl_gas_limit = 30000000, pl_timestamp = 48,
     pl_random = 55, pl_extra = [], pl_withdrawals = [], pl_tips_recipient = Some 5\<rparr>"

definition calm_next :: block_header where
  "calm_next =
     \<lparr>h_parent_hash = 77, h_number = 101, h_gas_limit = 30000000, h_gas_used = 0, h_timestamp = 48, h_miner = 9,
      h_mix_hash = 55, h_extra_data = [], h_base_fee_per_gas = 0, h_difficulty = 0, h_state_root = 0\<rparr>"

definition calm_env :: "u64 \<Rightarrow> u64 \<Rightarrow> demo_tx list \<Rightarrow> receipt list \<Rightarrow> (h256, bool) btree_map \<Rightarrow> nat \<Rightarrow> (demo_tx, unit) environment" where
  "calm_env pool used txs rs checked t =
     \<lparr>env_state = (), env_miner_balance = 1000000, env_header = calm_next\<lparr>h_gas_used := used\<rparr>, env_txs = txs, env_receipts = rs,
      env_gas_pool = pool, env_checked_txs = checked, env_tips_recipient = Some 5, env_round = 0, env_tick = t\<rparr>"

definition calm_receipt :: receipt where
  "calm_receipt =
     \<lparr>r_status = 1, r_transaction_hash = 11, r_transaction_index = 0, r_gas_used = 21000,
      r_cumulative_gas_used = 21000, r_logs = []\<rparr>"

lemma calm_header_next: "next_block (bb_header_hash calm_builder) calm_payload = Some calm_next"
  unfolding calm_builder_def calm_payload_def calm_parent_def calm_next_def by code_simp

lemmas calm_run = Let_def and_then_def or_panic_def env_db_def try_state_def is_alive_def use_gas_def
  calm_builder_def demo_clock_def calm_db_def calm_env_def calm_next_def bt_insert_def
  chk_add_def chk_mul_def chk_sub_def chk_div_def sat_sub_def calm_receipt_def

lemmas calm_exec = calm_run commit_transaction_def executor_apply_def executor_run_def executor_new_def check_nonce_def
  buy_gas_def refund_gas_def run_evm_def run_finish_def execute_logs_def commit_success_def commit_failure_def
  on_db_def on_db_unwrap_def demo_api_def demo_ptx_def calm_evm_def

lemma calm_commit:
  "commit_transaction calm_builder demo_clock calm_tx (calm_env 29968000 0 [] [] [] t) =
     (Ok (Success calm_receipt), calm_env 29947000 21000 [ptx_tx calm_tx] [calm_receipt] [(11, True)] (Suc t))"
  unfolding calm_tx_def by (simp add: calm_exec)

abbreviation calm_env1 :: "nat \<Rightarrow> (demo_tx, unit) environment" where
  "calm_env1 \<equiv> calm_env 29947000 21000 [ptx_tx calm_tx] [calm_receipt] [(11, True)]"

lemma calm_fill_start:
  "fill_start calm_builder (environment_new () calm_next (Some 5) 0) = (Ok (), calm_env 29968000 0 [] [] [] 0)"
  by (simp add: fill_start_def prefetch_basic_info_def environment_new_def calm_run)

lemma calm_list: "fst (bundle_pool_list_bundles (bb_bundles calm_builder) 101 48 (tp_bundle_pool calm_pools)) = [calm_bundle]"
  unfolding calm_builder_def calm_pools_def calm_bundle_def calm_tx_def by code_simp

lemma calm_state [simp]:
  "on_state (sdb_prefetch (bb_db calm_builder) al) env = (Ok (), env)" "on_state (sdb_flush (bb_db calm_builder)) env = (Ok 5, env)"
  "on_state (sdb_get_balance (bb_db calm_builder) a) env = (Ok 1000000, env)" "on_state (sdb_get_code (bb_db calm_builder) a) env = (Ok [], env)"
  "on_state (sdb_get_nonce (bb_db calm_builder) a) env = (Ok 0, env)"
  by (simp_all add: try_state_def env_db_def calm_builder_def calm_db_def)

lemma calm_tick [simp]:
  "env_tick (calm_env p u txs rs ch t) = t" "(calm_env p u txs rs ch t)\<lparr>env_tick := t'\<rparr> = calm_env p u txs rs ch t'"
  by (simp_all add: calm_env_def)

lemma calm_commit_bundle:
  "commit_bundle calm_builder demo_clock root start (calm_tx # rest) (calm_env 29968000 0 [] [] [] t) =
     commit_bundle calm_builder demo_clock root start rest (calm_env1 (Suc t))"
proof -
  have "bb_succ calm_builder calm_receipt" "ptx_hash calm_tx = 11"
    by (simp_all add: calm_builder_def calm_receipt_def calm_tx_def demo_ptx_def)
  moreover have "(calm_env1 (Suc t))\<lparr>env_checked_txs := bt_insert 11 True (env_checked_txs (calm_env1 (Suc t)))\<rparr> = calm_env1 (Suc t)"
    by (simp add: calm_env_def bt_insert_def)
  ultimately show ?thesis by (simp add: and_then_def calm_commit Let_def)
qed

lemma calm_bundles:
  "fst (fill_bundles calm_builder demo_clock (tp_bundle_pool calm_pools) (calm_env 29968000 0 [] [] [] 0)) =
     (Ok [\<lparr>br_bundle = calm_bundle, br_status = ''submitted''\<rparr>], calm_env1 2)"
proof -
  have tx: "b_txs calm_bundle = [calm_tx]" "ptx_hash calm_tx = 11" "ck_alive demo_clock t" for t
    by (simp_all add: calm_bundle_def calm_tx_def demo_ptx_def demo_clock_def)
  have h: "h_number (env_header (calm_env 29968000 0 [] [] [] 0)) = 101" "h_timestamp (env_header (calm_env 29968000 0 [] [] [] 0)) = 48"
    by (simp_all add: calm_env_def calm_next_def)
  have "fill_bundles_loop calm_builder demo_clock [calm_bundle] [] (calm_env 29968000 0 [] [] [] 0) =
      (Ok [\<lparr>br_bundle = calm_bundle, br_status = ''submitted''\<rparr>], calm_env1 2)"
    by (simp add: is_alive_def and_then_def tx calm_commit_bundle Let_def eval_nat_numeral del: commit_bundle.simps(2))
  then show ?thesis using calm_list by (simp add: fill_bundles_def Let_def split_beta h del: fill_bundles_loop.simps)
qed

lemma calm_seq: "fst (fill_seq calm_builder demo_clock (tp_seq_pool calm_pools) (calm_env1 2)) = (Ok [], calm_env1 2)"
proof -
  have "seq_pool_list_by_seq (tp_seq_pool calm_pools) = []" unfolding calm_pools_def by code_simp
  then show ?thesis by (simp add: fill_seq_def try_state_def env_db_def calm_builder_def calm_db_def)
qed

lemma calm_price:
  "\<exists>pool. fill_price calm_builder demo_clock (tp_price_pool calm_pools) (calm_env1 2) =
     Some ((Ok \<lparr>cs_removed = 0, cs_total = 0, cs_failed = 0\<rparr>, calm_env1 3), pool)"
proof -
  let ?F = "price_flow (bb_api calm_builder)"
  have "fst (price_pool_list demo_api [(11, True)] (Some 0) (- 1) (tp_price_pool calm_pools)) = [] \<and>
      fst (snd (price_pool_list demo_api [(11, True)] (Some 0) (- 1) (tp_price_pool calm_pools))) = [(11, True)]"
    unfolding calm_pools_def by code_simp
  then obtain pool where l: "price_pool_list demo_api [(11, True)] (Some 0) (- 1) (tp_price_pool calm_pools) = ([], [(11, True)], pool)"
    by (metis prod.collapse)
  have "by_price_new demo_api [] 0 = \<lparr>bp_txs = [], bp_heads = [], bp_base_fee = 0\<rparr>" by code_simp
  with l have f: "fl_fetch ?F (calm_env1 2) (tp_price_pool calm_pools) = (\<lparr>bp_txs = [], bp_heads = [], bp_base_fee = 0\<rparr>, calm_env1 2, pool)"
    by (simp add: price_flow_def calm_builder_def calm_env_def calm_next_def)
  have s: "commit_step calm_builder demo_clock ?F 20
      \<lparr>cm_page = None, cm_stat = z, cm_list = \<lparr>bp_txs = [], bp_heads = [], bp_base_fee = 0\<rparr>, cm_pool = pool, cm_env = calm_env1 2\<rparr> =
      Inl (Ok z, \<lparr>cm_page = None, cm_stat = z, cm_list = \<lparr>bp_txs = [], bp_heads = [], bp_base_fee = 0\<rparr>, cm_pool = pool, cm_env = calm_env1 3\<rparr>)" for z
    by (simp add: commit_step_def commit_page_def price_flow_def by_price_peekn_def is_alive_def demo_clock_def calm_env_def)
  show ?thesis
    by (simp add: fill_price_def commit_pool_def f iterate_Inl [where step = "commit_step calm_builder demo_clock ?F 20", OF s] and_then_def try_state_def env_db_def)
       (simp add: calm_run)
qed

section \<open>Tips and block\<close>

definition calm_tips_receipt :: receipt where
  "calm_tips_receipt =
     \<lparr>r_status = 1, r_transaction_hash = 99, r_transaction_index = 1, r_gas_used = 21000, r_cumulative_gas_used = 42000, r_logs = []\<rparr>"

abbreviation calm_env2 :: "nat \<Rightarrow> (demo_tx, unit) environment" where
  "calm_env2 \<equiv> calm_env 29958000 42000 [ptx_tx calm_tx, ptx_tx (demo_tips_tx 0 0 21000 5 10)] [calm_receipt, calm_tips_receipt] [(11, True), (99, True)]"

lemma calm_tips_commit:
  "commit_transaction calm_builder (demo_clock\<lparr>ck_alive := \<lambda>_. True\<rparr>) (demo_tips_tx 0 0 21000 5 10)
     ((calm_env1 t)\<lparr>env_gas_pool := 29979000\<rparr>) = (Ok (Success calm_tips_receipt), calm_env2 (Suc t))"
  unfolding demo_tips_tx_def calm_tx_def calm_tips_receipt_def by (simp add: calm_exec)

lemma calm_tips: "fill_tips calm_builder demo_clock [] 1 (calm_env1 3) = (Ok 10, calm_env2 4)"
proof -
  have profit: "calculate_profit calm_builder (calm_env1 3) = (Ok 0, calm_env1 3)"
    by (simp add: calculate_profit_def and_then_def) (simp add: calm_run demo_api_def calm_tx_def demo_ptx_def min_def)
  have strategy: "tips_strategy_get (bb_tips_strategy calm_builder) 0 [] 1 = Some 10" unfolding calm_builder_def by code_simp
  have parts: "env_tips_recipient (calm_env1 t) = Some 5" "h_base_fee_per_gas (env_header (calm_env1 t)) = 0" "bb_tips_tx calm_builder = demo_tips_tx"
    "env_gas_pool (calm_env1 t) = 29947000" "chk_mul 0 21000 = Some (0 :: u256)" for t
    by (simp_all add: calm_env_def calm_next_def calm_builder_def chk_mul_def)
  have "tips_outcome calm_builder (demo_tips_tx 0 0 21000 5 10) (Success calm_tips_receipt) env = (Ok 10, env)" for env
    by (simp add: tips_outcome_def calm_builder_def calm_tips_receipt_def demo_tips_tx_def demo_api_def)
  then show ?thesis
    using calm_tips_commit [of 3] strategy
    by (simp add: fill_tips_def and_then_def or_panic_def profit parts tips_gas_def try_state_def [of "commit_transaction B c x" for B c x])
qed

definition calm_built :: "demo_tx relay_block" where
  "calm_built = calm_block (calm_next\<lparr>h_gas_used := 42000, h_state_root := 5\<rparr>) [ptx_tx calm_tx, ptx_tx (demo_tips_tx 0 0 21000 5 10)]
     [calm_receipt, calm_tips_receipt] []"

lemma calm_build:
  "\<exists>res txpool. build calm_builder demo_clock () calm_pools calm_payload = Some (Ok res, txpool) \<and>
     bk_block res = calm_built \<and> bk_slot res = 4 \<and> bk_profit res = 10"
proof -
  obtain pool1 pool2 pool3 where p:
    "fill_bundles calm_builder demo_clock (tp_bundle_pool calm_pools) (calm_env 29968000 0 [] [] [] 0) =
       ((Ok [\<lparr>br_bundle = calm_bundle, br_status = ''submitted''\<rparr>], calm_env1 2), pool1)"
    "fill_seq calm_builder demo_clock (tp_seq_pool calm_pools) (calm_env1 2) = ((Ok [], calm_env1 2), pool2)"
    "fill_price calm_builder demo_clock (tp_price_pool calm_pools) (calm_env1 2) =
       Some ((Ok \<lparr>cs_removed = 0, cs_total = 0, cs_failed = 0\<rparr>, calm_env1 3), pool3)"
    using calm_bundles calm_seq calm_price by (metis prod.collapse)
  have txs: "env_txs (calm_env1 3) = [ptx_tx calm_tx]" by (simp add: calm_env_def)
  have "\<exists>fr txpool. fill_transactions calm_builder demo_clock calm_pools (environment_new () calm_next (Some 5) 0) =
      Some ((Ok fr, calm_env2 4), txpool) \<and> fr_profit fr = 10"
    using calm_tips by (simp add: fill_transactions_def calm_fill_start p Let_def and_then_def txs)
  then obtain fr txpool where f: "fill_transactions calm_builder demo_clock calm_pools (environment_new () calm_next (Some 5) 0) =
      Some ((Ok fr, calm_env2 4), txpool)" "fr_profit fr = 10" by blast
  have "finalize_and_assemble calm_builder [] (calm_env2 4) = (Ok calm_built, calm_env2 4)"
    by (simp add: finalize_and_assemble_def and_then_def calm_built_def) (simp add: calm_env_def calm_builder_def)
  moreover have "bb_block_header calm_builder calm_built = calm_next\<lparr>h_gas_used := 42000, h_state_root := 5\<rparr>"
    by (simp add: calm_builder_def calm_built_def calm_block_def block_header.truncate_def block_header.extend_def relay_header.fields_def)
  ultimately have "\<exists>res env. build_finish calm_builder calm_payload fr (calm_env2 4) = (Ok res, env) \<and>
      bk_block res = calm_built \<and> bk_slot res = 4 \<and> bk_profit res = 10"
    using f(2) by (simp add: build_finish_def and_then_def or_panic_def Let_def chk_mul_def chk_div_def calm_next_def calm_payload_def)
  moreover have "prepare_work calm_builder () calm_payload = Some (environment_new () calm_next (Some 5) 0)"
    using calm_header_next by (simp add: prepare_work_def calm_payload_def)
  ultimately show ?thesis using f(1) by (auto simp: build_def and_then_def)
qed

section \<open>The round\<close>

definition calm_validator :: validator_data where
  "calm_validator = \<lparr>vd_pub_key = replicate 48 1, vd_fee_recipient = 5, vd_gas_limit = 30000000, vd_timestamp = 9, vd_name = [''a'']\<rparr>"

lemma calm_get_validator: "get_validator_for_slot (sv_relay calm_service) 4 = Inr calm_validator"
proof -
  have "try_get 4 demo_validators = Inr calm_validator" unfolding calm_validator_def by code_simp
  then show ?thesis by (simp add: get_validator_for_slot_def calm_service_def)
qed

abbreviation calm_fresh :: beacon_head where
  "calm_fresh \<equiv> calm_head\<lparr>bh_randao := Some 55\<rparr>"

lemma calm_refresh: "refresh calm_channels calm_head = Some calm_fresh"
  by (simp add: refresh_def calm_channels_def calm_head_def calm_parent_def)

lemma calm_round_payload: "round_payload calm_service 0 calm_fresh calm_validator = calm_payload"
  by (simp add: round_payload_def calm_service_def calm_builder_def calm_payload_def calm_head_def calm_validator_def calm_slots_def
    beacon_slot_new_def slot_secs_def head_randao_def head_withdrawal_def)

lemma calm_submit:
  "\<exists>req. relay_submit_block (sv_bls calm_service) (sv_blocks calm_service) (sv_relay calm_service) 4 calm_validator calm_built 10 = Some [(''a'', req)]"
  by (simp add: relay_submit_block_def build_request_def execution_payload_from_def calm_built_def calm_block_def calm_validator_def
    calm_service_def demo_relay_def relay_new_def domain_new_def demo_bls_def starts_with_def pubkey_from_def bid_sign_def sign_hash_root_def
    block_header.extend_def relay_header.fields_def Let_def)

lemma calm_round:
  assumes "st_txpool st = calm_pools"
  shows "\<exists>req st'. build_single_round calm_service calm_input 0 calm_head st = Some (Ok (True, [(''a'', req)]), calm_fresh, st')"
proof -
  obtain res txpool where b: "build calm_builder demo_clock () calm_pools calm_payload = Some (Ok res, txpool)"
    "bk_block res = calm_built" "bk_slot res = 4" "bk_profit res = 10" using calm_build by blast
  obtain req where req: "relay_submit_block (sv_bls calm_service) (sv_blocks calm_service) (sv_relay calm_service) 4 calm_validator calm_built 10 = Some [(''a'', req)]"
    using calm_submit by blast
  have parts: "sv_builder calm_service = calm_builder" "sv_time calm_service = demo_time" "sv_submit_time calm_service = duration_from_secs 2"
    "slot_time demo_time (sv_beacon_slot calm_service) 4 = duration_from_secs 48" "ri_channels calm_input = calm_channels"
    "ri_now calm_input = duration_from_secs 40" "ri_alive calm_input d = demo_clock" "ri_state calm_input = ()"
    "ri_built calm_input = duration_from_secs 46" "bh_slot calm_head = 3" "h_timestamp (bh_block calm_head) = 36" for d
    by (simp_all add: calm_service_def calm_slots_def beacon_slot_new_def slot_time_def slot_secs_def demo_time_def calm_input_def calm_head_def calm_parent_def)
  have avail: "available_for_submit demo_time (duration_from_secs 48) (duration_from_secs 46) = Some True"
    by (simp add: available_for_submit_def demo_time_def duration_from_secs_def)
  have times: "tm_sub demo_time (duration_from_secs 48) (duration_from_secs 2) = Some (duration_from_secs 46)"
    "tm_add demo_time (duration_from_secs 46) (duration_from_secs 2) = Some (duration_from_secs 48)"
    "\<not> tm_le demo_time (duration_from_secs 46) (duration_from_secs 40)"
    "\<not> duration_from_secs 60 < tm_saturating_since demo_time (duration_from_secs 46) (tm_from_secs demo_time 36)"
    by (simp_all add: demo_time_def duration_from_secs_def)
  show ?thesis
    by (simp add: build_single_round_def round_end_def submit_built_def calm_get_validator calm_refresh parts times avail b req assms Let_def
      calm_round_payload)
qed

lemma calm_reach:
  "beacon_reach calm_slots {(slot, r). slot_current calm_slots 40 = Some slot \<and> (Inr 55 :: string + h256) = Inr r} {} {calm_head} calm_channels"
proof -
  have slots: "slot_current calm_slots 36 = Some 3" "slot_current calm_slots 40 = Some 3" by code_simp+
  let ?c = "(head_channels_new (Some calm_parent))\<lparr>hs_head := Some calm_head, hs_last_slot := Some 3\<rparr>"
  have secs: "slot_secs calm_slots 3 = 36" by code_simp
  have "new_head_round calm_slots 36 (head_channels_new (Some calm_parent)) = Some ?c"
    by (simp add: new_head_round_def slots head_channels_new_def calm_head_def secs)
  from beacon_reach.new_head [OF beacon_reach.start this] have "beacon_reach calm_slots {} {} {calm_head} ?c"
    by (simp add: head_channels_new_def)
  moreover have "fetch_randao_round calm_slots 40 (\<lambda>_. Inr 55) ?c = Some calm_channels"
    by (simp add: fetch_randao_round_def slots calm_channels_def head_channels_new_def)
  ultimately show ?thesis using beacon_reach.randao [of calm_slots "{}" "{}" "{calm_head}" ?c 40 "\<lambda>_. Inr 55" calm_channels] by simp
qed

theorem round_submits_witness:
  "\<exists>req st'. build_single_round calm_service calm_input 0 calm_head \<lparr>st_txpool = calm_pools, st_current_alive = None\<rparr> =
      Some (Ok (True, [(''a'', req)]), calm_fresh, st') \<and>
     bid_slot (sr_message req) = 4 \<and> ep_timestamp (sr_execution_payload req) = 48 \<and> bid_parent_hash (sr_message req) = 77"
proof -
  obtain req st' where run: "build_single_round calm_service calm_input 0 calm_head \<lparr>st_txpool = calm_pools, st_current_alive = None\<rparr> =
      Some (Ok (True, [(''a'', req)]), calm_fresh, st')" using calm_round by force
  have parts: "sv_time calm_service = demo_time" "sv_builder calm_service = calm_builder" "sv_beacon_slot calm_service = calm_slots"
    "ri_channels calm_input = calm_channels" "bh_slot calm_head = 3" "slot_secs calm_slots 4 = 48" "bb_header_hash calm_builder h = 77" for h
    by (simp_all add: calm_service_def calm_input_def calm_head_def calm_slots_def beacon_slot_new_def slot_secs_def calm_builder_def)
  have limit: "33000 \<le> h_gas_limit (bh_block calm_fresh)"
    "unat (h_gas_limit (bh_block calm_fresh)) + unat (h_gas_limit (bh_block calm_fresh)) div 1024 < 2 ^ 64"
    by (simp_all add: calm_head_def calm_parent_def)
  from round_submits [OF demo_time_lawful [folded parts(1)] calm_lawful [folded parts(2)] calm_reach [folded parts(3,4)] _ run _ limit, of "''a''" req]
  have "bid_slot (sr_message req) = 4 \<and> ep_timestamp (sr_execution_payload req) = 48 \<and> bid_parent_hash (sr_message req) = 77"
    by (simp add: parts)
  with run show ?thesis by blast
qed

definition calm_loop :: "nat \<Rightarrow> (unit, nat) loop_input" where
  "calm_loop n = \<lparr>li_alive = True, li_now = (if n = 0 then 40 else 48), li_round = calm_input\<rparr>"

theorem rounds_end_witness:
  "\<exists>r l req. build_multiple_rounds calm_service calm_loop calm_head \<lparr>st_txpool = calm_pools, st_current_alive = None\<rparr> = Some (r, l) \<and>
     ls_round l = 1 \<and> ls_sent l = [(0, ''a'', req)]"
proof -
  let ?st = "\<lparr>st_txpool = calm_pools, st_current_alive = None\<rparr>"
  have slots: "slot_current calm_slots 40 = Some 3" "slot_current calm_slots 48 = Some 4" by code_simp+
  have parts: "sv_beacon_slot calm_service = calm_slots" "bh_slot calm_head = 3" by (simp_all add: calm_service_def calm_head_def)
  have out: "\<not> in_slot (sv_beacon_slot calm_service) (bh_slot calm_head) (calm_loop 1)" by (simp add: in_slot_def parts calm_loop_def slots)
  obtain r l where run: "build_multiple_rounds calm_service calm_loop calm_head ?st = Some (r, l)" and l: "ls_round l \<le> 1"
    using rounds_end [of calm_service calm_head calm_loop 1 ?st, OF out] by blast
  obtain req st' where round: "build_single_round calm_service calm_input 0 calm_head ?st = Some (Ok (True, [(''a'', req)]), calm_fresh, st')"
    using calm_round by force
  have "rounds_step calm_service calm_loop \<lparr>ls_round = 0, ls_head = calm_head, ls_service = ?st, ls_sent = []\<rparr> =
      Inr \<lparr>ls_round = 1, ls_head = calm_fresh, ls_service = st', ls_sent = [(0, ''a'', req)]\<rparr>"
    using round by (simp add: rounds_step_def calm_loop_def parts slots)
  moreover have "rounds_step calm_service calm_loop \<lparr>ls_round = 1, ls_head = calm_fresh, ls_service = st', ls_sent = [(0, ''a'', req)]\<rparr> =
      Inl (Ok (), \<lparr>ls_round = 1, ls_head = calm_fresh, ls_service = st', ls_sent = [(0, ''a'', req)]\<rparr>)"
    by (simp add: rounds_step_def calm_loop_def parts slots)
  ultimately have "build_multiple_rounds calm_service calm_loop calm_head ?st =
      Some (Ok (), \<lparr>ls_round = 1, ls_head = calm_fresh, ls_service = st', ls_sent = [(0, ''a'', req)]\<rparr>)"
    by (simp add: build_multiple_rounds_def iterate_Inr [where step = "rounds_step calm_service calm_loop"] iterate_Inl [where step = "rounds_step calm_service calm_loop"])
  with run show ?thesis by auto
qed

text \<open>A bundle is collected, then a sequential transaction: it is listed.\<close>

theorem service_pools_collected_witness:
  "\<exists>(st :: (demo_tx, nat) service_state) txpool'. service_reach calm_service 10 {BundleItem calm_bundle} st \<and>
     bundle_pool_get ''a'' (tp_bundle_pool (st_txpool st)) = Some calm_bundle \<and>
     collect_item demo_api demo_bundle_api calm_slots (\<lambda>_. ''1s'') 0 calm_parent (SeqItem (demo_ptx 7 0 11 5 1)) (st_txpool st) = Some txpool' \<and>
     seq_pool_list_by_seq (tp_seq_pool txpool') = [demo_ptx 7 0 11 5 1]"
proof -
  let ?st = "\<lparr>st_txpool = calm_pools, st_current_alive = None\<rparr> :: (demo_tx, nat) service_state"
  have parts: "bb_api (sv_builder calm_service) = demo_api" "bb_bundles (sv_builder calm_service) = demo_bundle_api"
    by (simp_all add: calm_service_def calm_builder_def)
  have "collect_item demo_api demo_bundle_api calm_slots (\<lambda>_. ''1s'') 0 calm_parent (BundleItem calm_bundle) (tx_pool_new 10) = Some calm_pools"
    by (simp add: collect_item_def calm_pools_def tx_pool_new_def)
  then have reach: "service_reach calm_service 10 {BundleItem calm_bundle} ?st"
    using service_reach.collect [OF service_reach.start, of calm_service calm_slots "\<lambda>_. ''1s''" 0 calm_parent "BundleItem calm_bundle" 10 calm_pools]
    by (simp add: parts)
  have "bundle_pool_get ''a'' (tp_bundle_pool calm_pools) = Some calm_bundle"
    unfolding bundle_pool_get_def calm_pools_def calm_bundle_def calm_tx_def by code_simp
  moreover have "tp_seq_pool calm_pools = seq_pool_new 10" by (simp add: calm_pools_def tx_pool_new_def)
  moreover have "seq_pool_list_by_seq (seq_pool_new 10 :: demo_tx seq_pool) = []" "\<not> seq_pool_contains (seq_pool_new 10 :: demo_tx seq_pool) 11"
    by code_simp+
  ultimately show ?thesis
    using reach service_pools_collected [OF reach, of calm_slots "\<lambda>_. ''1s''" 0 calm_parent "SeqItem (demo_ptx 7 0 11 5 1)"]
    by (auto simp: parts collected_def spec_push_def trim_front_drop demo_ptx_def)
qed

end
