(* ===== verification/Submitter.thy ===== *)
theory Submitter
  imports Relay
begin

text \<open>
  The submitter of one relay: \<open>src/common/mev_boost/src/submitter.rs\<close>.

  \<open>listen\<close> takes one request after the other and spawns a thread for each that it does not skip; the
  thread sends the request and records the answer.  \<open>listen_step\<close> is one round of the loop and \<open>submit_done\<close>
  the end of a thread; \<open>submitter_step\<close> interleaves them, with the submissions under way and the answers
  received so far as part of the state.  The HTTP client, the JSON parser and the conversions of \<open>SH256\<close>
  and UTF-8 are parameters (\<open>http_api\<close>).  The durations and the log lines are left out.
\<close>

section \<open>Answers of a relay\<close>

datatype json = JString string | JObject "(string \<times> json) list" | JOther

datatype http_error = HttpTimeout | HttpOther string

record http_api =
  hp_parse :: "u8 list \<Rightarrow> json option"
  hp_utf8_lossy :: "u8 list \<Rightarrow> string"
  hp_h256 :: "string \<Rightarrow> h256"

fun find_sub :: "string \<Rightarrow> string \<Rightarrow> nat option" where
  "find_sub p s = (if starts_with p s then Some 0 else case s of [] \<Rightarrow> None | _ # rest \<Rightarrow> map_option Suc (find_sub p rest))"

definition is_space :: "char \<Rightarrow> bool" where
  "is_space c \<longleftrightarrow> c \<in> {CHR 0x20, CHR 0x09, CHR 0x0A, CHR 0x0B, CHR 0x0C, CHR 0x0D}"

definition trim :: "string \<Rightarrow> string" where
  "trim s = rev (dropWhile is_space (rev (dropWhile is_space s)))"

definition expected_hash :: "http_api \<Rightarrow> string \<Rightarrow> h256 option" where
  "expected_hash P info = map_option (\<lambda>idx. hp_h256 P (trim (drop (idx + 9) info))) (find_sub ''expected:'' info)"

definition relay_message :: "http_api \<Rightarrow> submit_request \<Rightarrow> string \<Rightarrow> submit_error" where
  "relay_message P req info =
     (if info = ''submission for past slot'' then SubmissionForPastSlot
      else if info = ''invalid signature'' then InvalidSignature
      else if info = ''payload for this slot was already delivered'' then SlotWasAlreadyDelivered
      else if info = ''payload attributes not (yet) known'' then SlotNotKnown (bid_slot (sr_message req))
      else if info = ''simulation failed: proposer payment not successful'' then ProposerPaymentNotSuccessful
      else if info = ''fee recipient does not match'' then FeeRecipientNotMatch (bid_proposer_fee_recipient (sr_message req))
      else case (if starts_with ''incorrect prev_randao'' info then expected_hash P info else None) of
        Some hash \<Rightarrow> IncorrectPrevRandao hash
      | None \<Rightarrow>
          (case (if starts_with ''incorrect withdrawals root'' info then expected_hash P info else None) of
             Some hash \<Rightarrow> IncorrectWithdrawalsRoot hash
           | None \<Rightarrow> UnknownError info))"

definition submit_block :: "http_api \<Rightarrow> submit_request \<Rightarrow> http_error + u8 list \<Rightarrow> submit_error + unit" where
  "submit_block P req answer =
     (case answer of
        Inl HttpTimeout \<Rightarrow> Inl Timeout
      | Inl (HttpOther other) \<Rightarrow> Inl (UnknownError (''submit block fail '' @ other))
      | Inr data \<Rightarrow>
          if data = [] then Inr ()
          else (case hp_parse P data of
                  None \<Rightarrow> Inl (UnknownError (hp_utf8_lossy P data))
                | Some (JObject obj) \<Rightarrow>
                    if obj = [] then Inr ()
                    else (case map_of obj ''message'' of
                            Some (JString info) \<Rightarrow> Inl (relay_message P req info)
                          | _ \<Rightarrow> Inl (UnknownError (''unknown error: '' @ hp_utf8_lossy P data)))
                | Some _ \<Rightarrow> Inl (UnknownError (''unknown error: '' @ hp_utf8_lossy P data))))"

section \<open>The submitter\<close>

record checked_state =
  cst_slot :: u32
  cst_number :: u64
  cst_randao :: h256
  cst_withdrawal_root :: h256
  cst_passed :: "submit_error + unit"

text \<open>\<open>U64::as_u32\<close> panics on overflow.\<close>

definition as_u32 :: "u64 \<Rightarrow> u32 option" where
  "as_u32 v = (if v \<le> 4294967295 then Some (ucast v) else None)"

definition match_req :: "checked_state \<Rightarrow> submit_request \<Rightarrow> bool option" where
  "match_req c req =
     map_option (\<lambda>slot. cst_slot c = slot \<and> cst_number c = ep_block_number (sr_execution_payload req) \<and>
       cst_randao c = ep_prev_randao (sr_execution_payload req) \<and> cst_withdrawal_root c = sr_withdrawal_root req)
       (as_u32 (bid_slot (sr_message req)))"

record 'sk submitter =
  sm_name :: string
  sm_is_optimistic :: bool
  sm_signing_domain :: "u8 list"
  sm_test_key :: 'sk
  sm_checked_state :: "checked_state list"
  sm_history :: "(u64, u256) btree_map"

definition ends_with :: "string \<Rightarrow> string \<Rightarrow> bool" where
  "ends_with p s \<longleftrightarrow> starts_with (rev p) (rev s)"

definition submitter_new :: "string \<Rightarrow> u8 list \<Rightarrow> 'sk \<Rightarrow> 'sk submitter" where
  "submitter_new name signing_domain test_key =
     \<lparr>sm_name = name, sm_is_optimistic = ends_with ''_optim'' name, sm_signing_domain = signing_domain, sm_test_key = test_key,
      sm_checked_state = [], sm_history = []\<rparr>"

definition is_profit_smaller_than_history :: "'sk submitter \<Rightarrow> u64 \<Rightarrow> u256 \<Rightarrow> bool" where
  "is_profit_smaller_than_history s slot v = (case map_of (sm_history s) slot of Some val \<Rightarrow> v \<le> val | None \<Rightarrow> False)"

text \<open>The first entry that matches; the outer \<open>None\<close> is a panic of \<open>match_req\<close>.\<close>

fun checked :: "checked_state list \<Rightarrow> submit_request \<Rightarrow> checked_state option option" where
  "checked [] req = Some None"
| "checked (item # states) req =
     (case match_req item req of
        None \<Rightarrow> None
      | Some True \<Rightarrow> Some (Some item)
      | Some False \<Rightarrow> checked states req)"

datatype listen_action = Skip | Spawn submit_request bool | ListenPanic

definition precheck_request :: "'sk bls_api \<Rightarrow> 'sk submitter \<Rightarrow> submit_request \<Rightarrow> submit_request option" where
  "precheck_request H s req =
     (let message = (sr_message req)\<lparr>bid_builder_pubkey := bls_public H (sm_test_key s)\<rparr>
      in map_option (\<lambda>signature. req\<lparr>sr_message := message, sr_signature := signature\<rparr>)
           (bid_sign H (sm_signing_domain s) (sm_test_key s) message))"

definition listen_step :: "'sk bls_api \<Rightarrow> 'sk submitter \<Rightarrow> submit_request \<Rightarrow> listen_action" where
  "listen_step H s req =
     (case checked (sm_checked_state s) req of
        None \<Rightarrow> ListenPanic
      | Some found \<Rightarrow>
          let passed = map_option cst_passed found
          in if (case passed of Some (Inl _) \<Rightarrow> True | _ \<Rightarrow> False) then Skip
             else if is_profit_smaller_than_history s (bid_slot (sr_message req)) (bid_value (sr_message req)) then Skip
             else
               let is_passed = (case passed of Some (Inr _) \<Rightarrow> True | _ \<Rightarrow> False)
               in if sm_is_optimistic s \<and> \<not> is_passed
                  then (case precheck_request H s req of None \<Rightarrow> ListenPanic | Some req \<Rightarrow> Spawn req False)
                  else Spawn req (sm_is_optimistic s \<and> is_passed))"

text \<open>The end of a spawned thread.\<close>

definition history_record :: "u64 \<Rightarrow> u256 \<Rightarrow> (u64, u256) btree_map \<Rightarrow> (u64, u256) btree_map" where
  "history_record slot new_value history =
     (let history =
            (case map_of history slot of
               None \<Rightarrow> bt_insert slot new_value history
             | Some old_value \<Rightarrow> if old_value < new_value then bt_adjust slot (\<lambda>_. new_value) history else history)
      in if 0 < length history then snd (bt_pop_first history) else history)"

fun checked_record :: "submit_request \<Rightarrow> submit_error + unit \<Rightarrow> checked_state list \<Rightarrow> (bool \<times> checked_state list) option" where
  "checked_record req result [] = Some (False, [])"
| "checked_record req result (item # states) =
     (case match_req item req of
        None \<Rightarrow> None
      | Some True \<Rightarrow> Some (True, item\<lparr>cst_passed := result\<rparr> # states)
      | Some False \<Rightarrow> map_option (map_prod id ((#) item)) (checked_record req result states))"

definition checked_new :: "submit_request \<Rightarrow> submit_error + unit \<Rightarrow> checked_state option" where
  "checked_new req result =
     map_option (\<lambda>slot.
       \<lparr>cst_slot = slot, cst_number = ep_block_number (sr_execution_payload req), cst_randao = ep_prev_randao (sr_execution_payload req),
        cst_withdrawal_root = sr_withdrawal_root req, cst_passed = result\<rparr>)
       (as_u32 (bid_slot (sr_message req)))"

definition submit_done :: "submit_request \<Rightarrow> submit_error + unit \<Rightarrow> 'sk submitter \<Rightarrow> 'sk submitter option" where
  "submit_done req result s =
     (let s = s\<lparr>sm_history := history_record (bid_slot (sr_message req)) (bid_value (sr_message req)) (sm_history s)\<rparr> in
      do {
        (matched, states) \<leftarrow> checked_record req result (sm_checked_state s);
        if matched then Some (s\<lparr>sm_checked_state := states\<rparr>)
        else map_option (\<lambda>c. s\<lparr>sm_checked_state := trim_front 100 (states @ [c])\<rparr>) (checked_new req result)
      })"

section \<open>The submitter and its threads\<close>

record 'sk submitter_run =
  sn_submitter :: "'sk submitter"
  sn_flying :: "(submit_request \<times> bool) list"
  sn_answers :: "(submit_request \<times> (submit_error + unit)) list"

inductive submitter_step :: "'sk bls_api \<Rightarrow> 'sk submitter_run \<Rightarrow> 'sk submitter_run \<Rightarrow> bool" for H where
  listen: "listen_step H (sn_submitter n) req = Spawn req' optimistic \<Longrightarrow>
     submitter_step H n (n\<lparr>sn_flying := (req', optimistic) # sn_flying n\<rparr>)"
| answered: "(req, optimistic) \<in> set (sn_flying n) \<Longrightarrow> submit_done req result (sn_submitter n) = Some s \<Longrightarrow>
     submitter_step H n
       (n\<lparr>sn_submitter := s, sn_flying := remove1 (req, optimistic) (sn_flying n), sn_answers := (req, result) # sn_answers n\<rparr>)"

inductive submitter_reach :: "'sk bls_api \<Rightarrow> 'sk submitter_run \<Rightarrow> bool" for H where
  start: "submitter_reach H \<lparr>sn_submitter = submitter_new name domain test_key, sn_flying = [], sn_answers = []\<rparr>"
| step: "submitter_reach H n \<Longrightarrow> submitter_step H n n' \<Longrightarrow> submitter_reach H n'"

inductive_cases submitter_step_cases: "submitter_step H n n'"

section \<open>The history\<close>

text \<open>Every thread removes what it has just recorded, so the history never holds anything.\<close>

lemma history_record_empty [simp]: "history_record slot v [] = []"
  by (simp add: history_record_def bt_insert_def)

lemma submit_done_history: "submit_done req result s = Some s' \<Longrightarrow> sm_history s' = history_record (bid_slot (sr_message req)) (bid_value (sr_message req)) (sm_history s)"
  by (auto simp: submit_done_def Let_def bind_eq_Some_conv split: if_splits)

lemma submit_done_config: "submit_done req result s = Some s' \<Longrightarrow>
    sm_is_optimistic s' = sm_is_optimistic s \<and> sm_test_key s' = sm_test_key s \<and> sm_signing_domain s' = sm_signing_domain s"
  by (auto simp: submit_done_def Let_def bind_eq_Some_conv split: if_splits)

lemma submitter_history: "submitter_reach H n \<Longrightarrow> sm_history (sn_submitter n) = []"
proof (induction rule: submitter_reach.induct)
  case (step n n')
  from step.hyps(2) step.IH show ?case by (cases rule: submitter_step_cases) (auto dest: submit_done_history)
qed (simp add: submitter_new_def)

section \<open>The checked states\<close>

definition state_key :: "checked_state \<Rightarrow> u32 \<times> u64 \<times> h256 \<times> h256" where
  "state_key c = (cst_slot c, cst_number c, cst_randao c, cst_withdrawal_root c)"

definition req_key :: "submit_request \<Rightarrow> (u32 \<times> u64 \<times> h256 \<times> h256) option" where
  "req_key req = map_option (\<lambda>slot. (slot, ep_block_number (sr_execution_payload req), ep_prev_randao (sr_execution_payload req),
     sr_withdrawal_root req)) (as_u32 (bid_slot (sr_message req)))"

lemma match_req_key: "match_req c req = map_option (\<lambda>k. state_key c = k) (req_key req)"
  by (simp add: match_req_def req_key_def state_key_def option.map_comp comp_def)

lemma checked_Cons:
  "checked (item # states) req =
     (case req_key req of None \<Rightarrow> None | Some k \<Rightarrow> if state_key item = k then Some (Some item) else checked states req)"
  by (simp add: match_req_key split: option.splits bool.splits)

lemma checked_record_Cons:
  "checked_record req result (item # states) =
     (case req_key req of None \<Rightarrow> None
      | Some k \<Rightarrow> if state_key item = k then Some (True, item\<lparr>cst_passed := result\<rparr> # states)
                 else map_option (map_prod id ((#) item)) (checked_record req result states))"
  by (simp add: match_req_key split: option.splits bool.splits)

declare checked.simps(2) [simp del] checked_record.simps(2) [simp del]

lemma state_key_passed [simp]: "state_key (c\<lparr>cst_passed := r\<rparr>) = state_key c"
  by (simp add: state_key_def)

lemma checked_Some:
  "checked states req = Some (Some c) \<Longrightarrow> c \<in> set states \<and> req_key req = Some (state_key c)"
  by (induction states) (auto simp: checked_Cons simp del: split_paired_All split: option.splits if_splits)

lemma checked_record_keys: "checked_record req result states = Some (b, states') \<Longrightarrow> map state_key states' = map state_key states"
  by (induction states arbitrary: b states') (auto simp: checked_record_Cons split: option.splits if_splits)

lemma checked_record_False:
  "checked_record req result states = Some (False, states') \<Longrightarrow> states' = states \<and> (\<forall>c\<in>set states. req_key req \<noteq> Some (state_key c))"
  by (induction states arbitrary: states') (auto simp: checked_record_Cons split: option.splits if_splits)

lemma checked_record_entry:
  "checked_record req result states = Some (b, states') \<Longrightarrow> c \<in> set states' \<Longrightarrow>
   c \<in> set states \<or> (req_key req = Some (state_key c) \<and> cst_passed c = result)"
  by (induction states arbitrary: b states') (fastforce simp: checked_record_Cons split: option.splits if_splits)+

lemma checked_new_key: "checked_new req result = Some c \<Longrightarrow> req_key req = Some (state_key c) \<and> cst_passed c = result"
  by (auto simp: checked_new_def req_key_def state_key_def)

lemma submit_done_states:
  assumes "submit_done req result s = Some s'"
  obtains (updated) states where "checked_record req result (sm_checked_state s) = Some (True, states)" and "sm_checked_state s' = states"
  | (added) c where "checked_record req result (sm_checked_state s) = Some (False, sm_checked_state s)" and "checked_new req result = Some c"
      and "sm_checked_state s' = trim_front 100 (sm_checked_state s @ [c])"
proof -
  obtain b states where r: "checked_record req result (sm_checked_state s) = Some (b, states)"
    using assms by (auto simp: submit_done_def Let_def bind_eq_Some_conv)
  show thesis
  proof (cases b)
    case True
    with assms r show thesis by (intro updated [of states]) (auto simp: submit_done_def Let_def)
  next
    case False
    then have "states = sm_checked_state s" using r checked_record_False [of req result "sm_checked_state s" states] by simp
    with assms r False show thesis by (auto simp: submit_done_def Let_def intro: added)
  qed
qed

definition checked_inv :: "'sk submitter_run \<Rightarrow> bool" where
  "checked_inv n \<longleftrightarrow>
     distinct (map state_key (sm_checked_state (sn_submitter n))) \<and> length (sm_checked_state (sn_submitter n)) \<le> 100 \<and>
     (\<forall>c\<in>set (sm_checked_state (sn_submitter n)). \<exists>req. (req, cst_passed c) \<in> set (sn_answers n) \<and> req_key req = Some (state_key c))"

lemma set_trim_front: "x \<in> set (trim_front n xs) \<Longrightarrow> x \<in> set xs"
  by (auto simp: trim_front_drop dest: in_set_dropD)

lemma distinct_trim_front: "distinct (map f xs) \<Longrightarrow> distinct (map f (trim_front n xs))"
  by (simp add: trim_front_drop drop_map [symmetric])

lemma submit_done_inv:
  assumes "checked_inv n" and run: "submit_done req result (sn_submitter n) = Some s"
  shows "checked_inv (n\<lparr>sn_submitter := s, sn_flying := flying, sn_answers := (req, result) # sn_answers n\<rparr>)"
  using run
proof (cases rule: submit_done_states)
  case (updated states)
  note keys = checked_record_keys [OF updated(1)]
  then have "length states = length (sm_checked_state (sn_submitter n))" by (metis length_map)
  with assms(1) updated keys checked_record_entry [OF updated(1)] show ?thesis by (fastforce simp: checked_inv_def)
next
  case (added c)
  note key = checked_new_key [OF added(2)] and new = checked_record_False [OF added(1)]
  have "distinct (map state_key (sm_checked_state (sn_submitter n) @ [c]))"
    using assms(1) key new by (auto simp: checked_inv_def)
  moreover have "\<exists>r. (r, cst_passed d) \<in> set ((req, result) # sn_answers n) \<and> req_key r = Some (state_key d)"
    if "d \<in> set (sm_checked_state (sn_submitter n) @ [c])" for d
    using that assms(1) key by (auto simp: checked_inv_def)
  moreover have "length (sm_checked_state s) \<le> 100" unfolding added(3) by (rule front.loop_bounded) simp
  ultimately show ?thesis
    using distinct_trim_front [of state_key _ 100] set_trim_front [of _ 100 "sm_checked_state (sn_submitter n) @ [c]"]
    unfolding checked_inv_def by (simp del: set_append map_append add: added(3))
qed

lemma submitter_checked: "submitter_reach H n \<Longrightarrow> checked_inv n"
proof (induction rule: submitter_reach.induct)
  case (step n n')
  from step.hyps(2) show ?case
  proof (cases rule: submitter_step.cases)
    case (answered req optimistic result s)
    with submit_done_inv step.IH show ?thesis by blast
  qed (use step.IH in \<open>simp add: checked_inv_def\<close>)
qed (simp add: checked_inv_def submitter_new_def)

lemma listen_step_Spawn:
  assumes "listen_step H s req = Spawn req' optimistic"
  obtains (direct) "\<not> sm_is_optimistic s" and "req' = req" and "\<not> optimistic"
  | (passed) c where "c \<in> set (sm_checked_state s)" and "req_key req = Some (state_key c)" and "cst_passed c = Inr ()"
      and "req' = req" and "optimistic"
  | (precheck) "sm_is_optimistic s" and "precheck_request H s req = Some req'" and "\<not> optimistic"
proof -
  obtain found where f: "checked (sm_checked_state s) req = Some found"
    using assms by (auto simp: listen_step_def split: option.splits)
  show thesis
  proof (cases "map_option cst_passed found")
    case None
    with assms f direct precheck show thesis
      by (auto simp: listen_step_def Let_def split: option.splits if_splits)
  next
    case (Some r)
    then obtain c where c: "found = Some c" "cst_passed c = r" by auto
    with checked_Some f have "c \<in> set (sm_checked_state s)" "req_key req = Some (state_key c)" by auto
    with assms f c direct passed show thesis
      by (cases r) (auto simp: listen_step_def Let_def split: if_splits)
  qed
qed

text \<open>C30: An optimistic relay gets a request under the builder's own key only after it accepted a request for the same slot,
  block number, randomness and withdrawals; until then the requests carry the test key and its signature.\<close>

theorem submitter_precheck:
  assumes "submitter_reach H n" and "sm_is_optimistic (sn_submitter n)" and "(req, optimistic) \<in> set (sn_flying n)"
  shows "if optimistic then \<exists>earlier. (earlier, Inr ()) \<in> set (sn_answers n) \<and> req_key earlier = req_key req
    else bid_builder_pubkey (sr_message req) = bls_public H (sm_test_key (sn_submitter n)) \<and>
      bid_sign H (sm_signing_domain (sn_submitter n)) (sm_test_key (sn_submitter n)) (sr_message req) = Some (sr_signature req)"
  using assms
proof (induction arbitrary: req optimistic rule: submitter_reach.induct)
  case (step n n')
  from step.hyps(2) show ?case
  proof (cases rule: submitter_step.cases)
    case (listen r r' o')
    show ?thesis
    proof (cases "(req, optimistic) \<in> set (sn_flying n)")
      case True
      with step.IH step.prems listen show ?thesis by simp
    next
      case False
      then have new: "req = r'" "optimistic = o'" using step.prems listen by auto
      from listen(2) show ?thesis
      proof (cases rule: listen_step_Spawn)
        case (passed c)
        then show ?thesis using submitter_checked [OF step.hyps(1)] new listen(1) by (fastforce simp: checked_inv_def)
      qed (use new step.prems listen in \<open>auto simp: precheck_request_def Let_def\<close>)
    qed
  next
    case (answered r o' result s)
    have "(req, optimistic) \<in> set (sn_flying n)" using step.prems answered(1) by (auto dest: set_remove1_subset [THEN subsetD])
    moreover have "sm_is_optimistic (sn_submitter n)" using step.prems(1) answered(1) submit_done_config [OF answered(3)] by simp
    ultimately show ?thesis using step.IH [of req optimistic] answered(1) submit_done_config [OF answered(3)]
      by (cases optimistic) (simp_all, blast)
  qed
qed simp

section \<open>The memory\<close>

text \<open>The last answer to a request for a state, and the states that were ever answered; the answers are kept with the newest first.\<close>

definition last_answer :: "(u32 \<times> u64 \<times> h256 \<times> h256) \<Rightarrow> (submit_request \<times> (submit_error + unit)) list \<Rightarrow> (submit_error + unit) option" where
  "last_answer k answers = map_option snd (find (\<lambda>(req, _). req_key req = Some k) answers)"

definition answered_keys :: "(submit_request \<times> (submit_error + unit)) list \<Rightarrow> (u32 \<times> u64 \<times> h256 \<times> h256) set" where
  "answered_keys answers = {k. last_answer k answers \<noteq> None}"

lemma last_answer_Cons [simp]:
  "last_answer k ((req, result) # answers) = (if req_key req = Some k then Some result else last_answer k answers)"
  by (simp add: last_answer_def)

lemma answered_keys_Cons: "answered_keys ((req, result) # answers) = set_option (req_key req) \<union> answered_keys answers"
  by (auto simp: answered_keys_def)

lemma finite_answered_keys: "finite (answered_keys answers)"
proof (induction answers)
  case Nil
  then show ?case by (simp add: answered_keys_def last_answer_def)
next
  case (Cons a answers)
  then show ?case by (cases a) (simp add: answered_keys_Cons)
qed

lemma answered_keys_grow: "card (answered_keys answers) \<le> card (answered_keys ((req, result) # answers))"
  by (rule card_mono [OF finite_answered_keys]) (auto simp: answered_keys_Cons)

text \<open>An answer to a remembered state goes to that state and to no other.\<close>

lemma checked_record_True:
  assumes "checked_record req result states = Some (True, states')" and "distinct (map state_key states)"
  shows "\<exists>k. req_key req = Some k \<and> k \<in> state_key ` set states \<and>
    states' = map (\<lambda>c. if state_key c = k then c\<lparr>cst_passed := result\<rparr> else c) states"
  using assms
proof (induction states arbitrary: states')
  case (Cons c states)
  then obtain k where k: "req_key req = Some k" by (auto simp: checked_record_Cons split: option.splits)
  show ?case
  proof (cases "state_key c = k")
    case True
    then have "map (\<lambda>d. if state_key d = k then d\<lparr>cst_passed := result\<rparr> else d) states = states"
      using Cons.prems(2) by (intro map_idI) (metis True distinct.simps(2) image_eqI list.set_map list.simps(9))
    then show ?thesis using True Cons.prems(1) k by (simp add: checked_record_Cons)
  next
    case False
    then show ?thesis using Cons k by (auto simp: checked_record_Cons)
  qed
qed simp

text \<open>What is remembered of a state is the last answer for it, and with room for all of them no state is forgotten.\<close>

definition memory_inv :: "'sk submitter_run \<Rightarrow> bool" where
  "memory_inv n \<longleftrightarrow>
     (\<forall>c \<in> set (sm_checked_state (sn_submitter n)). last_answer (state_key c) (sn_answers n) = Some (cst_passed c)) \<and>
     (card (answered_keys (sn_answers n)) \<le> 100 \<longrightarrow>
        answered_keys (sn_answers n) \<subseteq> state_key ` set (sm_checked_state (sn_submitter n)))"

lemma submit_done_memory:
  assumes inv: "checked_inv n" "memory_inv n" and run: "submit_done req result (sn_submitter n) = Some s"
  shows "memory_inv (n\<lparr>sn_submitter := s, sn_flying := flying, sn_answers := (req, result) # sn_answers n\<rparr>)"
  using run
proof (cases rule: submit_done_states)
  case (updated states)
  let ?old = "sm_checked_state (sn_submitter n)"
  obtain k where k: "req_key req = Some k" "k \<in> state_key ` set ?old"
    and states: "states = map (\<lambda>c. if state_key c = k then c\<lparr>cst_passed := result\<rparr> else c) ?old"
    using checked_record_True [OF updated(1)] inv(1) unfolding checked_inv_def by blast
  have keys: "state_key ` set states = state_key ` set ?old"
    using checked_record_keys [OF updated(1)] by (metis list.set_map)
  have "last_answer (state_key c) ((req, result) # sn_answers n) = Some (cst_passed c)" if "c \<in> set states" for c
  proof -
    obtain d where "d \<in> set ?old" "c = (if state_key d = k then d\<lparr>cst_passed := result\<rparr> else d)" using \<open>c \<in> set states\<close> by (auto simp: states)
    then show ?thesis using inv(2) k(1) by (cases "state_key d = k") (simp_all add: memory_inv_def)
  qed
  moreover have "answered_keys ((req, result) # sn_answers n) \<subseteq> state_key ` set states"
    if "card (answered_keys ((req, result) # sn_answers n)) \<le> 100"
  proof -
    have "card (answered_keys (sn_answers n)) \<le> 100" using le_trans [OF answered_keys_grow that] .
    then show ?thesis using inv(2) k unfolding keys memory_inv_def answered_keys_Cons by simp
  qed
  ultimately show ?thesis by (simp add: memory_inv_def updated(2))
next
  case (added c)
  note key = checked_new_key [OF added(2)] and new = checked_record_False [OF added(1)]
  let ?old = "sm_checked_state (sn_submitter n)"
  have last: "last_answer (state_key d) ((req, result) # sn_answers n) = Some (cst_passed d)" if "d \<in> set (?old @ [c])" for d
    using that inv(2) key new by (auto simp: memory_inv_def)
  have "sm_checked_state s = ?old @ [c]" if room: "card (answered_keys ((req, result) # sn_answers n)) \<le> 100"
  proof -
    have "distinct (map state_key (?old @ [c]))" using inv(1) key new by (auto simp: checked_inv_def)
    then have "length (?old @ [c]) = card (state_key ` set (?old @ [c]))" by (metis distinct_card length_map list.set_map)
    moreover have "state_key ` set (?old @ [c]) \<subseteq> answered_keys ((req, result) # sn_answers n)"
      using last unfolding answered_keys_def by blast
    then have "card (state_key ` set (?old @ [c])) \<le> card (answered_keys ((req, result) # sn_answers n))"
      by (rule card_mono [OF finite_answered_keys])
    ultimately show ?thesis using room by (simp add: added(3) trim_front_drop)
  qed
  moreover have "answered_keys ((req, result) # sn_answers n) \<subseteq> state_key ` set (?old @ [c])"
    if "card (answered_keys ((req, result) # sn_answers n)) \<le> 100"
  proof -
    have "card (answered_keys (sn_answers n)) \<le> 100" using le_trans [OF answered_keys_grow that] .
    then show ?thesis using inv(2) key unfolding memory_inv_def answered_keys_Cons by auto
  qed
  moreover have "last_answer (state_key d) ((req, result) # sn_answers n) = Some (cst_passed d)" if "d \<in> set (sm_checked_state s)" for d
    using that last set_trim_front [of d 100 "?old @ [c]"] unfolding added(3) by blast
  ultimately show ?thesis by (simp add: memory_inv_def)
qed

lemma submitter_memory_inv: "submitter_reach H n \<Longrightarrow> memory_inv n"
proof (induction rule: submitter_reach.induct)
  case (step n n')
  from step.hyps(2) show ?case
  proof (cases rule: submitter_step.cases)
    case (answered req optimistic result s)
    with submit_done_memory [OF submitter_checked [OF step.hyps(1)] step.IH] show ?thesis by blast
  qed (use step.IH in \<open>simp add: memory_inv_def\<close>)
qed (simp add: memory_inv_def submitter_new_def answered_keys_def last_answer_def)

lemma checked_lookup:
  "distinct (map state_key states) \<Longrightarrow> req_key req = Some k \<Longrightarrow> checked states req = Some (find (\<lambda>c. state_key c = k) states)"
  by (induction states) (auto simp: checked_Cons)

text \<open>C33: The submitter remembers at most 100 states, each once and with the last answer that came for it, and its history of
  values is always empty, so that no request is skipped for a smaller value.  A request is skipped only if the last answer
  for its state was an error; as long as at most 100 states were answered, so that none was forgotten, exactly these are skipped.\<close>

theorem submitter_memory:
  assumes "submitter_reach H n"
  shows "length (sm_checked_state (sn_submitter n)) \<le> 100 \<and> distinct (map state_key (sm_checked_state (sn_submitter n))) \<and>
    sm_history (sn_submitter n) = [] \<and>
    (\<forall>c \<in> set (sm_checked_state (sn_submitter n)). last_answer (state_key c) (sn_answers n) = Some (cst_passed c)) \<and>
    (listen_step H (sn_submitter n) req = Skip \<longrightarrow> (\<exists>k err. req_key req = Some k \<and> last_answer k (sn_answers n) = Some (Inl err))) \<and>
    (card (answered_keys (sn_answers n)) \<le> 100 \<longrightarrow> req_key req = Some k \<longrightarrow> last_answer k (sn_answers n) = Some (Inl err) \<longrightarrow>
       listen_step H (sn_submitter n) req = Skip)"
proof -
  note inv = submitter_checked [OF assms] submitter_memory_inv [OF assms]
  have "\<not> is_profit_smaller_than_history (sn_submitter n) slot v" for slot v
    by (simp add: is_profit_smaller_than_history_def submitter_history [OF assms])
  then have skip: "listen_step H (sn_submitter n) req = Skip \<longleftrightarrow>
      (\<exists>c err. checked (sm_checked_state (sn_submitter n)) req = Some (Some c) \<and> cst_passed c = Inl err)"
    by (auto simp: listen_step_def Let_def split: option.splits sum.splits if_splits)
  have "\<exists>k err. req_key req = Some k \<and> last_answer k (sn_answers n) = Some (Inl err)" if "listen_step H (sn_submitter n) req = Skip"
    using that inv(2) checked_Some unfolding skip memory_inv_def by metis
  moreover have "listen_step H (sn_submitter n) req = Skip"
    if room: "card (answered_keys (sn_answers n)) \<le> 100" and k: "req_key req = Some k" and err: "last_answer k (sn_answers n) = Some (Inl err)"
  proof -
    have "k \<in> state_key ` set (sm_checked_state (sn_submitter n))" using inv(2) room err by (auto simp: memory_inv_def answered_keys_def)
    then obtain c where c: "find (\<lambda>c. state_key c = k) (sm_checked_state (sn_submitter n)) = Some c" "c \<in> set (sm_checked_state (sn_submitter n))" "state_key c = k"
      by (metis (mono_tags, lifting) find_None_iff find_Some_iff imageE nth_mem option.exhaust)
    then have "cst_passed c = Inl err" using inv(2) err by (auto simp: memory_inv_def)
    then show ?thesis using checked_lookup [OF _ k] inv(1) c(1) unfolding skip checked_inv_def by auto
  qed
  ultimately show ?thesis using inv submitter_history [OF assms] by (simp add: checked_inv_def memory_inv_def)
qed

section \<open>A concrete submitter\<close>

definition demo_submitter :: "nat submitter" where
  "demo_submitter = submitter_new ''x_optim'' [1] 9"

definition demo_submit :: submit_request where
  "demo_submit =
     \<lparr>sr_signature = [3],
      sr_message = \<lparr>bid_slot = 7, bid_parent_hash = 1, bid_block_hash = 200, bid_builder_pubkey = [3], bid_proposer_pubkey = [4],
        bid_proposer_fee_recipient = 5, bid_gas_limit = 30000000, bid_gas_used = 21000, bid_value = 1000\<rparr>,
      sr_execution_payload =
        \<lparr>ep_parent_hash = 1, ep_fee_recipient = 6, ep_state_root = 8, ep_receipts_root = 9, ep_prev_randao = 3, ep_logs_bloom = [],
         ep_block_number = 100, ep_gas_limit = 30000000, ep_gas_used = 21000, ep_timestamp = 12, ep_extra_data = [],
         ep_base_fee_per_gas = 7, ep_block_hash = 200, ep_transactions = [], ep_withdrawals = []\<rparr>,
      sr_withdrawal_root = 10\<rparr>"

definition demo_precheck :: submit_request where
  "demo_precheck = demo_submit\<lparr>sr_message := (sr_message demo_submit)\<lparr>bid_builder_pubkey := bls_public demo_bls 9\<rparr>, sr_signature := 9 # be_bytes 32 2\<rparr>"

definition demo_checked :: checked_state where
  "demo_checked = \<lparr>cst_slot = 7, cst_number = 100, cst_randao = 3, cst_withdrawal_root = 10, cst_passed = Inr ()\<rparr>"

definition demo_accepted :: "nat submitter" where
  "demo_accepted = demo_submitter\<lparr>sm_checked_state := [demo_checked]\<rparr>"

lemma demo_precheck_step: "listen_step demo_bls demo_submitter demo_submit = Spawn demo_precheck False"
  by (simp add: listen_step_def demo_submitter_def submitter_new_def is_profit_smaller_than_history_def ends_with_def starts_with_def
    precheck_request_def bid_sign_def sign_hash_root_def bid_trace_tree_def signing_data_tree_def demo_bls_def demo_precheck_def Let_def numeral_2_eq_2)

lemma demo_answer: "submit_done demo_precheck (Inr ()) demo_submitter = Some demo_accepted"
  by (simp add: submit_done_def demo_submitter_def submitter_new_def demo_accepted_def demo_checked_def checked_new_def as_u32_def
    demo_precheck_def demo_submit_def Let_def)

lemma demo_accepted_state: "sm_is_optimistic demo_accepted" "sm_checked_state demo_accepted = [demo_checked]" "cst_passed demo_checked = Inr ()"
  by (simp_all add: demo_accepted_def demo_submitter_def submitter_new_def ends_with_def starts_with_def demo_checked_def)

lemma demo_found: "checked [demo_checked] demo_submit = Some (Some demo_checked)"
  by (simp add: checked_Cons req_key_def state_key_def demo_checked_def demo_submit_def as_u32_def)

lemma demo_second: "listen_step demo_bls demo_accepted demo_submit = Spawn demo_submit True"
  by (simp add: listen_step_def demo_accepted_state demo_found is_profit_smaller_than_history_def)
    (simp add: demo_accepted_def demo_submitter_def submitter_new_def)

text \<open>The precheck is sent and accepted, then the request itself is sent.\<close>

lemma demo_reach1:
  "submitter_reach demo_bls \<lparr>sn_submitter = demo_accepted, sn_flying = [(demo_submit, True)], sn_answers = [(demo_precheck, Inr ())]\<rparr>"
proof -
  let ?n0 = "\<lparr>sn_submitter = demo_submitter, sn_flying = [], sn_answers = []\<rparr>"
  let ?n1 = "\<lparr>sn_submitter = demo_submitter, sn_flying = [(demo_precheck, False)], sn_answers = []\<rparr>"
  let ?n2 = "\<lparr>sn_submitter = demo_accepted, sn_flying = [], sn_answers = [(demo_precheck, Inr ())]\<rparr>"
  have "submitter_reach demo_bls ?n0" unfolding demo_submitter_def by (rule submitter_reach.start)
  moreover from demo_precheck_step submitter_step.listen [of demo_bls ?n0 demo_submit demo_precheck False] have "submitter_step demo_bls ?n0 ?n1" by simp
  ultimately have 1: "submitter_reach demo_bls ?n1" by (rule submitter_reach.step)
  from demo_answer submitter_step.answered [of demo_precheck False ?n1 "Inr ()" demo_accepted demo_bls] have "submitter_step demo_bls ?n1 ?n2" by simp
  with 1 have 2: "submitter_reach demo_bls ?n2" by (rule submitter_reach.step)
  from demo_second submitter_step.listen [of demo_bls ?n2 demo_submit demo_submit True]
  have "submitter_step demo_bls ?n2 \<lparr>sn_submitter = demo_accepted, sn_flying = [(demo_submit, True)], sn_answers = [(demo_precheck, Inr ())]\<rparr>"
    by simp
  with 2 show ?thesis by (rule submitter_reach.step)
qed

theorem submitter_precheck_witness:
  "\<exists>earlier. (earlier, Inr ()) \<in> set [(demo_precheck, Inr () :: submit_error + unit)] \<and> req_key earlier = req_key demo_submit"
  using submitter_precheck [OF demo_reach1, of demo_submit True] demo_accepted_state(1) by simp

text \<open>The relay then refuses the request itself: the remembered state turns to the error, and the next request for it is skipped.\<close>

definition demo_refused :: "nat submitter" where
  "demo_refused = demo_submitter\<lparr>sm_checked_state := [demo_checked\<lparr>cst_passed := Inl SlotWasAlreadyDelivered\<rparr>]\<rparr>"

lemma demo_refusal: "submit_done demo_submit (Inl SlotWasAlreadyDelivered) demo_accepted = Some demo_refused"
  by (simp add: submit_done_def demo_accepted_def demo_refused_def checked_record_Cons req_key_def state_key_def demo_checked_def
    demo_submit_def as_u32_def Let_def demo_submitter_def submitter_new_def)

lemma demo_reach2:
  "submitter_reach demo_bls \<lparr>sn_submitter = demo_refused, sn_flying = [],
     sn_answers = [(demo_submit, Inl SlotWasAlreadyDelivered), (demo_precheck, Inr ())]\<rparr>"
  using submitter_reach.step [OF demo_reach1 submitter_step.answered [where req = demo_submit and optimistic = True and s = demo_refused
    and result = "Inl SlotWasAlreadyDelivered"]] demo_refusal by simp

theorem submitter_memory_witness:
  "length (sm_checked_state demo_refused) = 1 \<and> sm_history demo_refused = [] \<and> listen_step demo_bls demo_refused demo_submit = Skip"
proof -
  let ?answers = "[(demo_submit, Inl SlotWasAlreadyDelivered), (demo_precheck, Inr ())] :: (submit_request \<times> (submit_error + unit)) list"
  have key: "req_key demo_submit = Some (7, 100, 3, 10)" by (simp add: req_key_def demo_submit_def as_u32_def)
  then have "req_key demo_precheck = Some (7, 100, 3, 10)" by (simp add: req_key_def demo_precheck_def)
  with key have "card (answered_keys ?answers) \<le> 100" by (simp add: answered_keys_Cons) (simp add: answered_keys_def last_answer_def)
  with key submitter_memory [OF demo_reach2, of demo_submit "(7, 100, 3, 10)" SlotWasAlreadyDelivered]
  show ?thesis by (simp add: demo_refused_def)
qed

end
