(* ===== verification/Precompile.thy ===== *)
theory Precompile
  imports Ordered_Map Bytes
begin

text \<open>
  The precompiled contracts: \<open>src/common/evm_executor/src/precompile.rs\<close>.

  A contract gives the gas it requires and its result for an input; \<open>None\<close> and \<open>Panic\<close> stand for a
  panic.  The crates it calls are parameters: the hashes and the signature recovery (\<open>crypto_api\<close>), the
  curve (\<open>bn_api\<close>), the unbounded integers of \<open>num_bigint\<close> (\<open>big_api\<close>), and the handle of the EVM
  (\<open>handle_api\<close>).  \<open>lawful_big\<close>, \<open>lawful_hashes\<close> and \<open>lawful_field\<close> say what the properties need of them.
\<close>

section \<open>The crates\<close>

record crypto_api =
  cr_ecdsa_recover :: "u8 list \<Rightarrow> u8 list \<Rightarrow> u8 list option"
  cr_keccak_hash :: "u8 list \<Rightarrow> u8 list"
  cr_sha256_sum :: "u8 list \<Rightarrow> u8 list"
  cr_ripemd160 :: "u8 list \<Rightarrow> u8 list"

record ('fq, 'fr, 'fq2, 'g1, 'g2, 'gt) bn_api =
  fq_from_slice :: "u8 list \<Rightarrow> 'fq option"
  fr_from_slice :: "u8 list \<Rightarrow> 'fr option"
  fq_is_zero :: "'fq \<Rightarrow> bool"
  fq_u256_be :: "'fq \<Rightarrow> u8 list option"
  fq_be :: "'fq \<Rightarrow> u8 list option"
  fq2_new :: "'fq \<Rightarrow> 'fq \<Rightarrow> 'fq2"
  fq2_is_zero :: "'fq2 \<Rightarrow> bool"
  g1_zero :: 'g1
  g1_new :: "'fq \<Rightarrow> 'fq \<Rightarrow> 'g1 option"
  g1_add :: "'g1 \<Rightarrow> 'g1 \<Rightarrow> 'g1"
  g1_mul :: "'g1 \<Rightarrow> 'fr \<Rightarrow> 'g1"
  g1_affine :: "'g1 \<Rightarrow> ('fq \<times> 'fq) option"
  g2_zero :: 'g2
  g2_new :: "'fq2 \<Rightarrow> 'fq2 \<Rightarrow> 'g2 option"
  gt_one :: 'gt
  gt_mul :: "'gt \<Rightarrow> 'gt \<Rightarrow> 'gt"
  pairing :: "'g1 \<Rightarrow> 'g2 \<Rightarrow> 'gt"

record 'n big_api =
  big_from_bytes_be :: "u8 list \<Rightarrow> 'n"
  big_to_bytes_be :: "'n \<Rightarrow> u8 list"
  big_modpow :: "'n \<Rightarrow> 'n \<Rightarrow> 'n \<Rightarrow> 'n option"

datatype 'f precompile_failure = FatalNotSupportedCall | Failure 'f

record ('h, 'f) handle_api =
  hd_code_address :: "'h \<Rightarrow> h160"
  hd_input :: "'h \<Rightarrow> u8 list"
  hd_record_cost :: "u64 \<Rightarrow> 'h \<Rightarrow> ('f + unit) \<times> 'h"

record ('fq, 'fr, 'fq2, 'g1, 'g2, 'gt, 'n) crates =
  ct_crypto :: crypto_api
  ct_bn :: "('fq, 'fr, 'fq2, 'g1, 'g2, 'gt) bn_api"
  ct_big :: "'n big_api"

section \<open>The contracts\<close>

datatype precompile =
    PrecompileUnimplemented u8
  | PrecompileEcrecover
  | PrecompileSha256Hash
  | PrecompileRipemd160Hash
  | PrecompileDataCopy
  | PrecompileBigModExp bool
  | PrecompileAddIstanbul
  | PrecompileMulIstanbul
  | PrecompilePairIstanbul

definition calculate_gas :: "u8 list \<Rightarrow> u64 \<Rightarrow> u64 \<Rightarrow> u64" where
  "calculate_gas input per_word_gas base_gas = (word_of_nat (length input) + 31) div 32 * per_word_gas + base_gas"

text \<open>\<open>read_point\<close>: two field elements, both zero for the point at infinity.\<close>

definition read_point :: "('fq, 'fr, 'fq2, 'g1, 'g2, 'gt) bn_api \<Rightarrow> u8 list \<Rightarrow> u64 \<Rightarrow> 'g1 option" where
  "read_point N input pos =
     do {
       px_buf \<leftarrow> slice input pos (pos + 32);
       px \<leftarrow> fq_from_slice N px_buf;
       py_buf \<leftarrow> slice input (pos + 32) (pos + 64);
       py \<leftarrow> fq_from_slice N py_buf;
       if fq_is_zero N px \<and> fq_is_zero N py then Some (g1_zero N) else g1_new N px py
     }"

definition add_run :: "('fq, 'fr, 'fq2, 'g1, 'g2, 'gt) bn_api \<Rightarrow> u8 list \<Rightarrow> u8 list option" where
  "add_run N input =
     (let input = resize 128 input in
      do {
        p1 \<leftarrow> read_point N input 0;
        p2 \<leftarrow> read_point N input 64;
        (case g1_affine N (g1_add N p1 p2) of
           None \<Rightarrow> Some (replicate 64 0)
         | Some (x, y) \<Rightarrow> do { xb \<leftarrow> fq_u256_be N x; yb \<leftarrow> fq_u256_be N y; Some (xb @ yb) })
      })"

definition mul_run :: "('fq, 'fr, 'fq2, 'g1, 'g2, 'gt) bn_api \<Rightarrow> u8 list \<Rightarrow> u8 list option" where
  "mul_run N input =
     (let input = resize 128 input in
      do {
        p \<leftarrow> read_point N input 0;
        fr_buf \<leftarrow> slice input 64 96;
        fr \<leftarrow> fr_from_slice N fr_buf;
        (case g1_affine N (g1_mul N p fr) of
           None \<Rightarrow> Some (replicate 64 0)
         | Some (x, y) \<Rightarrow> do { xb \<leftarrow> fq_be N x; yb \<leftarrow> fq_be N y; Some (xb @ yb) })
      })"

text \<open>The element of index \<open>idx\<close> of a pairing input.\<close>

definition pair_element :: "('fq, 'fr, 'fq2, 'g1, 'g2, 'gt) bn_api \<Rightarrow> u8 list \<Rightarrow> u64 \<Rightarrow> ('g1 \<times> 'g2) option" where
  "pair_element N input idx =
     (let read = (\<lambda>off. Option.bind (slice input (idx * 192 + off) (idx * 192 + off + 32)) (fq_from_slice N)) in
      do {
        ax \<leftarrow> read 0; ay \<leftarrow> read 32;
        bay \<leftarrow> read 64; bax \<leftarrow> read 96;
        bby \<leftarrow> read 128; bbx \<leftarrow> read 160;
        a \<leftarrow> (if fq_is_zero N ax \<and> fq_is_zero N ay then Some (g1_zero N) else g1_new N ax ay);
        b \<leftarrow> (let ba = fq2_new N bax bay; bb = fq2_new N bbx bby
             in if fq2_is_zero N ba \<and> fq2_is_zero N bb then Some (g2_zero N) else g2_new N ba bb);
        Some (a, b)
      })"

text \<open>The loop over \<open>elements\<close> elements from \<open>idx\<close> on.\<close>

fun pair_elements :: "('fq, 'fr, 'fq2, 'g1, 'g2, 'gt) bn_api \<Rightarrow> u8 list \<Rightarrow> nat \<Rightarrow> nat \<Rightarrow> ('g1 \<times> 'g2) list option" where
  "pair_elements N input idx 0 = Some []"
| "pair_elements N input idx (Suc n) =
     do { v \<leftarrow> pair_element N input (word_of_nat idx); vs \<leftarrow> pair_elements N input (Suc idx) n; Some (v # vs) }"

definition pair_run :: "('fq, 'fr, 'fq2, 'g1, 'g2, 'gt) bn_api \<Rightarrow> u8 list \<Rightarrow> u8 list option" where
  "pair_run N input =
     (if length input mod 192 \<noteq> 0 then None
      else map_option (be_bytes 32)
        (if input = [] then Some 1
         else map_option
           (\<lambda>vals. if foldl (\<lambda>s (a, b). gt_mul N s (pairing N a b)) (gt_one N) vals = gt_one N then 1 else 0)
           (pair_elements N input 0 (length input div 192))))"

definition ecrecover_run :: "crypto_api \<Rightarrow> u8 list \<Rightarrow> u8 list" where
  "ecrecover_run C i =
     (let input = resize 128 i;
          msg = take 32 input;
          sig = take 32 (drop 64 input) @ take 32 (drop 96 input) @ [input ! 63]
      in case cr_ecdsa_recover C sig msg of
           None \<Rightarrow> []
         | Some pubkey \<Rightarrow> replicate 12 0 @ drop 12 (cr_keccak_hash C pubkey))"

definition sha256_run :: "crypto_api \<Rightarrow> u8 list \<Rightarrow> u8 list" where
  "sha256_run C input = cr_sha256_sum C input"

definition data_copy_run :: "u8 list \<Rightarrow> u8 list" where
  "data_copy_run input = input"

text \<open>\<open>copy_from_slice\<close> panics unless the digest has 20 bytes.\<close>

definition ripemd_run :: "crypto_api \<Rightarrow> u8 list \<Rightarrow> u8 list option" where
  "ripemd_run C input =
     (let output = cr_ripemd160 C input
      in if length output = 20 then Some (replicate 12 0 @ output) else None)"

text \<open>The exponent's leading bytes: from the input after the three lengths, if there is any after the base.\<close>

definition modexp_exp_head :: "u8 list \<Rightarrow> u64 \<Rightarrow> u64 \<Rightarrow> u256 option" where
  "modexp_exp_head input base_len exp_len =
     (if length input \<le> unat base_len then Some 0
      else if 32 < exp_len then Option.bind (slice input base_len (base_len + 32)) u256_from_slice
      else Option.bind (slice input base_len (base_len + exp_len)) u256_from_slice)"

text \<open>The price, from the larger length and the number of iterations.\<close>

definition modexp_cost :: "u64 \<Rightarrow> u64 \<Rightarrow> u64 option" where
  "modexp_cost len adj_exp_len =
     do {
       gas \<leftarrow> chk_add (ucast len :: u256) 7;
       gas \<leftarrow> chk_div gas 8;
       gas \<leftarrow> chk_mul gas gas;
       gas \<leftarrow> chk_mul gas (ucast (max adj_exp_len 1));
       gas \<leftarrow> chk_div gas 3;
       Some (if 64 < bit_len (unat gas) then - 1 else if gas < 200 then 200 else ucast gas)
     }"

definition modexp_required_gas :: "bool \<Rightarrow> u8 list \<Rightarrow> u64 option" where
  "modexp_required_gas eip2565 input =
     (let data = pad_to 96 input in
      do {
        base_len \<leftarrow> Option.bind (u256_from_slice (take 32 data)) as_usize;
        exp_len \<leftarrow> Option.bind (u256_from_slice (take 32 (drop 32 data))) as_usize;
        mod_len \<leftarrow> Option.bind (u256_from_slice (take 32 (drop 64 data))) as_usize;
        exp_head \<leftarrow> modexp_exp_head (drop 96 input) base_len exp_len;
        let msb = (word_of_nat (bit_len (unat exp_head) - 1) :: u64);
        let adj_exp_len = (if 32 < exp_len then (exp_len - 32) * 8 else 0) + msb;
        if eip2565 then modexp_cost (max mod_len base_len) adj_exp_len else None
      })"

text \<open>\<open>n\<close> bytes from \<open>start\<close>, with zeros behind the end; the index wraps.\<close>

definition read_padded :: "u8 list \<Rightarrow> u64 \<Rightarrow> u64 \<Rightarrow> u8 list" where
  "read_padded data start n =
     map (\<lambda>i. let j = unat (start + word_of_nat i) in if length data \<le> j then 0 else data ! j) [0..<unat n]"

definition modexp_run :: "'n big_api \<Rightarrow> u8 list \<Rightarrow> u8 list option" where
  "modexp_run G input =
     (let data = pad_to 96 input in
      do {
        base_length \<leftarrow> Option.bind (u256_from_slice (take 32 data)) as_usize;
        exponent_length \<leftarrow> Option.bind (u256_from_slice (take 32 (drop 32 data))) as_usize;
        modulus_length \<leftarrow> Option.bind (u256_from_slice (take 32 (drop 64 data))) as_usize;
        let base = big_from_bytes_be G (read_padded data 96 base_length);
        let exponent = big_from_bytes_be G (read_padded data (96 + base_length) exponent_length);
        let modulus = big_from_bytes_be G (read_padded data (96 + base_length + exponent_length) modulus_length);
        result \<leftarrow> map_option (big_to_bytes_be G) (big_modpow G base exponent modulus);
        if unat modulus_length < length result then None
        else Some (replicate (unat modulus_length - length result) 0 @ result)
      })"

section \<open>The set\<close>

fun required_gas :: "precompile \<Rightarrow> u8 list \<Rightarrow> u64 option" where
  "required_gas (PrecompileUnimplemented _) input = Some 0"
| "required_gas PrecompileEcrecover input = Some 3000"
| "required_gas PrecompileSha256Hash input = Some (calculate_gas input 12 60)"
| "required_gas PrecompileRipemd160Hash input = Some (calculate_gas input 120 600)"
| "required_gas PrecompileDataCopy input = Some (calculate_gas input 3 15)"
| "required_gas (PrecompileBigModExp eip2565) input = modexp_required_gas eip2565 input"
| "required_gas PrecompileAddIstanbul input = Some 150"
| "required_gas PrecompileMulIstanbul input = Some 6000"
| "required_gas PrecompilePairIstanbul input = Some (45000 + word_of_nat (length input div 192) * 34000)"

definition returned :: "u8 list option \<Rightarrow> ('f precompile_failure, u8 list) outcome" where
  "returned r = (case r of None \<Rightarrow> Panic | Some output \<Rightarrow> Ok output)"

fun precompile_run ::
  "('fq, 'fr, 'fq2, 'g1, 'g2, 'gt, 'n) crates \<Rightarrow> precompile \<Rightarrow> u8 list \<Rightarrow> ('f precompile_failure, u8 list) outcome" where
  "precompile_run K (PrecompileUnimplemented _) input = Err FatalNotSupportedCall"
| "precompile_run K PrecompileEcrecover input = Ok (ecrecover_run (ct_crypto K) input)"
| "precompile_run K PrecompileSha256Hash input = Ok (sha256_run (ct_crypto K) input)"
| "precompile_run K PrecompileRipemd160Hash input = returned (ripemd_run (ct_crypto K) input)"
| "precompile_run K PrecompileDataCopy input = Ok (data_copy_run input)"
| "precompile_run K (PrecompileBigModExp _) input = returned (modexp_run (ct_big K) input)"
| "precompile_run K PrecompileAddIstanbul input = returned (add_run (ct_bn K) input)"
| "precompile_run K PrecompileMulIstanbul input = returned (mul_run (ct_bn K) input)"
| "precompile_run K PrecompilePairIstanbul input = returned (pair_run (ct_bn K) input)"

type_synonym precompile_set = "(h160, precompile) btree_map"

definition precompile_add :: "u8 \<Rightarrow> precompile \<Rightarrow> precompile_set \<Rightarrow> precompile_set" where
  "precompile_add idx p fns = bt_insert (ucast idx) p fns"

definition berlin :: precompile_set where
  "berlin =
     (let def = fold (\<lambda>i. precompile_add i (PrecompileUnimplemented i)) [1, 2, 3, 4, 5, 6, 7, 8, 9] [];
          def = precompile_add 1 PrecompileEcrecover def;
          def = precompile_add 2 PrecompileSha256Hash def;
          def = precompile_add 3 PrecompileRipemd160Hash def;
          def = precompile_add 4 PrecompileDataCopy def;
          def = precompile_add 5 (PrecompileBigModExp True) def;
          def = precompile_add 6 PrecompileAddIstanbul def;
          def = precompile_add 7 PrecompileMulIstanbul def
      in precompile_add 8 PrecompilePairIstanbul def)"

definition get_addresses :: "precompile_set \<Rightarrow> h160 list" where
  "get_addresses fns = map fst fns"

definition is_precompile :: "precompile_set \<Rightarrow> h160 \<Rightarrow> bool" where
  "is_precompile fns address = bt_contains_key address fns"

definition run_precompiled_contract ::
  "('fq, 'fr, 'fq2, 'g1, 'g2, 'gt, 'n) crates \<Rightarrow> ('h, 'f) handle_api \<Rightarrow> precompile \<Rightarrow> 'h
     \<Rightarrow> ('f precompile_failure, u8 list) outcome \<times> 'h" where
  "run_precompiled_contract K H p handle =
     and_then (or_panic (required_gas p (hd_input H handle))) (\<lambda>gas_cost handle.
       (case hd_record_cost H gas_cost handle of
          (Inl e, handle) \<Rightarrow> (Err (Failure e), handle)
        | (Inr _, handle) \<Rightarrow> (precompile_run K p (hd_input H handle), handle))) handle"

definition precompile_execute ::
  "('fq, 'fr, 'fq2, 'g1, 'g2, 'gt, 'n) crates \<Rightarrow> ('h, 'f) handle_api \<Rightarrow> precompile_set \<Rightarrow> 'h
     \<Rightarrow> ('f precompile_failure, u8 list) outcome option \<times> 'h" where
  "precompile_execute K H fns handle =
     (case map_of fns (hd_code_address H handle) of
        None \<Rightarrow> (None, handle)
      | Some p \<Rightarrow> apfst Some (run_precompiled_contract K H p handle))"

section \<open>The input of \<open>BigModExp\<close>\<close>

text \<open>The input as the specification reads it, followed by zeros for ever.\<close>

definition zext :: "u8 list \<Rightarrow> nat \<Rightarrow> nat \<Rightarrow> u8 list" where
  "zext xs off n = map (\<lambda>i. if off + i < length xs then xs ! (off + i) else 0) [0..<n]"

definition modexp_len :: "nat \<Rightarrow> u8 list \<Rightarrow> nat" where
  "modexp_len k input = be_nat (zext input (32 * k) 32)"

lemma length_zext [simp]: "length (zext xs off n) = n"
  by (simp add: zext_def)

lemma zext_pad: "zext (pad_to k xs) off n = zext xs off n"
  by (auto simp: zext_def pad_to_def nth_append)

lemma zext_take: "off + n \<le> length xs \<Longrightarrow> zext xs off n = take n (drop off xs)"
  by (auto simp: zext_def intro!: nth_equalityI)

lemma zext_beyond: "length xs \<le> off \<Longrightarrow> be_nat (zext xs off n) = 0"
proof -
  assume "length xs \<le> off"
  then have "zext xs off n = replicate n 0" by (auto simp: zext_def intro!: nth_equalityI)
  then show ?thesis by simp
qed

lemma take_drop_pad: "off + n \<le> k \<Longrightarrow> take n (drop off (pad_to k xs)) = zext xs off n"
  using zext_take [of off n "pad_to k xs"] by (simp add: zext_pad)

lemma read_padded_zext:
  assumes "unat start + unat n \<le> 2 ^ 64"
  shows "read_padded data start n = zext data (unat start) (unat n)"
proof -
  have "unat (start + word_of_nat i) = unat start + i" if "i < unat n" for i
  proof -
    have "i < 2 ^ 64" using that unat_u64_less [of n] by linarith
    then have "unat (word_of_nat i :: u64) = i" by (simp add: unat_of_nat)
    then show ?thesis using that assms by (simp add: unat_add_small)
  qed
  then show ?thesis by (auto simp: read_padded_def zext_def Let_def)
qed

lemma modexp_header:
  assumes "modexp_len k input < 2 ^ 64" and "k < 3"
  shows "Option.bind (u256_from_slice (take 32 (drop (32 * k) (pad_to 96 input)))) as_usize = Some (word_of_nat (modexp_len k input))"
proof -
  have eq: "take 32 (drop (32 * k) (pad_to 96 input)) = zext input (32 * k) 32" using assms(2) by (intro take_drop_pad) simp
  obtain v where v: "u256_from_slice (zext input (32 * k) 32) = Some v" by (simp add: u256_from_slice_def)
  then have "unat v = modexp_len k input" by (simp add: u256_from_slice_unat modexp_len_def)
  moreover have "unat (word_of_nat (modexp_len k input) :: u64) = modexp_len k input" using assms(1) by (simp add: unat_of_nat)
  ultimately show ?thesis by (simp add: eq v as_usize_Some)
qed

section \<open>\<open>BigModExp\<close>\<close>

text \<open>
  \<open>num_bigint\<close>: \<open>val\<close> is the number of a \<open>BigUint\<close>; \<open>modpow\<close> panics for a zero modulus, and \<open>to_bytes_be\<close>
  has no leading zero but for the number zero, which is one byte.
\<close>

definition lawful_big :: "'n big_api \<Rightarrow> ('n \<Rightarrow> nat) \<Rightarrow> bool" where
  "lawful_big G val \<longleftrightarrow>
     (\<forall>bs. val (big_from_bytes_be G bs) = be_nat bs) \<and>
     (\<forall>n. be_nat (big_to_bytes_be G n) = val n \<and> big_to_bytes_be G n \<noteq> [] \<and>
        (length (big_to_bytes_be G n) = 1 \<or> hd (big_to_bytes_be G n) \<noteq> 0)) \<and>
     (\<forall>b e m. if val m = 0 then big_modpow G b e m = None
        else \<exists>r. big_modpow G b e m = Some r \<and> val r = val b ^ val e mod val m)"

lemma lawful_bigD:
  assumes "lawful_big G val"
  shows "val (big_from_bytes_be G bs) = be_nat bs"
    and "be_nat (big_to_bytes_be G n) = val n"
    and "big_to_bytes_be G n \<noteq> []" and "length (big_to_bytes_be G n) = 1 \<or> hd (big_to_bytes_be G n) \<noteq> 0"
    and "val m = 0 \<Longrightarrow> big_modpow G b e m = None"
    and "val m \<noteq> 0 \<Longrightarrow> \<exists>r. big_modpow G b e m = Some r \<and> val r = val b ^ val e mod val m"
  using assms unfolding lawful_big_def by meson+

lemma be_nat_hd: "bs \<noteq> [] \<Longrightarrow> hd bs \<noteq> 0 \<Longrightarrow> 256 ^ (length bs - 1) \<le> be_nat bs"
proof (cases bs)
  case (Cons b rest)
  assume "bs \<noteq> []" "hd bs \<noteq> 0"
  then have "1 \<le> unat b" using Cons by (simp add: Suc_le_eq unat_gt_0)
  then have "256 ^ length rest \<le> unat b * 256 ^ length rest" by simp
  note trans_le_add1 [OF this, of "be_nat rest"]
  moreover have "be_nat bs = unat b * 256 ^ length rest + be_nat rest"
    using be_nat_append [of "[b]" rest] by (simp add: Cons be_nat_def)
  ultimately show ?thesis by (simp only: Cons list.size diff_Suc_1 add_0_right add_Suc_right)
qed simp

lemma to_bytes_fits:
  assumes "lawful_big G val" and "val n < 256 ^ k" and "0 < k"
  shows "length (big_to_bytes_be G n) \<le> k"
proof (rule ccontr)
  let ?bs = "big_to_bytes_be G n"
  assume "\<not> length ?bs \<le> k"
  moreover note lawful_bigD(2-4) [OF assms(1), of n]
  ultimately have "256 ^ (length ?bs - 1) \<le> val n" "k \<le> length ?bs - 1" using be_nat_hd [of ?bs] assms(3) by auto
  then have "256 ^ k \<le> val n" using power_increasing [of k "length ?bs - 1" "256 :: nat"] by linarith
  with assms(2) show False by simp
qed

text \<open>C26: \<open>BigModExp\<close> computes \<open>base ^ exponent mod modulus\<close>, with the three numbers read from the input as if it went on with
  zeros for ever, in exactly as many bytes as the modulus has; it panics exactly for a zero modulus.
  This is for lengths that fit in memory.\<close>

theorem modexp_run_exact:
  fixes input :: "u8 list"
  defines "b \<equiv> modexp_len 0 input" and "e \<equiv> modexp_len 1 input" and "m \<equiv> modexp_len 2 input"
  assumes G: "lawful_big G val" and fits: "96 + b + e + m < 2 ^ 64"
  shows "if be_nat (zext input (96 + b + e) m) = 0 then modexp_run G input = None
    else \<exists>output. modexp_run G input = Some output \<and> length output = m \<and>
      be_nat output = be_nat (zext input 96 b) ^ be_nat (zext input (96 + b) e) mod be_nat (zext input (96 + b + e) m)"
proof -
  let ?w = "word_of_nat :: nat \<Rightarrow> u64"
  have w: "unat (?w n) = n" if "n < 2 ^ 64" for n using that by (simp add: unat_of_nat)
  have sum: "unat (96 + ?w b) = 96 + b" "unat (96 + ?w b + ?w e) = 96 + b + e"
    using w [of "96 + b"] w [of "96 + b + e"] fits by simp_all
  have wm: "unat (?w m) = m" using w [of m] fits by simp
  have hd: "Option.bind (u256_from_slice (take 32 (pad_to 96 input))) as_usize = Some (?w b)"
    "Option.bind (u256_from_slice (take 32 (drop 32 (pad_to 96 input)))) as_usize = Some (?w e)"
    "Option.bind (u256_from_slice (take 32 (drop 64 (pad_to 96 input)))) as_usize = Some (?w m)"
    using modexp_header [of 0 input] modexp_header [of 1 input] modexp_header [of 2 input] fits
    by (simp_all add: b_def e_def m_def)
  have rd: "read_padded (pad_to 96 input) 96 (?w b) = zext input 96 b"
    "read_padded (pad_to 96 input) (96 + ?w b) (?w e) = zext input (96 + b) e"
    "read_padded (pad_to 96 input) (96 + ?w b + ?w e) (?w m) = zext input (96 + b + e) m"
    using fits by (simp_all add: read_padded_zext zext_pad sum w)
  let ?f = "big_from_bytes_be G"
  let ?B = "?f (zext input 96 b)" and ?E = "?f (zext input (96 + b) e)" and ?M = "?f (zext input (96 + b + e) m)"
  have run: "modexp_run G input = Option.bind (map_option (big_to_bytes_be G) (big_modpow G ?B ?E ?M))
      (\<lambda>result. if m < length result then None else Some (replicate (m - length result) 0 @ result))"
    unfolding modexp_run_def Let_def using hd by (simp add: rd wm cong: if_cong)
  note val = lawful_bigD(1) [OF G]
  show ?thesis
  proof (cases "be_nat (zext input (96 + b + e) m) = 0")
    case True
    then show ?thesis by (simp add: run lawful_bigD(5) [OF G] val)
  next
    case False
    then obtain r where r: "big_modpow G ?B ?E ?M = Some r" "val r = val ?B ^ val ?E mod val ?M"
      using lawful_bigD(6) [OF G, of ?M ?B ?E] by (auto simp: val)
    have "0 < m" using False by (cases m) (simp_all add: zext_def)
    have "val r < val ?M" using r(2) False by (simp add: val)
    also have "\<dots> < 256 ^ m" using be_nat_less [of "zext input (96 + b + e) m"] by (simp add: val)
    finally have "length (big_to_bytes_be G r) \<le> m" using to_bytes_fits [OF G _ \<open>0 < m\<close>] by blast
    with False r show ?thesis by (simp add: run lawful_bigD(2) [OF G] val)
  qed
qed

text \<open>The gas of EIP-2565.\<close>

definition eip2565_iterations :: "nat \<Rightarrow> nat \<Rightarrow> nat" where
  "eip2565_iterations e h = 8 * (e - 32) + (bit_len h - 1)"

definition eip2565_price :: "nat \<Rightarrow> nat \<Rightarrow> nat" where
  "eip2565_price n it = min (2 ^ 64 - 1) (max 200 (((n + 7) div 8) ^ 2 * max 1 it div 3))"

lemma unat_max: "unat (max a b :: 'a::len word) = max (unat a) (unat b)"
  by (auto simp: max_def word_le_nat_alt)

lemma unat_of_nat_small: "n < 2 ^ LENGTH('a) \<Longrightarrow> unat (word_of_nat n :: 'a::len word) = n"
  by (simp add: unat_of_nat)

lemma chk_Some_of_nat:
  fixes a b :: u256
  shows "unat a + unat b < 2 ^ 256 \<Longrightarrow> chk_add a b = Some (word_of_nat (unat a + unat b))"
    and "unat a * unat b < 2 ^ 256 \<Longrightarrow> chk_mul a b = Some (word_of_nat (unat a * unat b))"
    and "b \<noteq> 0 \<Longrightarrow> chk_div a b = Some (word_of_nat (unat a div unat b))"
proof -
  show "unat a + unat b < 2 ^ 256 \<Longrightarrow> chk_add a b = Some (word_of_nat (unat a + unat b))"
    unfolding chk_add_Some by (subst unat_of_nat_small) simp_all
  show "unat a * unat b < 2 ^ 256 \<Longrightarrow> chk_mul a b = Some (word_of_nat (unat a * unat b))"
    unfolding chk_mul_Some by (subst unat_of_nat_small) simp_all
  have "unat a div unat b \<le> unat a" by (rule div_le_dividend)
  also have "unat a < 2 ^ LENGTH(256)" by (rule unsigned_less)
  finally show "b \<noteq> 0 \<Longrightarrow> chk_div a b = Some (word_of_nat (unat a div unat b))"
    unfolding chk_div_Some by (subst unat_of_nat_small) simp_all
qed

lemma clamp_price:
  assumes g: "unat (word_of_nat g :: u256) = g"
  shows "(if 64 < bit_len g then - 1 else if (word_of_nat g :: u256) < 200 then 200 else ucast (word_of_nat g :: u256) :: u64) =
    word_of_nat (min (2 ^ 64 - 1) (max 200 g))"
proof -
  have "64 < bit_len g \<longleftrightarrow> 2 ^ 64 \<le> g" using bit_len_bound [of g 64] by linarith
  moreover have "(word_of_nat g :: u256) < 200 \<longleftrightarrow> g < 200" unfolding word_less_nat_alt g by simp
  moreover have "ucast (word_of_nat g :: u256) = (word_of_nat g :: u64)"
    by (simp add: word_unat_eq_iff unat_of_nat unsigned_ucast_eq take_bit_eq_mod mod_mod_cancel)
  moreover have "min (2 ^ 64 - 1) (max 200 g) = (if 2 ^ 64 \<le> g then 2 ^ 64 - 1 else if g < 200 then 200 else g)" by auto
  ultimately show ?thesis by auto
qed

lemma modexp_cost_price: "modexp_cost len it = Some (word_of_nat (eip2565_price (unat len) (unat it)))"
proof -
  let ?w = "word_of_nat :: nat \<Rightarrow> u256"
  let ?n = "(unat len + 7) div 8" and ?t = "max (unat it) 1"
  have n: "?n < 2 ^ 62" and t: "?t < 2 ^ 64" using unat_u64_less [of len] unat_u64_less [of it] by auto
  have "?n * ?n < 2 ^ 62 * 2 ^ 62" using n by (intro mult_strict_mono) simp_all
  then have nn: "?n * ?n < 2 ^ 124" by simp
  then have "?n * ?n * ?t < 2 ^ 124 * 2 ^ 64" using t by (intro mult_strict_mono) simp_all
  then have p: "?n * ?n * ?t < 2 ^ 188" by simp
  have w: "unat (?w k) = k" if "k < 2 ^ 188" for k using that by (subst unat_of_nat_small) simp_all
  have c: "unat (7 :: u256) = 7" "unat (8 :: u256) = 8" "unat (3 :: u256) = 3" "(8 :: u256) \<noteq> 0" "(3 :: u256) \<noteq> 0" by simp_all
  have 1: "chk_add (ucast len) (7 :: u256) = Some (?w (unat len + 7))"
    using chk_Some_of_nat(1) [of "ucast len" 7] unat_u64_less [of len] by simp
  have 2: "chk_div (?w (unat len + 7)) 8 = Some (?w ?n)"
    using chk_Some_of_nat(3) [of 8 "?w (unat len + 7)"] w [of "unat len + 7"] unat_u64_less [of len] by simp
  have 3: "chk_mul (?w ?n) (?w ?n) = Some (?w (?n * ?n))"
    using chk_Some_of_nat(2) [of "?w ?n" "?w ?n"] w [of ?n] n nn by simp
  have 4: "chk_mul (?w (?n * ?n)) (ucast (max it 1)) = Some (?w (?n * ?n * ?t))"
    using chk_Some_of_nat(2) [of "?w (?n * ?n)" "ucast (max it 1)"] w [of "?n * ?n"] nn p by (simp add: unat_max)
  have 5: "chk_div (?w (?n * ?n * ?t)) 3 = Some (?w (?n * ?n * ?t div 3))"
    using chk_Some_of_nat(3) [of 3 "?w (?n * ?n * ?t)"] w [of "?n * ?n * ?t"] p by simp
  let ?g = "?n * ?n * ?t div 3"
  have g: "unat (?w ?g) = ?g" using w [of ?g] p by (simp add: div_less_iff_less_mult)
  have "modexp_cost len it = Some (if 64 < bit_len ?g then - 1 else if ?w ?g < 200 then 200 else ucast (?w ?g))"
    unfolding modexp_cost_def 1 bind.bind_lunit 2 3 4 5 g ..
  moreover have "eip2565_price (unat len) (unat it) = min (2 ^ 64 - 1) (max 200 ?g)"
    by (simp add: eip2565_price_def power2_eq_square max.commute)
  ultimately show ?thesis by (simp only: clamp_price [OF g])
qed

lemma modexp_exp_head_exact:
  assumes b: "b < 2 ^ 64" and e: "e < 2 ^ 64" and len: "length rest < 2 ^ 63"
  shows "modexp_exp_head rest (word_of_nat b) (word_of_nat e) =
    (if b < length rest \<and> length rest < b + min e 32 then None else Some (word_of_nat (be_nat (zext rest b (min e 32)))))"
proof (cases "length rest \<le> b")
  case True
  then show ?thesis using b by (simp add: modexp_exp_head_def unat_of_nat zext_beyond)
next
  case False
  let ?b = "word_of_nat b :: u64" and ?n = "word_of_nat (min e 32) :: u64"
  have ub: "unat ?b = b" and un: "unat ?n = min e 32" using b e by (simp_all add: unat_of_nat)
  have "unat ?b + unat ?n < 2 ^ 64" using False len ub un by auto
  then have sum: "unat (?b + ?n) = b + min e 32" by (simp add: unat_add_small ub un)
  have "32 < (word_of_nat e :: u64) \<longleftrightarrow> 32 < e" using e by (simp add: word_less_nat_alt unat_of_nat)
  then have "modexp_exp_head rest ?b (word_of_nat e) = Option.bind (slice rest ?b (?b + ?n)) u256_from_slice"
    using False ub by (cases "32 < e") (simp_all add: modexp_exp_head_def min_def)
  also have "\<dots> = (if length rest < b + min e 32 then None else Some (word_of_nat (be_nat (take (min e 32) (drop b rest)))))"
    by (auto simp: slice_def sum ub un word_le_nat_alt u256_from_slice_def)
  finally show ?thesis using False by (simp add: zext_take)
qed

lemma modexp_required_gas_eip:
  fixes input :: "u8 list"
  defines "b \<equiv> modexp_len 0 input" and "e \<equiv> modexp_len 1 input" and "m \<equiv> modexp_len 2 input" and "rest \<equiv> drop 96 input"
  defines "it \<equiv> eip2565_iterations e (be_nat (zext rest b (min e 32)))"
  assumes "b < 2 ^ 64" and "e < 2 ^ 64" and "m < 2 ^ 64" and "length input < 2 ^ 63"
  shows "modexp_required_gas True input =
      (if b < length rest \<and> length rest < b + min e 32 then None
       else Some (word_of_nat (eip2565_price (max b m) (it mod 2 ^ 64)))) \<and>
    (e < 2 ^ 61 \<longrightarrow> it mod 2 ^ 64 = it)"
proof
  let ?w = "word_of_nat :: nat \<Rightarrow> u64" and ?h = "be_nat (zext rest b (min e 32))"
  have head: "modexp_exp_head rest (?w b) (?w e) = (if b < length rest \<and> length rest < b + min e 32 then None else Some (word_of_nat ?h))"
    by (rule modexp_exp_head_exact) (use assms in simp_all)
  have "?h < 256 ^ min e 32" using be_nat_less [of "zext rest b (min e 32)"] by simp
  also have "\<dots> \<le> 256 ^ 32" by (rule power_increasing) simp_all
  finally have h: "?h < 2 ^ 256" by simp
  then have uh: "unat (word_of_nat ?h :: u256) = ?h" by (subst unat_of_nat_small) simp_all
  have bl: "bit_len ?h \<le> 256" using h bit_len_bound by blast
  show "e < 2 ^ 61 \<longrightarrow> it mod 2 ^ 64 = it" using bl by (auto simp: it_def eip2565_iterations_def)
  have lens: "unat (?w b) = b" "unat (?w e) = e" "unat (?w m) = m" using assms(6-8) by (simp_all add: unat_of_nat)
  have hd: "Option.bind (u256_from_slice (take 32 (pad_to 96 input))) as_usize = Some (?w b)"
    "Option.bind (u256_from_slice (take 32 (drop 32 (pad_to 96 input)))) as_usize = Some (?w e)"
    "Option.bind (u256_from_slice (take 32 (drop 64 (pad_to 96 input)))) as_usize = Some (?w m)"
    using modexp_header [of 0 input] modexp_header [of 1 input] modexp_header [of 2 input] assms
    by (simp_all add: b_def e_def m_def)
  let ?adj = "(if 32 < ?w e then (?w e - 32) * 8 else 0) + ?w (bit_len ?h - 1)"
  have "32 < ?w e \<longleftrightarrow> 32 < e" by (simp add: word_less_nat_alt lens)
  moreover have "(?w e - 32) * 8 = ?w (8 * (e - 32))" if "32 < e" using that by (simp add: of_nat_diff algebra_simps)
  ultimately have "?adj = ?w it" by (simp add: it_def eip2565_iterations_def)
  then have adj: "unat ?adj = it mod 2 ^ 64" by (simp only: unat_of_nat) simp
  have "modexp_required_gas True input = Option.bind (modexp_exp_head rest (?w b) (?w e))
      (\<lambda>head. modexp_cost (max (?w m) (?w b)) ((if 32 < ?w e then (?w e - 32) * 8 else 0) + ?w (bit_len (unat head) - 1)))"
    unfolding modexp_required_gas_def Let_def rest_def using hd by simp
  then show "modexp_required_gas True input =
      (if b < length rest \<and> length rest < b + min e 32 then None
       else Some (word_of_nat (eip2565_price (max b m) (it mod 2 ^ 64))))"
    unfolding head using adj by (simp add: modexp_cost_price unat_max lens uh max.commute)
qed

text \<open>C27: The gas of \<open>BigModExp\<close> is that of EIP-2565, from the larger of the lengths of base and modulus and the number of
  iterations, which is counted modulo \<open>2 ^ 64\<close>: it is exact for exponents shorter than \<open>2 ^ 61\<close> bytes.  For an input
  that ends within the exponent's leading bytes the method panics, where the specification reads zeros.\<close>

theorem modexp_gas_exact:
  fixes input :: "u8 list"
  defines "b \<equiv> modexp_len 0 input" and "e \<equiv> modexp_len 1 input" and "m \<equiv> modexp_len 2 input" and "rest \<equiv> drop 96 input"
  defines "it \<equiv> eip2565_iterations e (be_nat (zext rest b (min e 32)))"
  assumes "b < 2 ^ 64" and "e < 2 ^ 64" and "m < 2 ^ 64" and "length input < 2 ^ 63"
  shows "modexp_required_gas True input =
      (if b < length rest \<and> length rest < b + min e 32 then None
       else Some (word_of_nat (eip2565_price (max b m) (it mod 2 ^ 64)))) \<and>
    (e < 2 ^ 61 \<longrightarrow> it mod 2 ^ 64 = it)"
  using assms modexp_required_gas_eip [of input] by blast

section \<open>The table\<close>

lemma berlin_table:
  "berlin = [(1, PrecompileEcrecover), (2, PrecompileSha256Hash), (3, PrecompileRipemd160Hash), (4, PrecompileDataCopy),
     (5, PrecompileBigModExp True), (6, PrecompileAddIstanbul), (7, PrecompileMulIstanbul), (8, PrecompilePairIstanbul),
     (9, PrecompileUnimplemented 9)]"
  by code_simp

lemma h160_upto9: "a \<in> {1, 2, 3, 4, 5, 6, 7, 8, 9} \<longleftrightarrow> 1 \<le> a \<and> a \<le> (9 :: h160)"
proof -
  have "1 \<le> n \<and> n \<le> 9 \<longleftrightarrow> n \<in> {1, 2, 3, 4, 5, 6, 7, 8, 9}" for n :: nat by auto
  from this [of "unat a"] show ?thesis by (simp add: word_le_nat_alt word_unat_eq_iff)
qed

text \<open>The prices of the Berlin fork by address: a price per word of the input, the Istanbul prices of the curve (EIP-1108), and
  EIP-2565 for the modular power, which panics for an input that ends within the exponent's leading bytes.\<close>

definition berlin_price :: "nat \<Rightarrow> u8 list \<Rightarrow> nat option" where
  "berlin_price a input =
     (let words = (length input + 31) div 32;
          b = modexp_len 0 input; e = modexp_len 1 input; m = modexp_len 2 input; rest = drop 96 input
      in if a = 1 then Some 3000
      else if a = 2 then Some (60 + 12 * words)
      else if a = 3 then Some (600 + 120 * words)
      else if a = 4 then Some (15 + 3 * words)
      else if a = 5 then
        (if b < length rest \<and> length rest < b + min e 32 then None
         else Some (eip2565_price (max b m) (eip2565_iterations e (be_nat (zext rest b (min e 32))))))
      else if a = 6 then Some 150
      else if a = 7 then Some 6000
      else if a = 8 then Some (45000 + 34000 * (length input div 192))
      else Some 0)"

lemma calculate_gas_words:
  assumes "length input < 2 ^ 48"
  shows "calculate_gas input per_word base = word_of_nat (unat base + unat per_word * ((length input + 31) div 32))"
proof -
  have "unat (word_of_nat (length input) + 31 :: u64) = length input + 31" using assms by (simp add: unat_word_ariths unat_of_nat)
  then have "(word_of_nat (length input) + 31 :: u64) div 32 = word_of_nat ((length input + 31) div 32)"
    by (simp add: word_arith_nat_div)
  then show ?thesis by (simp add: calculate_gas_def)
qed

lemma required_gas_price:
  assumes "(a, p) \<in> set berlin" and "length input < 2 ^ 48"
    and "a = 5 \<Longrightarrow> modexp_len 0 input < 2 ^ 64 \<and> modexp_len 1 input < 2 ^ 61 \<and> modexp_len 2 input < 2 ^ 64"
  shows "required_gas p input = map_option word_of_nat (berlin_price (unat a) input)"
proof -
  let ?b = "modexp_len 0 input" and ?e = "modexp_len 1 input" and ?rest = "drop 96 input"
  have "modexp_required_gas True input = map_option word_of_nat (berlin_price 5 input)" if "a = 5"
  proof -
    have "?b < 2 ^ 64" "?e < 2 ^ 64" "modexp_len 2 input < 2 ^ 64" "length input < 2 ^ 63" using assms(2) assms(3) [OF that] by simp_all
    from modexp_required_gas_eip [OF this] assms(3) [OF that] show ?thesis by (simp add: berlin_price_def Let_def)
  qed
  then show ?thesis using assms(1) unfolding berlin_table
    by (auto simp: berlin_price_def Let_def calculate_gas_words [OF assms(2)] mult.commute)
qed

lemma berlin_price_fits: "length input < 2 ^ 48 \<Longrightarrow> berlin_price a input = Some gas \<Longrightarrow> gas < 2 ^ 64"
  by (auto simp: berlin_price_def Let_def eip2565_price_def split: if_splits)

text \<open>C28: The table of the Berlin fork: a call to each address from 1 to 9 is charged the price of that address first, computed
  without overflow, and runs the contract of that address only when the price is paid; 9 has no contract and any other
  address is not a precompile.  This is for inputs and lengths that fit in memory.\<close>

theorem precompile_execute_berlin:
  fixes handle :: 'h and H :: "('h, 'f) handle_api"
  defines "a \<equiv> hd_code_address H handle" and "input \<equiv> hd_input H handle"
  assumes "length input < 2 ^ 48"
    and "a = 5 \<Longrightarrow> modexp_len 0 input < 2 ^ 64 \<and> modexp_len 1 input < 2 ^ 61 \<and> modexp_len 2 input < 2 ^ 64"
  shows "get_addresses berlin = [1, 2, 3, 4, 5, 6, 7, 8, 9] \<and> (is_precompile berlin a \<longleftrightarrow> 1 \<le> a \<and> a \<le> 9) \<and>
    (\<not> is_precompile berlin a \<longrightarrow> precompile_execute K H berlin handle = (None, handle)) \<and>
    (\<forall>p. (a, p) \<in> {(1, PrecompileEcrecover), (2, PrecompileSha256Hash), (3, PrecompileRipemd160Hash), (4, PrecompileDataCopy),
        (5, PrecompileBigModExp True), (6, PrecompileAddIstanbul), (7, PrecompileMulIstanbul), (8, PrecompilePairIstanbul),
        (9, PrecompileUnimplemented 9)} \<longrightarrow>
      precompile_execute K H berlin handle =
        (case berlin_price (unat a) input of
           None \<Rightarrow> (Some Panic, handle)
         | Some gas \<Rightarrow>
             (case hd_record_cost H (word_of_nat gas) handle of
                (Inl err, handle) \<Rightarrow> (Some (Err (Failure err)), handle)
              | (Inr _, handle) \<Rightarrow>
                  (Some (if a = 9 then Err FatalNotSupportedCall else precompile_run K p (hd_input H handle)), handle)))) \<and>
    (\<forall>gas. berlin_price (unat a) input = Some gas \<longrightarrow> unat (word_of_nat gas :: u64) = gas)"
proof (intro conjI allI impI)
  show "get_addresses berlin = [1, 2, 3, 4, 5, 6, 7, 8, 9]" by (simp add: get_addresses_def berlin_table)
  have dom: "is_precompile berlin a \<longleftrightarrow> a \<in> {1, 2, 3, 4, 5, 6, 7, 8, 9}"
    by (auto simp: is_precompile_def bt_contains_key_def berlin_table)
  also have "\<dots> \<longleftrightarrow> 1 \<le> a \<and> a \<le> 9" by (rule h160_upto9)
  finally show "is_precompile berlin a \<longleftrightarrow> 1 \<le> a \<and> a \<le> 9" .
  show "precompile_execute K H berlin handle = (None, handle)" if "\<not> is_precompile berlin a"
    using that by (auto simp: precompile_execute_def is_precompile_def bt_contains_key_def a_def split: option.splits)
next
  fix p assume "(a, p) \<in> {(1, PrecompileEcrecover), (2, PrecompileSha256Hash), (3, PrecompileRipemd160Hash), (4, PrecompileDataCopy),
    (5, PrecompileBigModExp True), (6, PrecompileAddIstanbul), (7, PrecompileMulIstanbul), (8, PrecompilePairIstanbul),
    (9, PrecompileUnimplemented 9)}"
  then have p: "(a, p) \<in> set berlin" "map_of berlin a = Some p" "a = 9 \<longleftrightarrow> p = PrecompileUnimplemented 9" by (auto simp: berlin_table)
  note gas = required_gas_price [OF p(1) assms(3,4)]
  show "precompile_execute K H berlin handle =
      (case berlin_price (unat a) input of
         None \<Rightarrow> (Some Panic, handle)
       | Some gas \<Rightarrow>
           (case hd_record_cost H (word_of_nat gas) handle of
              (Inl err, handle) \<Rightarrow> (Some (Err (Failure err)), handle)
            | (Inr _, handle) \<Rightarrow>
                (Some (if a = 9 then Err FatalNotSupportedCall else precompile_run K p (hd_input H handle)), handle)))"
    using p gas unfolding a_def input_def
    by (auto simp: precompile_execute_def run_precompiled_contract_def and_then_def or_panic_def split: option.splits prod.splits sum.splits)
next
  fix gas assume "berlin_price (unat a) input = Some gas"
  from berlin_price_fits [OF assms(3) this] show "unat (word_of_nat gas :: u64) = gas" by (simp add: unat_of_nat_small)
qed

section \<open>The results\<close>



























section \<open>Concrete crates\<close>

fun nat_bytes :: "nat \<Rightarrow> u8 list" where
  "nat_bytes n = (if n < 256 then [word_of_nat n] else nat_bytes (n div 256) @ [word_of_nat n])"

declare nat_bytes.simps [simp del]

definition demo_big :: "nat big_api" where
  "demo_big = \<lparr>big_from_bytes_be = be_nat, big_to_bytes_be = nat_bytes,
     big_modpow = (\<lambda>b e m. if m = 0 then None else Some (b ^ e mod m))\<rparr>"

lemma nat_bytes_ok: "be_nat (nat_bytes n) = n \<and> nat_bytes n \<noteq> [] \<and> (length (nat_bytes n) = 1 \<or> hd (nat_bytes n) \<noteq> 0)"
proof (induction n rule: nat_bytes.induct)
  case (1 n)
  have w: "unat (word_of_nat n :: u8) = n mod 256" by (simp add: unat_of_nat)
  show ?case
  proof (cases "n < 256")
    case True
    then show ?thesis using w by (simp add: nat_bytes.simps [of n] be_nat_def)
  next
    case False
    from False have "n div 256 \<noteq> 0" by auto
    have "hd (nat_bytes (n div 256)) \<noteq> 0"
    proof (cases "n div 256 < 256")
      case True
      then have "unat (word_of_nat (n div 256) :: u8) \<noteq> 0" using \<open>n div 256 \<noteq> 0\<close> by (simp add: unat_of_nat)
      then show ?thesis using True unfolding nat_bytes.simps [of "n div 256"] by (simp add: unat_eq_zero)
    next
      case False
      have "nat_bytes (n div 256) = nat_bytes (n div 256 div 256) @ [word_of_nat (n div 256)]"
        using False by (subst nat_bytes.simps) simp
      then show ?thesis using "1" \<open>\<not> n < 256\<close>
        by (metis append_is_Nil_conv length_0_conv length_append_singleton list.size(3) nat.inject nat_bytes.simps not_Cons_self2 One_nat_def)
    qed
    with "1" [OF False] False w show ?thesis by (simp add: nat_bytes.simps [of n])
  qed
qed

lemma demo_big_lawful: "lawful_big demo_big id"
  using nat_bytes_ok by (auto simp: lawful_big_def demo_big_def)

text \<open>A field of the numbers below 7 and groups of numbers under addition.\<close>

definition demo_crates :: "(nat, nat, nat \<times> nat, nat, nat, nat, nat) crates" where
  "demo_crates =
     \<lparr>ct_crypto = \<lparr>cr_ecdsa_recover = (\<lambda>sig msg. if last sig = 27 then Some msg else None),
        cr_keccak_hash = (\<lambda>bs. take 32 (bs @ replicate 32 1)), cr_sha256_sum = (\<lambda>_. replicate 32 2),
        cr_ripemd160 = (\<lambda>bs. take 20 (bs @ replicate 20 3))\<rparr>,
      ct_bn = \<lparr>fq_from_slice = (\<lambda>bs. if be_nat bs < 7 then Some (be_nat bs) else None), fr_from_slice = (\<lambda>bs. Some (be_nat bs)),
        fq_is_zero = (\<lambda>x. x = 0), fq_u256_be = (\<lambda>x. Some (be_bytes 32 x)), fq_be = (\<lambda>x. Some (be_bytes 32 x)),
        fq2_new = Pair, fq2_is_zero = (\<lambda>x. x = (0, 0)), g1_zero = 0, g1_new = (\<lambda>x y. if x = y then Some x else None),
        g1_add = (+), g1_mul = (*), g1_affine = (\<lambda>q. if q = 0 then None else Some (q, q)),
        g2_zero = 0, g2_new = (\<lambda>x y. if x = y then Some (fst x) else None), gt_one = 0, gt_mul = (+), pairing = (*)\<rparr>,
      ct_big = demo_big\<rparr>"


definition demo_handle :: "(h160 \<times> u8 list \<times> u64, string) handle_api" where
  "demo_handle =
     \<lparr>hd_code_address = fst, hd_input = (\<lambda>(_, input, _). input),
      hd_record_cost = (\<lambda>gas (a, input, left). if gas \<le> left then (Inr (), (a, input, left - gas)) else (Inl ''out of gas'', (a, input, left)))\<rparr>"

definition demo_modexp :: "u8 list" where
  "demo_modexp = replicate 31 0 @ [1] @ replicate 31 0 @ [1] @ replicate 31 0 @ [2] @ [3, 5, 1, 0]"

lemma demo_modexp_lens: "modexp_len 0 demo_modexp = 1" "modexp_len 1 demo_modexp = 1" "modexp_len 2 demo_modexp = 2"
  by code_simp+

lemma demo_modexp_numbers:
  "be_nat (zext demo_modexp 96 1) = 3" "be_nat (zext demo_modexp 97 1) = 5" "be_nat (zext demo_modexp 98 2) = 256"
  "drop 96 demo_modexp = [3, 5, 1, 0]"
  by code_simp+

theorem modexp_run_exact_witness:
  "\<exists>output. modexp_run demo_big demo_modexp = Some output \<and> length output = 2 \<and> be_nat output = 243"
proof -
  have "96 + modexp_len 0 demo_modexp + modexp_len 1 demo_modexp + modexp_len 2 demo_modexp < 2 ^ 64" unfolding demo_modexp_lens by simp
  from modexp_run_exact [OF demo_big_lawful this, unfolded demo_modexp_lens] show ?thesis
    by (simp add: demo_modexp_numbers demo_modexp_numbers(1,2) [unfolded One_nat_def])
qed

theorem modexp_gas_exact_witness: "modexp_required_gas True demo_modexp = Some 200"
proof -
  have len: "length demo_modexp < 2 ^ 63" by (simp add: demo_modexp_def)
  have it: "eip2565_price (max 1 2) (eip2565_iterations 1 (be_nat (zext [3, 5, 1, 0] 1 (min 1 32))) mod 2 ^ 64) = 200"
  proof -
    have "be_nat (zext [3, 5, 1, 0] 1 (min 1 32)) = 5" "bit_len 5 = 3" by code_simp+
    then show ?thesis by (simp add: eip2565_price_def eip2565_iterations_def)
  qed
  from modexp_gas_exact [of demo_modexp, OF _ _ _ len, unfolded demo_modexp_lens demo_modexp_numbers it] show ?thesis by simp
qed

text \<open>Three bytes are copied for 18 gas.\<close>

theorem precompile_execute_berlin_witness:
  "precompile_execute demo_crates demo_handle berlin (4, [1, 2, 3], 100) = (Some (Ok [1, 2, 3]), (4, [1, 2, 3], 82))"
proof -
  let ?h = "(4, [1, 2, 3], 100) :: h160 \<times> u8 list \<times> u64"
  let ?i = "hd_input demo_handle ?h"
  have i: "?i = [1, 2, 3]" "hd_code_address demo_handle ?h = 4" by (simp_all add: demo_handle_def)
  have len: "length [1, 2, 3 :: u8] < 2 ^ 48" by simp
  have price: "berlin_price (unat (4 :: h160)) [1, 2, 3] = Some 18" by (simp add: berlin_price_def Let_def)
  show ?thesis using precompile_execute_berlin [of demo_handle ?h demo_crates, unfolded i price, OF len]
    by simp (simp add: demo_handle_def data_copy_run_def)
qed



end
