(* ===== verification/Hash_Pool.thy ===== *)
theory Hash_Pool
  imports Beacon Build_Service
begin

text \<open>
  The pool of transaction hashes and the fetchers that feed it: \<open>src/common/eth_client/src/hash_pool.rs\<close> and
  \<open>tx_fetcher.rs\<close>.

  \<open>LruMap\<close> of the crate \<open>base\<close> is the type variable \<open>'m\<close> with its operations as the record \<open>lru_api\<close>; \<open>lawful_lru\<close> is what
  a map with least-recently-used eviction promises.  The messages of a subscription are arguments of the steps.
\<close>

section \<open>The pool\<close>

record 't hash_trace =
  ht_first_seen :: 't
  ht_simulated :: "'t option"

record ('m, 't) lru_api =
  lru_new :: "nat \<Rightarrow> 'm"
  lru_contains_key :: "h256 \<Rightarrow> 'm \<Rightarrow> bool"
  lru_get :: "h256 \<Rightarrow> 'm \<Rightarrow> 't hash_trace option \<times> 'm"
  lru_peek :: "h256 \<Rightarrow> 'm \<Rightarrow> 't hash_trace option"
  lru_modify :: "h256 \<Rightarrow> ('t hash_trace \<Rightarrow> 't hash_trace) \<Rightarrow> 'm \<Rightarrow> 'm"
  lru_insert :: "h256 \<Rightarrow> 't hash_trace \<Rightarrow> 'm \<Rightarrow> 'm"

text \<open>Only an insertion beyond the size removes entries, and never the one it inserts.\<close>

definition lawful_lru :: "('m, 't) lru_api \<Rightarrow> nat \<Rightarrow> ('m \<Rightarrow> h256 set) \<Rightarrow> bool" where
  "lawful_lru L cap keys \<longleftrightarrow>
     keys (lru_new L cap) = {} \<and>
     (\<forall>h m. lru_contains_key L h m \<longleftrightarrow> h \<in> keys m) \<and>
     (\<forall>h m. keys (snd (lru_get L h m)) = keys m) \<and>
     (\<forall>h f m. keys (lru_modify L h f m) = keys m) \<and>
     (\<forall>h v m. h \<in> keys (lru_insert L h v m) \<and> keys (lru_insert L h v m) \<subseteq> insert h (keys m)) \<and>
     (\<forall>h v m. finite (keys m) \<and> card (insert h (keys m)) \<le> cap \<longrightarrow> keys (lru_insert L h v m) = insert h (keys m))"

lemma lawful_lruD:
  assumes "lawful_lru L cap keys"
  shows "keys (lru_new L cap) = {}" and "lru_contains_key L h m \<longleftrightarrow> h \<in> keys m" and "keys (snd (lru_get L h m)) = keys m"
    and "keys (lru_modify L h f m) = keys m" and "finite (keys m) \<Longrightarrow> card (insert h (keys m)) \<le> cap \<Longrightarrow> keys (lru_insert L h v m) = insert h (keys m)"
  using assms by (auto simp: lawful_lru_def)

definition hash_pool_new :: "('m, 't) lru_api \<Rightarrow> nat \<Rightarrow> 'm" where
  "hash_pool_new L pool_size = lru_new L pool_size"

definition hash_exists :: "('m, 't) lru_api \<Rightarrow> h256 \<Rightarrow> 'm \<Rightarrow> bool" where
  "hash_exists L hash pool = lru_contains_key L hash pool"

definition hash_get :: "('m, 't) lru_api \<Rightarrow> h256 \<Rightarrow> 'm \<Rightarrow> 't hash_trace option \<times> 'm" where
  "hash_get L hash pool = lru_get L hash pool"

definition simulated :: "('m, 't) lru_api \<Rightarrow> 't \<Rightarrow> h256 \<Rightarrow> 'm \<Rightarrow> 'm" where
  "simulated L now hash pool = lru_modify L hash (\<lambda>item. item\<lparr>ht_simulated := Some now\<rparr>) pool"

definition first_seen :: "('m, 't) lru_api \<Rightarrow> 't \<Rightarrow> h256 \<Rightarrow> 'm \<Rightarrow> bool \<times> 'm" where
  "first_seen L now hash pool =
     (if lru_contains_key L hash pool then (False, pool)
      else (True, lru_insert L hash \<lparr>ht_first_seen = now, ht_simulated = None\<rparr> pool))"

section \<open>The report of a block\<close>

record tx_report =
  tr_hash :: h256
  tr_tip_fee :: string
  tr_gas_tip :: string
  tr_gas_used :: u64
  tr_first_seen_millis :: "64 word"
  tr_simulated_millis :: "64 word"

record block_report =
  rp_number :: u64
  rp_hash :: h256
  rp_slot :: u64
  rp_gas_used :: u64
  rp_gas_limit :: u64
  rp_timestamp :: u64
  rp_txs :: "tx_report list"
  rp_missing_profit :: string
  rp_missing :: "(nat \<times> h256) list"
  rp_profit :: string
  rp_tx_fee :: string
  rp_expect_profit :: string
  rp_expect_gas_used :: u64

text \<open>The functions of other crates: \<open>parse_ether\<close>, the hash of a header and the input of a transaction.\<close>

record 'tx report_api =
  ra_parse_ether :: "u256 \<Rightarrow> nat \<Rightarrow> string"
  ra_header_hash :: "block_header \<Rightarrow> h256"
  ra_input :: "'tx \<Rightarrow> u8 list"

definition report_profit :: "'tx tx_api \<Rightarrow> 'tx report_api \<Rightarrow> 'tx list \<Rightarrow> u256" where
  "report_profit A R txs = (if txs \<noteq> [] \<and> length (ra_input R (last txs)) = 0 then tx_value A (last txs) else 0)"

definition report_gas :: "'tx tx_api \<Rightarrow> 'tx list \<Rightarrow> u64 list option \<Rightarrow> u64 list" where
  "report_gas A txs receipts = (case receipts of Some gas_used \<Rightarrow> gas_used | None \<Rightarrow> map (tx_gas A) txs)"

text \<open>A transaction is missing if it was never seen, or seen later than a second before the block.\<close>

definition is_missing :: "('m, 't) lru_api \<Rightarrow> 't time_api \<Rightarrow> 't \<Rightarrow> 'm \<Rightarrow> h256 \<Rightarrow> bool" where
  "is_missing L T missing_time pool hash =
     (case lru_peek L hash pool of Some n \<Rightarrow> tm_less T missing_time (ht_first_seen n) | None \<Rightarrow> True)"

definition report_missing :: "'tx tx_api \<Rightarrow> ('m, 't) lru_api \<Rightarrow> 't time_api \<Rightarrow> 't \<Rightarrow> 'm \<Rightarrow> 'tx list \<Rightarrow> (nat \<times> h256) list" where
  "report_missing A L T missing_time pool txs =
     filter (\<lambda>(_, hash). is_missing L T missing_time pool hash) (enumerate 0 (map (tx_hash A) txs))"

text \<open>An index out of range and the unwrapped \<open>reward\<close> panic, and so does an overflow of the sum.\<close>

definition nth_opt :: "'a list \<Rightarrow> nat \<Rightarrow> 'a option" where
  "nth_opt xs i = (if i < length xs then Some (xs ! i) else None)"

fun missing_profit :: "'tx tx_api \<Rightarrow> u256 \<Rightarrow> 'tx list \<Rightarrow> u64 list \<Rightarrow> (nat \<times> h256) list \<Rightarrow> u256 \<Rightarrow> u256 option" where
  "missing_profit A base_fee txs gas_useds [] acc = Some acc"
| "missing_profit A base_fee txs gas_useds ((idx, _) # missing) acc =
     do {
       tx \<leftarrow> nth_opt txs idx;
       gas \<leftarrow> nth_opt gas_useds idx;
       reward \<leftarrow> tx_reward A tx gas (Some base_fee);
       acc \<leftarrow> chk_add acc reward;
       missing_profit A base_fee txs gas_useds missing acc
     }"

fun missing_gas :: "u64 list \<Rightarrow> (nat \<times> h256) list \<Rightarrow> u64 \<Rightarrow> u64 option" where
  "missing_gas gas_useds [] acc = Some acc"
| "missing_gas gas_useds ((idx, _) # missing) acc =
     do { gas \<leftarrow> nth_opt gas_useds idx; missing_gas gas_useds missing (acc + gas) }"

text \<open>The signed milliseconds from a point in time to the block.\<close>

definition signed_millis :: "'t time_api \<Rightarrow> 't \<Rightarrow> 't \<Rightarrow> 64 word option" where
  "signed_millis T block_instant t =
     (if tm_less T t block_instant
      then map_option (\<lambda>d. word_of_nat (d div 1000000)) (tm_since T block_instant t)
      else map_option (\<lambda>d. - word_of_nat (d div 1000000)) (tm_since T t block_instant))"

fun report_txs ::
  "'tx tx_api \<Rightarrow> 'tx report_api \<Rightarrow> ('m, 't) lru_api \<Rightarrow> 't time_api \<Rightarrow> 't \<Rightarrow> u256 \<Rightarrow> u64 list \<Rightarrow> nat \<Rightarrow> 'tx list \<Rightarrow> u256 \<Rightarrow> 'm
     \<Rightarrow> (tx_report list \<times> u256 \<times> 'm) option" where
  "report_txs A R L T block_instant base_fee gas_useds idx [] tx_fee pool = Some ([], tx_fee, pool)"
| "report_txs A R L T block_instant base_fee gas_useds idx (tx # txs) tx_fee pool =
     (let (trace, pool) = lru_get L (tx_hash A tx) pool in
      do {
        seen \<leftarrow> (case trace of Some r \<Rightarrow> signed_millis T block_instant (ht_first_seen r) | None \<Rightarrow> Some 0);
        done \<leftarrow> (case Option.bind trace ht_simulated of Some s \<Rightarrow> signed_millis T block_instant s | None \<Rightarrow> Some 0);
        gas \<leftarrow> nth_opt gas_useds idx;
        let gas_tip = (case tx_effective_gas_tip A tx (Some base_fee) of Some tip \<Rightarrow> tip | None \<Rightarrow> 0);
        tip_fee \<leftarrow> chk_mul gas_tip (ucast gas);
        tx_fee \<leftarrow> chk_add tx_fee tip_fee;
        (reports, tx_fee, pool) \<leftarrow> report_txs A R L T block_instant base_fee gas_useds (Suc idx) txs tx_fee pool;
        Some (\<lparr>tr_hash = tx_hash A tx, tr_tip_fee = ra_parse_ether R tip_fee 18, tr_gas_tip = ra_parse_ether R gas_tip 9 @ '' Gwei'',
               tr_gas_used = gas, tr_first_seen_millis = seen, tr_simulated_millis = done\<rparr> # reports, tx_fee, pool)
      })"

text \<open>\<open>receipts\<close> are the \<open>gas_used\<close> of the receipts; a block whose transactions are not loaded panics (\<open>None\<close> in \<open>txs\<close>).\<close>

definition report ::
  "'tx tx_api \<Rightarrow> 'tx report_api \<Rightarrow> ('m, 't) lru_api \<Rightarrow> 't time_api \<Rightarrow> beacon_slot \<Rightarrow> block_header \<Rightarrow> 'tx option list \<Rightarrow> u64 list option \<Rightarrow> 'm
     \<Rightarrow> (block_report \<times> 'm) option" where
  "report A R L T S header transactions receipts pool =
     do {
       txs \<leftarrow> (if None \<in> set transactions then None else Some (map the transactions));
       let profit = report_profit A R txs;
       let gas_useds = report_gas A txs receipts;
       let block_instant = tm_from_secs T (h_timestamp header);
       missing_time \<leftarrow> tm_sub T block_instant (duration_from_secs 1);
       let base_fee = h_base_fee_per_gas header;
       let missing = report_missing A L T missing_time pool txs;
       missing_profit \<leftarrow> missing_profit A base_fee txs gas_useds missing 0;
       (tx_report, tx_fee, pool) \<leftarrow> report_txs A R L T block_instant base_fee gas_useds 0 txs 0 pool;
       missing_gas \<leftarrow> missing_gas gas_useds missing 0;
       slot \<leftarrow> slot_of S (h_timestamp header);
       Some (\<lparr>rp_number = h_number header, rp_hash = ra_header_hash R header, rp_slot = slot, rp_gas_used = h_gas_used header,
              rp_gas_limit = h_gas_limit header, rp_timestamp = h_timestamp header, rp_txs = tx_report,
              rp_missing_profit = ra_parse_ether R missing_profit 18, rp_missing = missing, rp_profit = ra_parse_ether R profit 18,
              rp_tx_fee = ra_parse_ether R tx_fee 18, rp_expect_profit = ra_parse_ether R (sat_sub tx_fee missing_profit) 18,
              rp_expect_gas_used = h_gas_used header - missing_gas\<rparr>, pool)
     }"

section \<open>Fetching transactions\<close>

text \<open>The hash pool, what went into the channel, how often the counter was raised, and the bodies asked for.\<close>

record ('m, 'tx) fetcher =
  fe_pool :: 'm
  fe_sent :: "'tx mempool_item list"
  fe_count :: nat
  fe_requests :: "h256 list"

text \<open>
  The end of every round: a transaction that is seen for the first time is counted and sent.  The result says whether the
  thread goes on, which it does not when the receiver is gone.
\<close>

definition forward_tx ::
  "('m, 't) lru_api \<Rightarrow> 't \<Rightarrow> bool \<Rightarrow> h256 \<Rightarrow> 'tx mempool_item \<Rightarrow> ('m, 'tx) fetcher \<Rightarrow> bool \<times> ('m, 'tx) fetcher" where
  "forward_tx L now receiver hash item f =
     (case first_seen L now hash (fe_pool f) of
        (False, pool) \<Rightarrow> (True, f\<lparr>fe_pool := pool\<rparr>)
      | (True, pool) \<Rightarrow>
          (let f = f\<lparr>fe_pool := pool, fe_count := Suc (fe_count f)\<rparr>
           in if receiver then (True, f\<lparr>fe_sent := fe_sent f @ [item]\<rparr>) else (False, f)))"

text \<open>The subscription to hashes of \<open>WithHash\<close>; an error of the channel ends the thread.\<close>

definition with_hash_round :: "('m, 't) lru_api \<Rightarrow> string + h256 \<Rightarrow> ('m, 'tx) fetcher \<Rightarrow> bool \<times> ('m, 'tx) fetcher" where
  "with_hash_round L msg f =
     (case msg of
        Inl _ \<Rightarrow> (False, f)
      | Inr hash \<Rightarrow> if hash_exists L hash (fe_pool f) then (True, f) else (True, f\<lparr>fe_requests := fe_requests f @ [hash]\<rparr>))"

text \<open>The subscription of \<open>WithBody\<close>; \<open>None\<close> is a message without a transaction.\<close>

definition with_body_round ::
  "('m, 't) lru_api \<Rightarrow> 'tx tx_api \<Rightarrow> 'tx tx_codec \<Rightarrow> 't \<Rightarrow> bool \<Rightarrow> string + 'tx option \<Rightarrow> ('m, 'tx) fetcher \<Rightarrow> bool \<times> ('m, 'tx) fetcher" where
  "with_body_round L A C now receiver msg f =
     (case msg of
        Inl _ \<Rightarrow> (False, f)
      | Inr None \<Rightarrow> (True, f)
      | Inr (Some tx) \<Rightarrow> forward_tx L now receiver (tx_hash A tx) (PriceItem (with_tx C tx)) f)"

text \<open>
  The bodies of \<open>WithHash\<close>: of the answers only a single result counts (\<open>Some raw\<close>), and only if \<open>parse\<close> finds a
  transaction in it.
\<close>

definition hash_body_round ::
  "('m, 't) lru_api \<Rightarrow> 'tx tx_api \<Rightarrow> 'tx tx_codec \<Rightarrow> ('raw \<Rightarrow> 'tx option) \<Rightarrow> 't \<Rightarrow> bool \<Rightarrow> string + 'raw option \<Rightarrow> ('m, 'tx) fetcher
     \<Rightarrow> bool \<times> ('m, 'tx) fetcher" where
  "hash_body_round L A C parse now receiver msg f =
     (case msg of
        Inl err \<Rightarrow> with_body_round L A C now receiver (Inl err) f
      | Inr answer \<Rightarrow> with_body_round L A C now receiver (Inr (Option.bind answer parse)) f)"

text \<open>\<open>SelfHosted\<close>: the messages are pool transactions; those that cannot be decoded are skipped.\<close>

definition self_hosted_round ::
  "('m, 't) lru_api \<Rightarrow> (u8 list \<Rightarrow> string + 'tx pool_tx) \<Rightarrow> 't \<Rightarrow> bool \<Rightarrow> string + u8 list \<Rightarrow> ('m, 'tx) fetcher \<Rightarrow> bool \<times> ('m, 'tx) fetcher" where
  "self_hosted_round L decode now receiver msg f =
     (case msg of
        Inl _ \<Rightarrow> (False, f)
      | Inr bytes \<Rightarrow>
          (case decode bytes of
             Inl _ \<Rightarrow> (True, f)
           | Inr tx \<Rightarrow> forward_tx L now receiver (ptx_hash tx) (PriceItem tx) f))"

text \<open>\<open>TxFetcher::new\<close> and \<open>start\<close>: the extensions by scope, and the endpoints started before the first that is refused.  The block builder
  adds that of the mempool (\<open>WithMempool::bind\<close>).\<close>

datatype fetcher_ext = WithHash | WithBody "string list" | SelfHosted | WithMempool

definition add_ext :: "string \<Rightarrow> fetcher_ext \<Rightarrow> (string, fetcher_ext) btree_map \<Rightarrow> (string, fetcher_ext) btree_map" where
  "add_ext name ext exts = bt_insert name ext exts"

definition fetcher_new :: "(string, fetcher_ext) btree_map" where
  "fetcher_new =
     add_ext ''self-hosted'' SelfHosted (add_ext ''alchemy'' (WithBody [''alchemy_pendingTransactions''])
       (add_ext ''with-body'' (WithBody [''newPendingTransactions'', ''true'']) (add_ext ''with-hash'' WithHash [])))"

fun fetcher_start ::
  "(string \<Rightarrow> string option) \<Rightarrow> (string, fetcher_ext) btree_map \<Rightarrow> (string \<times> string) list \<Rightarrow> (string \<times> fetcher_ext) list \<Rightarrow> string option \<times> (string \<times> fetcher_ext) list" where
  "fetcher_start connect exts [] started = (None, started)"
| "fetcher_start connect exts ((endpoint, scope) # endpoints) started =
     (if \<not> starts_with ''ws'' endpoint then (Some (''unsupport non-ws endpoint: '' @ endpoint), started)
      else case map_of exts scope of
             None \<Rightarrow> (Some (''unknown scope for '' @ scope), started)
           | Some ext \<Rightarrow>
               (case connect endpoint of
                  Some err \<Rightarrow> (Some (''connect to '' @ endpoint @ '' fail: '' @ err), started)
                | None \<Rightarrow> fetcher_start connect exts endpoints (started @ [(endpoint, ext)])))"

end
