(* ===== verification/Execution_Client.thy ===== *)
theory Execution_Client
  imports Hash_Pool Bytes
begin

text \<open>
  The JSON-RPC client of the execution node and the fetcher of the state behind it:
  \<open>src/common/eth_client/src/execution_client.rs\<close> and \<open>src/common/evm_executor/src/state_fetcher.rs\<close>.

  A call is the name of its method and its parameters.  The client (crate \<open>jsonrpc\<close>) is a parameter: \<open>rpc\<close> sends one call
  and decodes its answer, \<open>req\<close> encodes a call, \<open>multi_rpc\<close> sends encoded calls as one batch and \<open>batch_rpc\<close> one method
  with a list of parameters.  The answers of a batch are raw values \<open>'v\<close>; \<open>raw_api\<close> has their decoders, and \<open>None\<close> is an answer
  that does not decode, on which the source panics (\<open>unwrap\<close>).  \<open>FetchState::get_addr\<close> is a function of \<open>eth_types\<close>
  and a parameter too.
\<close>

section \<open>Calls\<close>

datatype block_selector = SelHash h256 | SelNumber u64 | SelLatest

datatype rpc_param =
    PAddr h160
  | PHash h256
  | PHashes "h256 list"
  | PNumber u64
  | PBlock block_selector
  | PText string
  | PBool bool

type_synonym rpc_call = "string \<times> rpc_param list"

definition chain_id_call :: "(rpc_call \<Rightarrow> 'err + u64) \<Rightarrow> 'err + u64" where
  "chain_id_call rpc = rpc (''eth_chainId'', [])"

definition client_get_code :: "(rpc_call \<Rightarrow> 'err + 'a) \<Rightarrow> h160 \<Rightarrow> block_selector \<Rightarrow> 'err + 'a" where
  "client_get_code rpc address blk = rpc (''eth_getCode'', [PAddr address, PBlock blk])"

definition client_get_storage :: "(rpc_call \<Rightarrow> 'err + 'a) \<Rightarrow> h160 \<Rightarrow> h256 \<Rightarrow> block_selector \<Rightarrow> 'err + 'a" where
  "client_get_storage rpc address key blk = rpc (''eth_getStorageAt'', [PAddr address, PHash key, PBlock blk])"

definition get_block_generic :: "(rpc_call \<Rightarrow> 'err + 'a) \<Rightarrow> block_selector \<Rightarrow> bool \<Rightarrow> 'err + 'a" where
  "get_block_generic rpc selector with_txs =
     (case selector of
        SelHash hash \<Rightarrow> rpc (''eth_getBlockByHash'', [PHash hash, PBool with_txs])
      | SelNumber number \<Rightarrow> rpc (''eth_getBlockByNumber'', [PNumber number, PBool with_txs])
      | SelLatest \<Rightarrow> rpc (''eth_getBlockByNumber'', [PText ''latest'', PBool with_txs]))"

definition get_block_simple :: "(rpc_call \<Rightarrow> 'err + 'a) \<Rightarrow> block_selector \<Rightarrow> 'err + 'a" where
  "get_block_simple rpc selector = get_block_generic rpc selector False"

definition get_block_header :: "(rpc_call \<Rightarrow> 'err + block_header) \<Rightarrow> block_selector \<Rightarrow> 'err + block_header" where
  "get_block_header rpc selector = get_block_generic rpc selector False"

definition get_full_block :: "(rpc_call \<Rightarrow> 'err + 'a) \<Rightarrow> block_selector \<Rightarrow> 'err + 'a" where
  "get_full_block rpc selector = get_block_generic rpc selector True"

definition get_block_number :: "(rpc_call \<Rightarrow> 'err + u64) \<Rightarrow> 'err + u64" where
  "get_block_number rpc = rpc (''eth_blockNumber'', [])"

definition get_proof :: "(rpc_call \<Rightarrow> 'err + 'a) \<Rightarrow> h160 \<Rightarrow> h256 list \<Rightarrow> block_selector \<Rightarrow> 'err + 'a" where
  "get_proof rpc account keys block = rpc (''eth_getProof'', [PAddr account, PHashes keys, PBlock block])"

definition client_get_transaction :: "(rpc_call \<Rightarrow> 'err + 'a) \<Rightarrow> h256 \<Rightarrow> 'err + 'a" where
  "client_get_transaction rpc tx = rpc (''eth_getTransactionByHash'', [PHash tx])"

definition get_dbnodes :: "(string \<Rightarrow> rpc_param list list \<Rightarrow> 'err + 'a list) \<Rightarrow> h256 list \<Rightarrow> 'err + 'a list" where
  "get_dbnodes batch_rpc key = batch_rpc ''debug_dbGet'' (map (\<lambda>item. [PHash item]) key)"

definition get_receipts :: "(string \<Rightarrow> rpc_param list list \<Rightarrow> 'err + 'a list) \<Rightarrow> h256 list \<Rightarrow> 'err + 'a list" where
  "get_receipts batch_rpc hashes = batch_rpc ''eth_getTransactionReceipt'' (map (\<lambda>n. [PHash n]) hashes)"

text \<open>
  The transaction of \<open>eth_createAccessList\<close>: the JSON object of the transaction (\<open>None\<close> if \<open>to_value\<close> gives no object) with
  the sender and without the signature.
\<close>

definition to_tx_map :: "(h160 \<Rightarrow> 'j) \<Rightarrow> ('tx \<Rightarrow> (string, 'j) btree_map option) \<Rightarrow> h160 \<Rightarrow> 'tx \<Rightarrow> (string, 'j) btree_map option" where
  "to_tx_map to_value to_object caller tx =
     map_option (\<lambda>obj. bt_remove ''v'' (bt_remove ''s'' (bt_remove ''r'' (bt_insert ''from'' (to_value caller) obj)))) (to_object tx)"

section \<open>Batches of states\<close>

record fetch_state =
  fs_access_list :: "access_tuple option"
  fs_code :: "h160 option"

text \<open>The key of a \<open>StorageResult\<close> are the bytes of the hash, kept here as the hash.\<close>

record storage_result =
  sg_key :: h256
  sg_value :: h256
  sg_proof :: "u8 list list"

record account_result =
  ac_address :: h160
  ac_balance :: u256
  ac_nonce :: u64
  ac_storage_proof :: "storage_result list"
  ac_account_proof :: "u8 list list"

record fetch_state_result =
  fr_acc :: "account_result option"
  fr_code :: "u8 list option"

definition account_default :: account_result where
  "account_default = \<lparr>ac_address = 0, ac_balance = 0, ac_nonce = 0, ac_storage_proof = [], ac_account_proof = []\<rparr>"

record 'v raw_api =
  raw_u256 :: "'v \<Rightarrow> u256 option"
  raw_u64 :: "'v \<Rightarrow> u64 option"
  raw_bytes :: "'v \<Rightarrow> u8 list option"
  raw_h256 :: "'v \<Rightarrow> h256 option"
  raw_account :: "'v \<Rightarrow> account_result option"

text \<open>The calls of an item, in the order in which they are pushed; an item without an address has none.\<close>

definition item_calls :: "(fetch_state \<Rightarrow> h160 option) \<Rightarrow> block_selector \<Rightarrow> fetch_state \<Rightarrow> rpc_call list" where
  "item_calls get_addr block item =
     (case get_addr item of
        None \<Rightarrow> []
      | Some addr \<Rightarrow>
          [(''eth_getBalance'', [PAddr addr, PBlock block]), (''eth_getTransactionCount'', [PAddr addr, PBlock block])] @
          (case fs_code item of Some addr \<Rightarrow> [(''eth_getCode'', [PAddr addr, PBlock block])] | None \<Rightarrow> []) @
          (case fs_access_list item of
             Some (address, keys) \<Rightarrow> map (\<lambda>key. (''eth_getStorageAt'', [PAddr address, PHash key, PBlock block])) keys
           | None \<Rightarrow> []))"

definition item_proof_calls :: "block_selector \<Rightarrow> fetch_state \<Rightarrow> rpc_call list" where
  "item_proof_calls block item =
     (case fs_access_list item of
        Some (address, keys) \<Rightarrow> [(''eth_getProof'', [PAddr address, PHashes keys, PBlock block])]
      | None \<Rightarrow> []) @
     (case fs_code item of Some addr \<Rightarrow> [(''eth_getCode'', [PAddr addr, PBlock block])] | None \<Rightarrow> [])"

text \<open>The requests, up to the first that cannot be encoded.\<close>

fun push_requests :: "(rpc_call \<Rightarrow> 'err + 'r) \<Rightarrow> rpc_call list \<Rightarrow> 'err + 'r list" where
  "push_requests req [] = Inr []"
| "push_requests req (c # calls) =
     (case req c of
        Inl err \<Rightarrow> Inl err
      | Inr r \<Rightarrow> (case push_requests req calls of Inl err \<Rightarrow> Inl err | Inr rs \<Rightarrow> Inr (r # rs)))"

text \<open>\<open>response[idx]\<close> decoded, and the next index.\<close>

definition response_at :: "('v \<Rightarrow> 'a option) \<Rightarrow> 'v list \<Rightarrow> nat \<Rightarrow> ('a \<times> nat) option" where
  "response_at decode response idx = do { raw \<leftarrow> nth_opt response idx; a \<leftarrow> decode raw; Some (a, Suc idx) }"

fun collect_storage :: "'v raw_api \<Rightarrow> 'v list \<Rightarrow> nat \<Rightarrow> h256 list \<Rightarrow> (storage_result list \<times> nat) option" where
  "collect_storage R response idx [] = Some ([], idx)"
| "collect_storage R response idx (key # keys) =
     do {
       (value, idx) \<leftarrow> response_at (raw_h256 R) response idx;
       (rest, idx) \<leftarrow> collect_storage R response idx keys;
       Some (\<lparr>sg_key = key, sg_value = value, sg_proof = []\<rparr> # rest, idx)
     }"

fun collect_states ::
  "(fetch_state \<Rightarrow> h160 option) \<Rightarrow> 'v raw_api \<Rightarrow> 'v list \<Rightarrow> nat \<Rightarrow> fetch_state list \<Rightarrow> fetch_state_result list option" where
  "collect_states get_addr R response idx [] = Some []"
| "collect_states get_addr R response idx (item # items) =
     (case get_addr item of
        None \<Rightarrow> collect_states get_addr R response idx items
      | Some addr \<Rightarrow>
          do {
            (balance, idx) \<leftarrow> response_at (raw_u256 R) response idx;
            (nonce, idx) \<leftarrow> response_at (raw_u64 R) response idx;
            (code, idx) \<leftarrow>
              (case fs_code item of
                 Some _ \<Rightarrow> map_option (apfst Some) (response_at (raw_bytes R) response idx)
               | None \<Rightarrow> Some (None, idx));
            (storage, idx) \<leftarrow>
              (case fs_access_list item of Some (_, keys) \<Rightarrow> collect_storage R response idx keys | None \<Rightarrow> Some ([], idx));
            let acc = account_default\<lparr>ac_address := addr, ac_balance := balance, ac_nonce := nonce, ac_storage_proof := storage\<rparr>;
            rest \<leftarrow> collect_states get_addr R response idx items;
            Some (\<lparr>fr_acc = Some acc, fr_code = code\<rparr> # rest)
          })"

text \<open>
  The loop of \<open>fetch_states_with_proof\<close>: it takes the answers from an iterator and breaks when there are no more, an answer that
  does not decode panics (\<open>None\<close>).
\<close>

fun collect_proofs :: "'v raw_api \<Rightarrow> 'v list \<Rightarrow> fetch_state list \<Rightarrow> fetch_state_result list option" where
  "collect_proofs R iter [] = Some []"
| "collect_proofs R iter (item # items) =
     (case (fs_access_list item, fs_code item, iter) of
        (None, None, _) \<Rightarrow> map_option (Cons \<lparr>fr_acc = None, fr_code = None\<rparr>) (collect_proofs R iter items)
      | (Some _, None, a # iter) \<Rightarrow>
          do { acc \<leftarrow> raw_account R a; map_option (Cons \<lparr>fr_acc = Some acc, fr_code = None\<rparr>) (collect_proofs R iter items) }
      | (None, Some _, c # iter) \<Rightarrow>
          do { code \<leftarrow> raw_bytes R c; map_option (Cons \<lparr>fr_acc = None, fr_code = Some code\<rparr>) (collect_proofs R iter items) }
      | (Some _, Some _, a # c # iter) \<Rightarrow>
          do { acc \<leftarrow> raw_account R a; code \<leftarrow> raw_bytes R c;
               map_option (Cons \<lparr>fr_acc = Some acc, fr_code = Some code\<rparr>) (collect_proofs R iter items) }
      | (Some _, Some _, [a]) \<Rightarrow> do { acc \<leftarrow> raw_account R a; Some [] }
      | (_, _, []) \<Rightarrow> Some [])"

definition fetch_states_with_proof ::
  "'v raw_api \<Rightarrow> (rpc_call \<Rightarrow> 'err + 'r) \<Rightarrow> ('r list \<Rightarrow> 'err + 'v list) \<Rightarrow> fetch_state list \<Rightarrow> block_selector
     \<Rightarrow> ('err, fetch_state_result list) outcome" where
  "fetch_states_with_proof R req multi_rpc list block =
     (case push_requests req (concat (map (item_proof_calls block) list)) of
        Inl err \<Rightarrow> Err err
      | Inr request \<Rightarrow>
          (case multi_rpc request of
             Inl err \<Rightarrow> Err err
           | Inr result \<Rightarrow>
               (case collect_proofs R result list of
                  None \<Rightarrow> Panic
                | Some out \<Rightarrow> if length out = length list then Ok out else Panic)))"

definition fetch_states ::
  "(fetch_state \<Rightarrow> h160 option) \<Rightarrow> 'v raw_api \<Rightarrow> (rpc_call \<Rightarrow> 'err + 'r) \<Rightarrow> ('r list \<Rightarrow> 'err + 'v list) \<Rightarrow> fetch_state list
     \<Rightarrow> block_selector \<Rightarrow> bool \<Rightarrow> ('err, fetch_state_result list) outcome" where
  "fetch_states get_addr R req multi_rpc list block with_proof =
     (if with_proof then fetch_states_with_proof R req multi_rpc list block
      else
        case push_requests req (concat (map (item_calls get_addr block) list)) of
          Inl err \<Rightarrow> Err err
        | Inr request \<Rightarrow>
            (case multi_rpc request of
               Inl err \<Rightarrow> Err err
             | Inr response \<Rightarrow> (case collect_states get_addr R response 0 list of None \<Rightarrow> Panic | Some out \<Rightarrow> Ok out)))"

section \<open>The fetcher of a block\<close>

record block_state_fetcher =
  bf_blk :: block_selector
  bf_acc :: "h160 option"

text \<open>\<open>statedb::Error::CallRemoteFail\<close>: the prefix of its message and the error it prints.\<close>

datatype 'err remote_error = CallRemoteFail string 'err

fun map_remote :: "string \<Rightarrow> ('err, 'a) outcome \<Rightarrow> ('err remote_error, 'a) outcome" where
  "map_remote prefix (Ok a) = Ok a"
| "map_remote prefix (Err err) = Err (CallRemoteFail prefix err)"
| "map_remote prefix Panic = Panic"

definition outcome_of :: "'err + 'a \<Rightarrow> ('err, 'a) outcome" where
  "outcome_of r = (case r of Inl err \<Rightarrow> Err err | Inr a \<Rightarrow> Ok a)"

definition state_fetcher_new :: "block_selector \<Rightarrow> block_state_fetcher" where
  "state_fetcher_new blk = \<lparr>bf_blk = blk, bf_acc = None\<rparr>"

definition with_acc :: "h160 \<Rightarrow> block_state_fetcher \<Rightarrow> block_state_fetcher" where
  "with_acc address f = \<lparr>bf_blk = bf_blk f, bf_acc = Some address\<rparr>"

definition fetcher_get_block_hash ::
  "(block_header \<Rightarrow> h256) \<Rightarrow> (rpc_call \<Rightarrow> 'err + block_header) \<Rightarrow> u64 \<Rightarrow> ('err remote_error, h256) outcome" where
  "fetcher_get_block_hash header_hash rpc number =
     map_remote ''[get_block_hash] '' (outcome_of (map_sum id header_hash (get_block_header rpc (SelNumber number))))"

definition fetcher_get_account ::
  "(fetch_state \<Rightarrow> h160 option) \<Rightarrow> 'v raw_api \<Rightarrow> (rpc_call \<Rightarrow> 'err + 'r) \<Rightarrow> ('r list \<Rightarrow> 'err + 'v list) \<Rightarrow> block_state_fetcher \<Rightarrow> h160
     \<Rightarrow> ('err remote_error, u256 \<times> u64 \<times> u8 list) outcome" where
  "fetcher_get_account get_addr R req multi_rpc f address =
     (let fetch_state = \<lparr>fs_access_list = Some (address, []), fs_code = Some address\<rparr>
      in case map_remote [] (fetch_states get_addr R req multi_rpc [fetch_state] (bf_blk f) False) of
           Err err \<Rightarrow> Err err
         | Panic \<Rightarrow> Panic
         | Ok states \<Rightarrow>
             (if states = [] then Panic
              else case (fr_acc (last states), fr_code (last states)) of
                     (Some acc, Some code) \<Rightarrow> Ok (ac_balance acc, ac_nonce acc, code)
                   | _ \<Rightarrow> Panic))"

definition fetcher_get_storage ::
  "(rpc_call \<Rightarrow> 'err + h256) \<Rightarrow> block_state_fetcher \<Rightarrow> h160 \<Rightarrow> h256 \<Rightarrow> ('err remote_error, h256) outcome" where
  "fetcher_get_storage rpc f address key = map_remote [] (outcome_of (client_get_storage rpc address key (bf_blk f)))"

definition fetcher_get_code ::
  "(rpc_call \<Rightarrow> 'err + u8 list) \<Rightarrow> block_state_fetcher \<Rightarrow> h160 \<Rightarrow> ('err remote_error, u8 list) outcome" where
  "fetcher_get_code rpc f address = map_remote ''[get_block_hash] '' (outcome_of (client_get_code rpc address (bf_blk f)))"

definition prefetch_states ::
  "(fetch_state \<Rightarrow> h160 option) \<Rightarrow> 'v raw_api \<Rightarrow> (rpc_call \<Rightarrow> 'err + 'r) \<Rightarrow> ('r list \<Rightarrow> 'err + 'v list) \<Rightarrow> block_state_fetcher
     \<Rightarrow> fetch_state list \<Rightarrow> bool \<Rightarrow> ('err remote_error, fetch_state_result list) outcome" where
  "prefetch_states get_addr R req multi_rpc f list with_proof =
     map_remote ''[get_block_hash] '' (fetch_states get_addr R req multi_rpc list (bf_blk f) with_proof)"

text \<open>The keys are slices of 32 or 20 bytes, which is asserted.\<close>

definition fetch_proofs ::
  "(rpc_call \<Rightarrow> 'err + account_result) \<Rightarrow> block_state_fetcher \<Rightarrow> u8 list \<Rightarrow> ('err, u8 list list) outcome" where
  "fetch_proofs rpc f key =
     (case bf_acc f of
        Some acc \<Rightarrow>
          (if length key \<noteq> 32 then Panic
           else case get_proof rpc acc [word_of_nat (be_nat key)] (bf_blk f) of
                  Inl err \<Rightarrow> Err err
                | Inr result \<Rightarrow>
                    (case ac_storage_proof result of storage # _ \<Rightarrow> Ok (sg_proof storage) | [] \<Rightarrow> Panic))
      | None \<Rightarrow>
          (if length key \<noteq> 20 then Panic
           else case get_proof rpc (word_of_nat (be_nat key)) [] (bf_blk f) of
                  Inl err \<Rightarrow> Err err
                | Inr result \<Rightarrow> Ok (ac_account_proof result)))"

definition get_nodes :: "(string \<Rightarrow> rpc_param list list \<Rightarrow> 'err + u8 list list) \<Rightarrow> h256 list \<Rightarrow> ('err, u8 list list) outcome" where
  "get_nodes batch_rpc node = outcome_of (get_dbnodes batch_rpc node)"

section \<open>What a batch returns\<close>

text \<open>The state of the chain as a node knows it.\<close>

record chain_state =
  cs_balance :: "h160 \<Rightarrow> block_selector \<Rightarrow> u256"
  cs_nonce :: "h160 \<Rightarrow> block_selector \<Rightarrow> u64"
  cs_code :: "h160 \<Rightarrow> block_selector \<Rightarrow> u8 list"
  cs_storage :: "h160 \<Rightarrow> h256 \<Rightarrow> block_selector \<Rightarrow> h256"
  cs_proof :: "h160 \<Rightarrow> h256 list \<Rightarrow> block_selector \<Rightarrow> account_result"

text \<open>
  A node that answers a batch with one answer per call, in the order of the calls (the client sorts the answers by the identifier of
  the request), each the encoding of what the Ethereum JSON-RPC specification says of the method.
\<close>

definition lawful_node ::
  "'v raw_api \<Rightarrow> (rpc_call \<Rightarrow> 'err + 'r) \<Rightarrow> ('r list \<Rightarrow> 'err + 'v list) \<Rightarrow> (rpc_call \<Rightarrow> 'v) \<Rightarrow> chain_state \<Rightarrow> bool" where
  "lawful_node R req multi_rpc answer N \<longleftrightarrow>
     (\<forall>c. \<exists>r. req c = Inr r) \<and>
     (\<forall>calls. multi_rpc (map (projr \<circ> req) calls) = Inr (map answer calls)) \<and>
     (\<forall>a b. raw_u256 R (answer (''eth_getBalance'', [PAddr a, PBlock b])) = Some (cs_balance N a b)) \<and>
     (\<forall>a b. raw_u64 R (answer (''eth_getTransactionCount'', [PAddr a, PBlock b])) = Some (cs_nonce N a b)) \<and>
     (\<forall>a b. raw_bytes R (answer (''eth_getCode'', [PAddr a, PBlock b])) = Some (cs_code N a b)) \<and>
     (\<forall>a k b. raw_h256 R (answer (''eth_getStorageAt'', [PAddr a, PHash k, PBlock b])) = Some (cs_storage N a k b)) \<and>
     (\<forall>a ks b. raw_account R (answer (''eth_getProof'', [PAddr a, PHashes ks, PBlock b])) = Some (cs_proof N a ks b))"

text \<open>What an item asks for, from the chain.\<close>

definition state_at :: "chain_state \<Rightarrow> block_selector \<Rightarrow> h160 \<Rightarrow> fetch_state \<Rightarrow> fetch_state_result" where
  "state_at N block addr item =
     \<lparr>fr_acc = Some (account_default\<lparr>ac_address := addr, ac_balance := cs_balance N addr block, ac_nonce := cs_nonce N addr block,
        ac_storage_proof :=
          (case fs_access_list item of
             Some (a, keys) \<Rightarrow> map (\<lambda>k. \<lparr>sg_key = k, sg_value = cs_storage N a k block, sg_proof = []\<rparr>) keys
           | None \<Rightarrow> [])\<rparr>),
      fr_code = map_option (\<lambda>a. cs_code N a block) (fs_code item)\<rparr>"

definition proof_at :: "chain_state \<Rightarrow> block_selector \<Rightarrow> fetch_state \<Rightarrow> fetch_state_result" where
  "proof_at N block item =
     \<lparr>fr_acc = map_option (\<lambda>(a, keys). cs_proof N a keys block) (fs_access_list item),
      fr_code = map_option (\<lambda>a. cs_code N a block) (fs_code item)\<rparr>"

lemma push_requests_total: "\<forall>c. \<exists>r. req c = Inr r \<Longrightarrow> push_requests req calls = Inr (map (projr \<circ> req) calls)"
proof (induction calls)
  case (Cons c calls)
  then obtain r where "req c = Inr r" by blast
  with Cons show ?case by simp
qed simp

lemma lawful_node_batch:
  assumes "lawful_node R req multi_rpc answer N"
  shows "push_requests req calls = Inr (map (projr \<circ> req) calls)" and "multi_rpc (map (projr \<circ> req) calls) = Inr (map answer calls)"
  using assms push_requests_total [of req calls] by (simp_all add: lawful_node_def)

lemma lawful_node_answers:
  assumes "lawful_node R req multi_rpc answer N"
  shows "raw_u256 R (answer (''eth_getBalance'', [PAddr a, PBlock b])) = Some (cs_balance N a b)"
    and "raw_u64 R (answer (''eth_getTransactionCount'', [PAddr a, PBlock b])) = Some (cs_nonce N a b)"
    and "raw_bytes R (answer (''eth_getCode'', [PAddr a, PBlock b])) = Some (cs_code N a b)"
    and "raw_h256 R (answer (''eth_getStorageAt'', [PAddr a, PHash k, PBlock b])) = Some (cs_storage N a k b)"
    and "raw_account R (answer (''eth_getProof'', [PAddr a, PHashes ks, PBlock b])) = Some (cs_proof N a ks b)"
  using assms by (simp_all add: lawful_node_def)

text \<open>The cursor: the answers from it on are those of the calls that are left.\<close>

lemma drop_next: "drop idx xs = x # rest \<Longrightarrow> drop (Suc idx) xs = rest"
  by (metis drop_Suc list.sel(3) tl_drop)

lemma response_at_next: "drop idx response = x # rest \<Longrightarrow> response_at decode response idx = map_option (\<lambda>a. (a, Suc idx)) (decode x)"
  using nth_via_drop [of idx response x rest] drop_eq_Nil [of idx response]
  by (cases "decode x") (auto simp: response_at_def nth_opt_def)

lemma collect_storage_next:
  assumes "lawful_node R req multi_rpc answer N"
    and "drop idx response = map (\<lambda>k. answer (''eth_getStorageAt'', [PAddr a, PHash k, PBlock b])) keys @ rest"
  shows "collect_storage R response idx keys =
      Some (map (\<lambda>k. \<lparr>sg_key = k, sg_value = cs_storage N a k b, sg_proof = []\<rparr>) keys, idx + length keys)"
    and "drop (idx + length keys) response = rest"
  using assms(2)
proof (induction keys arbitrary: idx)
  case (Cons k keys)
  {
    case 1
    with Cons(1) [of "Suc idx"] show ?case
      by (simp add: response_at_next drop_next lawful_node_answers [OF assms(1)])
  next
    case 2
    with Cons(2) [of "Suc idx"] show ?case by (simp add: drop_next)
  }
qed simp_all

lemma collect_access_next:
  assumes node: "lawful_node R req multi_rpc answer N"
    and "drop idx response = (case access of Some (a, keys) \<Rightarrow> map (\<lambda>k. answer (''eth_getStorageAt'', [PAddr a, PHash k, PBlock b])) keys | None \<Rightarrow> []) @ rest"
  shows "\<exists>i. (case access of Some (_, keys) \<Rightarrow> collect_storage R response idx keys | None \<Rightarrow> Some ([], idx)) =
      Some (case access of Some (a, keys) \<Rightarrow> map (\<lambda>k. \<lparr>sg_key = k, sg_value = cs_storage N a k b, sg_proof = []\<rparr>) keys | None \<Rightarrow> [], i) \<and>
    drop i response = rest"
proof (cases access)
  case (Some p)
  then obtain a keys where "access = Some (a, keys)" by (cases p) simp
  with collect_storage_next [OF node, of idx response a b keys rest] assms(2) show ?thesis by simp
qed (use assms in simp)

lemma collect_states_next:
  assumes node: "lawful_node R req multi_rpc answer N"
    and "drop idx response = map answer (concat (map (item_calls get_addr block) items))"
  shows "collect_states get_addr R response idx items =
    Some (concat (map (\<lambda>item. case get_addr item of Some addr \<Rightarrow> [state_at N block addr item] | None \<Rightarrow> []) items))"
  using assms(2)
proof (induction items arbitrary: idx)
  case (Cons item items)
  show ?case
  proof (cases "get_addr item")
    case None
    then show ?thesis using Cons by (simp add: item_calls_def)
  next
    case (Some addr)
    let ?rest = "map answer (concat (map (item_calls get_addr block) items))"
    let ?stor = "case fs_access_list item of Some (a, keys) \<Rightarrow> map (\<lambda>k. answer (''eth_getStorageAt'', [PAddr a, PHash k, PBlock block])) keys | None \<Rightarrow> []"
    let ?code = "case fs_code item of Some a \<Rightarrow> [answer (''eth_getCode'', [PAddr a, PBlock block])] | None \<Rightarrow> []"
    let ?bal = "answer (''eth_getBalance'', [PAddr addr, PBlock block])"
    let ?cnt = "answer (''eth_getTransactionCount'', [PAddr addr, PBlock block])"
    let ?i = "Suc (Suc idx)" and ?j = "Suc (Suc idx) + length ?code"
    note answers = lawful_node_answers [OF node]
    have d0: "drop idx response = ?bal # ?cnt # ?code @ ?stor @ ?rest"
      using Cons.prems by (simp add: item_calls_def [of get_addr block item] Some comp_def split: option.splits)
    then have d1: "drop (Suc idx) response = ?cnt # ?code @ ?stor @ ?rest" by (rule drop_next)
    then have d2: "drop ?i response = ?code @ ?stor @ ?rest" by (rule drop_next)
    then have d3: "drop ?j response = ?stor @ ?rest" by (cases "fs_code item") (simp_all add: drop_next)
    have code: "(case fs_code item of Some _ \<Rightarrow> map_option (apfst Some) (response_at (raw_bytes R) response ?i) | None \<Rightarrow> Some (None, ?i)) =
        Some (map_option (\<lambda>a. cs_code N a block) (fs_code item), ?j)"
      using d2 by (cases "fs_code item") (simp_all add: response_at_next answers)
    obtain i where stor: "(case fs_access_list item of Some (_, keys) \<Rightarrow> collect_storage R response ?j keys | None \<Rightarrow> Some ([], ?j)) =
        Some (case fs_access_list item of Some (a, keys) \<Rightarrow> map (\<lambda>k. \<lparr>sg_key = k, sg_value = cs_storage N a k block, sg_proof = []\<rparr>) keys
                                        | None \<Rightarrow> [], i)" and "drop i response = ?rest"
      using collect_access_next [OF node d3] by blast
    note Cons.IH [OF this(2)]
    then show ?thesis
      by (simp only: collect_states.simps Some option.case response_at_next [OF d0] response_at_next [OF d1] answers code stor
          option.map bind.bind_lunit prod.case Let_def) (simp add: Some state_at_def)
  qed
qed simp

lemma collect_proofs_next:
  assumes node: "lawful_node R req multi_rpc answer N"
  shows "collect_proofs R (map answer (concat (map (item_proof_calls block) items))) items = Some (map (proof_at N block) items)"
proof (induction items)
  case (Cons item items)
  then show ?case
    by (cases "fs_access_list item"; cases "fs_code item")
      (auto simp: item_proof_calls_def [of block item] proof_at_def lawful_node_answers [OF node])
qed simp

lemma fetch_states_plain:
  assumes "lawful_node R req multi_rpc answer N"
  shows "fetch_states get_addr R req multi_rpc list block False =
    Ok (concat (map (\<lambda>item. case get_addr item of Some addr \<Rightarrow> [state_at N block addr item] | None \<Rightarrow> []) list))"
  using collect_states_next [OF assms, of 0 _ get_addr block list] by (simp add: fetch_states_def lawful_node_batch [OF assms])

text \<open>C37: \<open>fetch_states\<close> reads the state of the given block and never mixes up the answers of its batch: for a node that answers a
  batch in order, it returns, for every item with an address and in the order of the items, the balance and nonce of the address,
  the code of the code's address and the values of the access list's keys; with proofs it returns, for every item, the account
  of its access list with the proofs and its code, so that the assertion on the length holds; and a batch that fails is
  returned as the error in both cases.\<close>

theorem fetch_states_exact:
  assumes node: "lawful_node R req multi_rpc answer N"
  shows "fetch_states get_addr R req multi_rpc list block False =
      Ok (concat (map (\<lambda>item. case get_addr item of Some addr \<Rightarrow> [state_at N block addr item] | None \<Rightarrow> []) list)) \<and>
    fetch_states get_addr R req multi_rpc list block True = Ok (map (proof_at N block) list) \<and>
    fetch_states get_addr R req (\<lambda>_. Inl err) list block with_proof = Err err"
  using fetch_states_plain [OF node] collect_proofs_next [OF node, of block list]
  by (auto simp: fetch_states_def fetch_states_with_proof_def lawful_node_batch [OF node])

text \<open>The account the state database asks for, when \<open>get_addr\<close> finds the address of an item that names only one.\<close>

theorem get_account_reads:
  assumes node: "lawful_node R req multi_rpc answer N"
    and addr: "get_addr \<lparr>fs_access_list = Some (address, []), fs_code = Some address\<rparr> = Some address"
  shows "fetcher_get_account get_addr R req multi_rpc f address =
    Ok (cs_balance N address (bf_blk f), cs_nonce N address (bf_blk f), cs_code N address (bf_blk f))"
  by (simp add: fetcher_get_account_def fetch_states_plain [OF node] addr state_at_def)

text \<open>Without the address of the item the account is not an error but a panic.\<close>

theorem get_account_no_address:
  assumes node: "lawful_node R req multi_rpc answer N"
    and addr: "get_addr \<lparr>fs_access_list = Some (address, []), fs_code = Some address\<rparr> = None"
  shows "fetcher_get_account get_addr R req multi_rpc f address = Panic"
  by (simp add: fetcher_get_account_def fetch_states_plain [OF node] addr)

section \<open>A concrete node\<close>

text \<open>A node whose raw answers are the calls themselves; balances and nonces are read off the address.\<close>

definition demo_raw :: "rpc_call raw_api" where
  "demo_raw =
     \<lparr>raw_u256 = (\<lambda>(_, ps). case ps of [PAddr a, _] \<Rightarrow> Some (ucast a + 100) | _ \<Rightarrow> None),
      raw_u64 = (\<lambda>(_, ps). case ps of [PAddr a, _] \<Rightarrow> Some (ucast a) | _ \<Rightarrow> None),
      raw_bytes = (\<lambda>(_, ps). case ps of [PAddr a, _] \<Rightarrow> Some [ucast a] | _ \<Rightarrow> None),
      raw_h256 = (\<lambda>(_, ps). case ps of [_, PHash k, _] \<Rightarrow> Some (k + 1) | _ \<Rightarrow> None),
      raw_account = (\<lambda>(_, ps). case ps of [PAddr a, _, _] \<Rightarrow> Some (account_default\<lparr>ac_address := a\<rparr>) | _ \<Rightarrow> None)\<rparr>"

definition demo_chain :: chain_state where
  "demo_chain =
     \<lparr>cs_balance = (\<lambda>a _. ucast a + 100), cs_nonce = (\<lambda>a _. ucast a), cs_code = (\<lambda>a _. [ucast a]), cs_storage = (\<lambda>_ k _. k + 1),
      cs_proof = (\<lambda>a _ _. account_default\<lparr>ac_address := a\<rparr>)\<rparr>"

definition demo_get_addr :: "fetch_state \<Rightarrow> h160 option" where
  "demo_get_addr item = (case fs_access_list item of Some (a, _) \<Rightarrow> Some a | None \<Rightarrow> fs_code item)"

lemma demo_node_lawful: "lawful_node demo_raw Inr Inr (\<lambda>c. c) demo_chain"
  by (simp add: lawful_node_def demo_raw_def demo_chain_def comp_def)

theorem fetch_states_exact_witness:
  "fetch_states demo_get_addr demo_raw Inr Inr
       [\<lparr>fs_access_list = Some (7, [1, 2]), fs_code = None\<rparr>, \<lparr>fs_access_list = None, fs_code = None\<rparr>, \<lparr>fs_access_list = None, fs_code = Some 9\<rparr>]
       SelLatest False =
     (Ok [\<lparr>fr_acc = Some \<lparr>ac_address = 7, ac_balance = 107, ac_nonce = 7,
             ac_storage_proof = [\<lparr>sg_key = 1, sg_value = 2, sg_proof = []\<rparr>, \<lparr>sg_key = 2, sg_value = 3, sg_proof = []\<rparr>], ac_account_proof = []\<rparr>, fr_code = None\<rparr>,
          \<lparr>fr_acc = Some \<lparr>ac_address = 9, ac_balance = 109, ac_nonce = 9, ac_storage_proof = [], ac_account_proof = []\<rparr>, fr_code = Some [9]\<rparr>]
      :: (string, fetch_state_result list) outcome) \<and>
   fetch_states demo_get_addr demo_raw Inr Inr [\<lparr>fs_access_list = None, fs_code = None\<rparr>, \<lparr>fs_access_list = None, fs_code = Some 9\<rparr>] SelLatest True =
     (Ok [\<lparr>fr_acc = None, fr_code = None\<rparr>, \<lparr>fr_acc = None, fr_code = Some [9]\<rparr>] :: (string, fetch_state_result list) outcome)"
  by (simp add: fetch_states_exact [OF demo_node_lawful] state_at_def proof_at_def demo_get_addr_def demo_chain_def account_default_def)

section \<open>The remaining calls\<close>

text \<open>The map sent to \<open>eth_createAccessList\<close> names the caller and carries no signature.\<close>

theorem to_tx_map_unsigned:
  assumes "to_object tx = Some obj"
  shows "\<exists>out. to_tx_map to_value to_object caller tx = Some out \<and> map_of out ''from'' = Some (to_value caller) \<and>
    (\<forall>k \<in> {''r'', ''s'', ''v''}. map_of out k = None) \<and> (\<forall>k. k \<notin> {''from'', ''r'', ''s'', ''v''} \<longrightarrow> map_of out k = map_of obj k)"
  using assms by (simp add: to_tx_map_def)

text \<open>A proof fetched for a storage slot of an account asks for one key, and the first storage proof is its answer.\<close>

theorem fetch_proofs_storage:
  assumes "length key = 32" and "rpc (''eth_getProof'', [PAddr acc, PHashes [word_of_nat (be_nat key)], PBlock (bf_blk f)]) = Inr result"
  shows "fetch_proofs rpc (with_acc acc f) key = (case ac_storage_proof result of s # _ \<Rightarrow> Ok (sg_proof s) | [] \<Rightarrow> Panic)"
  using assms by (simp add: fetch_proofs_def with_acc_def get_proof_def)

end
