(* ===== verification/Simulator.thy ===== *)
theory Simulator
  imports Executor "HOL-Library.Multiset"
begin

text \<open>
  The simulator of transactions: \<open>src/common/block_builder/src/simulator.rs\<close>.

  A task runs in a thread pool and sends one result, or none if it panics.  What it asks of its surroundings (whether
  the queue was full, whether the service is alive, the access list of the execution node) is an argument.
  \<open>simulate\<close> starts a task per transaction and collects the results in the order in which they arrive, which is
  an argument too: the tags of the tasks, in the order of their messages.
\<close>

datatype 'e simulate_error =
    QueueStalled
  | ExecuteFail "'e execute_error"
  | StateFail 'e
  | UnexpectedExited
  | UnknownFail

record ('tx, 'e) simulate_result =
  sr_tx :: "'tx pool_tx"
  sr_err :: "'e simulate_error option"

text \<open>The answer of \<open>eth_createAccessList\<close>.\<close>

record access_list_result =
  al_access_list :: "access_tuple list"
  al_gas_used :: u64
  al_error :: "string option"

record ('tx, 's, 'e) simulator =
  su_api :: "'tx tx_api"
  su_db :: "('s, 'e) statedb"
  su_transact :: "'tx exec_context \<Rightarrow> evm_call \<Rightarrow> 's \<Rightarrow> evm_output \<times> 's"
  su_export_access_list :: "'s \<Rightarrow> h160 option \<Rightarrow> access_tuple list"
  su_parent :: "'s \<Rightarrow> block_header"
  su_create_access_list :: "h160 \<Rightarrow> 'tx \<Rightarrow> u64 \<Rightarrow> string + access_list_result"
  su_lossy :: "u8 list \<Rightarrow> string"

section \<open>One transaction\<close>

definition simulate_inner ::
  "('tx, 's, 'e) simulator \<Rightarrow> 's \<Rightarrow> block_header \<Rightarrow> 'tx pool_tx \<Rightarrow> ('e simulate_error, 'tx pool_tx) outcome" where
  "simulate_inner M state header tx =
     (let caller = tx_sender (su_api M) (ptx_tx tx);
          ctx = \<lparr>cx_caller = caller, cx_tx = tx, cx_header = header\<rparr>
      in case executor_dry_run (su_api M) (su_db M) (su_transact M) ctx state of
           (Err e, _) \<Rightarrow> Err (ExecuteFail e)
         | (Panic, _) \<Rightarrow> Panic
         | (Ok result, state) \<Rightarrow>
             (let access_list = su_export_access_list M state (Some 0) in
              case sdb_flush (su_db M) state of
                (Inl e, _) \<Rightarrow> Err (StateFail e)
              | (Inr _, state) \<Rightarrow>
                  Ok \<lparr>ptx_caller = caller, ptx_tx = ptx_tx tx, ptx_access_list = access_list, ptx_hash = ptx_hash tx,
                      ptx_gas = xr_used_gas result, ptx_allow_revert = True, ptx_block = h_number (su_parent M state),
                      ptx_result = su_lossy M (xr_err result)\<rparr>))"

text \<open>The task without the thread pool: the access list of the node, when asked for, or the dry run.\<close>

definition simulate_task ::
  "('tx, 's, 'e) simulator \<Rightarrow> bool \<Rightarrow> bool \<Rightarrow> 's \<Rightarrow> block_header \<Rightarrow> 'tx pool_tx \<Rightarrow> ('tx, 'e) simulate_result option" where
  "simulate_task M alive external state header pooltx =
     (if \<not> alive then Some \<lparr>sr_tx = pooltx, sr_err = Some QueueStalled\<rparr>
      else
        let parent = su_parent M state;
            asked = (if external \<and> tx_effective_gas_tip (su_api M) (ptx_tx pooltx) (Some (h_base_fee_per_gas parent)) \<noteq> None
                     then Some (su_create_access_list M (tx_sender (su_api M) (ptx_tx pooltx)) (ptx_tx pooltx) (h_number parent))
                     else None)
        in case asked of
             Some (Inr list) \<Rightarrow>
               Some \<lparr>sr_tx = pooltx\<lparr>ptx_access_list := al_access_list list, ptx_gas := al_gas_used list, ptx_block := h_number parent,
                       ptx_result := (case al_error list of Some e \<Rightarrow> e | None \<Rightarrow> [])\<rparr>, sr_err = None\<rparr>
           | _ \<Rightarrow>
               (case simulate_inner M state header pooltx of
                  Ok tx \<Rightarrow> Some \<lparr>sr_tx = tx, sr_err = None\<rparr>
                | Err err \<Rightarrow> Some \<lparr>sr_tx = pooltx, sr_err = Some err\<rparr>
                | Panic \<Rightarrow> None))"

definition simulate_async ::
  "('tx, 's, 'e) simulator \<Rightarrow> bool \<Rightarrow> bool \<Rightarrow> bool \<Rightarrow> bool \<Rightarrow> 's \<Rightarrow> block_header \<Rightarrow> 'tx pool_tx \<Rightarrow> ('tx, 'e) simulate_result option" where
  "simulate_async M stalled alive force external state header pooltx =
     (if stalled \<and> \<not> force then Some \<lparr>sr_tx = pooltx, sr_err = Some QueueStalled\<rparr>
      else simulate_task M alive external state header pooltx)"

section \<open>A list of transactions\<close>

text \<open>The loop over \<open>receiver.recv()\<close>: \<open>n\<close> more messages are expected, \<open>arrivals\<close> are those that come.\<close>

fun simulate_collect ::
  "nat \<Rightarrow> (nat \<times> ('tx, 'e) simulate_result) list \<Rightarrow> 'tx pool_tx option list \<Rightarrow> 'e simulate_error + 'tx pool_tx option list" where
  "simulate_collect 0 arrivals out = Inr out"
| "simulate_collect (Suc n) [] out = Inl UnexpectedExited"
| "simulate_collect (Suc n) ((tag, result) # arrivals) out =
     (case sr_err result of
        Some err \<Rightarrow> Inl err
      | None \<Rightarrow> simulate_collect n arrivals (out[tag := Some (sr_tx result)]))"

text \<open>\<open>task idx\<close> is what the task of a transaction sends.\<close>

definition simulate_with ::
  "(nat \<Rightarrow> ('tx, 'e) simulate_result option) \<Rightarrow> nat list \<Rightarrow> nat \<Rightarrow> 'e simulate_error + 'tx pool_tx list" where
  "simulate_with task order len =
     (case simulate_collect len (List.map_filter (\<lambda>idx. map_option (Pair idx) (task idx)) order) (replicate len None) of
        Inl err \<Rightarrow> Inl err
      | Inr out \<Rightarrow> if None \<in> set out then Inl UnknownFail else Inr (map the out))"

definition simulate_tasks ::
  "('tx, 's, 'e) simulator \<Rightarrow> (nat \<Rightarrow> bool) \<Rightarrow> (nat \<Rightarrow> bool) \<Rightarrow> 's \<Rightarrow> block_header \<Rightarrow> 'tx pool_tx list \<Rightarrow> bool \<Rightarrow> bool
     \<Rightarrow> nat \<Rightarrow> ('tx, 'e) simulate_result option" where
  "simulate_tasks M stalled alive state header pooltxs external force idx =
     simulate_async M (stalled idx) (alive idx) force external state header (pooltxs ! idx)"

definition simulate ::
  "('tx, 's, 'e) simulator \<Rightarrow> (nat \<Rightarrow> bool) \<Rightarrow> (nat \<Rightarrow> bool) \<Rightarrow> nat list \<Rightarrow> 's \<Rightarrow> block_header \<Rightarrow> 'tx pool_tx list \<Rightarrow> bool \<Rightarrow> bool
     \<Rightarrow> 'e simulate_error + 'tx pool_tx list" where
  "simulate M stalled alive order state header pooltxs external force =
     simulate_with (simulate_tasks M stalled alive state header pooltxs external force) order (length pooltxs)"

section \<open>The order of the results\<close>

lemma simulate_collect_Inr:
  assumes "\<And>tag r. (tag, r) \<in> set arrivals \<Longrightarrow> sr_err r = None" and "length arrivals = n"
  shows "simulate_collect n arrivals out = Inr (fold (\<lambda>(tag, r) out. out[tag := Some (sr_tx r)]) arrivals out)"
  using assms
proof (induction arrivals arbitrary: n out)
  case (Cons a arrivals)
  obtain tag r where a: "a = (tag, r)" by force
  have "sr_err r = None" using Cons.prems(1) [of tag r] by (simp add: a)
  then show ?case using Cons.IH [of "n - 1"] Cons.prems by (cases n) (auto simp: a)
qed simp

lemma simulate_collect_Inl:
  assumes "(\<exists>(tag, r) \<in> set arrivals. sr_err r \<noteq> None) \<or> length arrivals < n" and "length arrivals \<le> n"
  shows "\<exists>e. simulate_collect n arrivals out = Inl e \<and> (e = UnexpectedExited \<or> (\<exists>(tag, r) \<in> set arrivals. sr_err r = Some e))"
  using assms
proof (induction arrivals arbitrary: n out)
  case Nil
  then show ?case by (cases n) auto
next
  case (Cons a arrivals)
  obtain tag r where a: "a = (tag, r)" by force
  show ?case
  proof (cases n)
    case 0
    then show ?thesis using Cons.prems by simp
  next
    case (Suc k)
    show ?thesis
    proof (cases "sr_err r")
      case None
      then have "(\<exists>(tag, r) \<in> set arrivals. sr_err r \<noteq> None) \<or> length arrivals < k" "length arrivals \<le> k"
        using Cons.prems by (auto simp: a Suc)
      from Cons.IH [OF this, of "out[tag := Some (sr_tx r)]"] None show ?thesis by (auto simp: a Suc)
    next
      case (Some e)
      then show ?thesis by (auto simp: a Suc)
    qed
  qed
qed

lemma fold_update_length: "length (fold (\<lambda>(tag, r) out. out[tag := Some (sr_tx r)]) arrivals out) = length out"
  by (induction arrivals arbitrary: out) auto

lemma fold_update_nth:
  assumes "distinct (map fst arrivals)" and "i < length out"
  shows "fold (\<lambda>(tag, r) out. out[tag := Some (sr_tx r)]) arrivals out ! i =
    (case map_of arrivals i of Some r \<Rightarrow> Some (sr_tx r) | None \<Rightarrow> out ! i)"
  using assms
proof (induction arrivals arbitrary: out)
  case (Cons a arrivals)
  obtain tag r where a: "a = (tag, r)" by force
  have "map_of arrivals tag = None" using Cons.prems(1) by (simp add: a map_of_eq_None_iff)
  then show ?case using Cons.IH [of "out[tag := Some (sr_tx r)]"] Cons.prems by (auto simp: a split: option.splits)
qed simp

lemma arrivals_of:
  assumes "distinct order"
  shows "distinct (map fst (List.map_filter (\<lambda>idx. map_option (Pair idx) (task idx)) order))"
    and "map_of (List.map_filter (\<lambda>idx. map_option (Pair idx) (task idx)) order) i = (if i \<in> set order then task i else None)"
    and "set (List.map_filter (\<lambda>idx. map_option (Pair idx) (task idx)) order) = {(i, r). i \<in> set order \<and> task i = Some r}"
  using assms
proof (induction order)
  case Nil
  { case 1 then show ?case by (simp add: List.map_filter_simps) }
  { case 2 then show ?case by (simp add: List.map_filter_simps) }
  { case 3 then show ?case by (simp add: List.map_filter_simps) }
next
  case (Cons a order)
  { case 1 with Cons show ?case by (auto simp: List.map_filter_simps split: option.splits) }
  { case 2 with Cons show ?case by (auto simp: List.map_filter_simps split: option.splits) }
  { case 3 with Cons show ?case by (auto simp: List.map_filter_simps split: option.splits) }
qed

text \<open>C36: The parallel simulation is the sequential one: in whatever order the results arrive, if every task delivers a
  transaction the result is the list of them in the order of the input; otherwise it is an error, one that
  some task reported or that of a task that ended without a result.\<close>

theorem simulate_any_order:
  assumes "mset order = mset [0..<length pooltxs]"
  shows "let task = simulate_tasks M stalled alive state header pooltxs external force;
             result = simulate M stalled alive order state header pooltxs external force
    in if \<forall>i<length pooltxs. \<exists>r. task i = Some r \<and> sr_err r = None
       then result = Inr (map (\<lambda>i. sr_tx (the (task i))) [0..<length pooltxs])
       else \<exists>e. result = Inl e \<and> (e = UnexpectedExited \<or> (\<exists>i<length pooltxs. \<exists>r. task i = Some r \<and> sr_err r = Some e))"
proof -
  define task where "task = simulate_tasks M stalled alive state header pooltxs external force"
  define arr where "arr = List.map_filter (\<lambda>idx. map_option (Pair idx) (task idx)) order"
  let ?n = "length pooltxs" and ?ok = "\<forall>i<length pooltxs. \<exists>r. task i = Some r \<and> sr_err r = None"
  have dist: "distinct order" using assms mset_eq_imp_distinct_iff [of order "[0..<?n]"] by simp
  have set: "set order = {0..<?n}" using assms mset_eq_setD [of order "[0..<?n]"] by simp
  note arr = arrivals_of [OF dist, of task, folded arr_def, unfolded set]
  have len: "length arr = card {i \<in> {0..<?n}. task i \<noteq> None}"
  proof -
    have "fst ` set arr = {i \<in> {0..<?n}. task i \<noteq> None}" by (force simp: arr(3))
    then show ?thesis using distinct_card [OF arr(1)] by simp
  qed
  show ?thesis
  proof (cases ?ok)
    case True
    then have "{i \<in> {0..<?n}. task i \<noteq> None} = {0..<?n}" by auto
    with len have len: "length arr = ?n" by simp
    have no_err: "sr_err r = None" if "(tag, r) \<in> set arr" for tag r using True that by (auto simp: arr(3))
    let ?out = "fold (\<lambda>(tag, r) out. out[tag := Some (sr_tx r)]) arr (replicate ?n None)"
    have out: "?out = map (\<lambda>i. Some (sr_tx (the (task i)))) [0..<?n]"
      using True by (intro nth_equalityI) (auto simp: fold_update_length fold_update_nth [OF arr(1)] arr(2))
    have "simulate_collect ?n arr (replicate ?n None) = Inr ?out" by (rule simulate_collect_Inr [OF no_err len])
    then have "simulate_with task order ?n = Inr (map (\<lambda>i. sr_tx (the (task i))) [0..<?n])"
      by (simp add: simulate_with_def flip: arr_def) (auto simp: out)
    with True show ?thesis by (simp add: simulate_def Let_def flip: task_def)
  next
    case False
    then have "(\<exists>(tag, r) \<in> set arr. sr_err r \<noteq> None) \<or> {i \<in> {0..<?n}. task i \<noteq> None} \<subset> {0..<?n}"
      by (fastforce simp: arr(3))
    then have "(\<exists>(tag, r) \<in> set arr. sr_err r \<noteq> None) \<or> length arr < ?n"
      using psubset_card_mono [of "{0..<?n}" "{i \<in> {0..<?n}. task i \<noteq> None}"] by (auto simp: len)
    moreover have "card {i \<in> {0..<?n}. task i \<noteq> None} \<le> card {0..<?n}" by (rule card_mono) auto
    then have "length arr \<le> ?n" by (simp only: len card_atLeastLessThan diff_zero)
    ultimately obtain e where "simulate_collect ?n arr (replicate ?n None) = Inl e" "e = UnexpectedExited \<or> (\<exists>(tag, r) \<in> set arr. sr_err r = Some e)"
      using simulate_collect_Inl [of arr ?n "replicate ?n None"] by blast
    then have "simulate_with task order ?n = Inl e \<and> (e = UnexpectedExited \<or> (\<exists>i<?n. \<exists>r. task i = Some r \<and> sr_err r = Some e))"
      by (auto simp: simulate_with_def arr(3) simp flip: arr_def)
    with False show ?thesis by (auto simp: simulate_def Let_def simp flip: task_def)
  qed
qed

section \<open>A concrete simulator\<close>

definition demo_parent :: block_header where
  "demo_parent =
     \<lparr>h_parent_hash = 1, h_number = 100, h_gas_limit = 30000000, h_gas_used = 15000000, h_timestamp = 36, h_miner = 6,
      h_mix_hash = 3, h_extra_data = [], h_base_fee_per_gas = 0, h_difficulty = 0, h_state_root = 8\<rparr>"

definition demo_simulator :: "(demo_tx, demo_state, string) simulator" where
  "demo_simulator =
     \<lparr>su_api = demo_api, su_db = demo_db, su_transact = demo_evm, su_export_access_list = (\<lambda>_ _. []),
      su_parent = (\<lambda>_. demo_parent),
      su_create_access_list = (\<lambda>a tx n. Inr \<lparr>al_access_list = [(a, [])], al_gas_used = 21000, al_error = None\<rparr>),
      su_lossy = (\<lambda>_. [])\<rparr>"

text \<open>Two results that arrive in the other order.\<close>

theorem simulate_any_order_witness:
  "\<exists>txs. simulate demo_simulator (\<lambda>_. False) (\<lambda>_. True) [1, 0] (demo_state_of []) demo_parent [demo_ptx 7 0 11 5 1, demo_ptx 8 0 12 5 1] True True = Inr txs \<and>
     map ptx_hash txs = [11, 12]"
proof -
  let ?txs = "[demo_ptx 7 0 11 5 1, demo_ptx 8 0 12 5 1]"
  let ?task = "simulate_tasks demo_simulator (\<lambda>_. False) (\<lambda>_. True) (demo_state_of []) demo_parent ?txs True True"
  have task: "?task i = Some \<lparr>sr_tx = (?txs ! i)\<lparr>ptx_access_list := [(tx_sender demo_api (ptx_tx (?txs ! i)), [])], ptx_gas := 21000, ptx_block := 100, ptx_result := []\<rparr>, sr_err = None\<rparr>"
    if "i < 2" for i
    using that by (cases i) (auto simp: simulate_tasks_def simulate_async_def simulate_task_def demo_simulator_def demo_parent_def demo_api_def demo_ptx_def Let_def less_Suc_eq)
  have "mset [1, 0] = mset [0..<length ?txs]" by (simp add: upt_rec)
  from simulate_any_order [OF this, of demo_simulator "\<lambda>_. False" "\<lambda>_. True" "demo_state_of []" demo_parent True True]
  have "simulate demo_simulator (\<lambda>_. False) (\<lambda>_. True) [1, 0] (demo_state_of []) demo_parent ?txs True True = Inr (map (\<lambda>i. sr_tx (the (?task i))) [0..<length ?txs])"
    using task by (simp add: Let_def)
  then show ?thesis using task [of 0] task [of 1] by (simp add: upt_rec demo_ptx_def)
qed

end
