(* ===== verification/Mempool_Api.thy ===== *)
theory Mempool_Api
  imports Simulator Bundle_Pool Beacon
begin

text \<open>
  The mempool service: \<open>src/apps/mempool/src/api.rs\<close>, the thread of \<open>app.rs\<close> that follows the chain, and the
  method \<open>eth_sendRawTransaction\<close> of the block builder (\<open>src/apps/block-builder/src/api.rs\<close>).

  The JSON-RPC server is a parameter: it calls the methods, and \<open>on_dispatch\<close> for every item in the outbox.  Texts
  that \<open>format!\<close> makes of a value are made by a function that is an argument, and so are the encodings of
  the values that leave the service.
\<close>

section \<open>State\<close>

datatype 'tx pool_item = ItemBundle "'tx eth_bundle" | ItemTx "'tx pool_tx"

datatype subscribe_opt = NewBundle | NewTx

datatype jsonrpc_error = ClientError string | UnknownRpcError string | RemoteError int string

record ('tx, 'key) mempool =
  ma_txpool :: "'tx tx_pool"
  ma_subscriptions :: "(string, 'key \<times> subscribe_opt) btree_map"
  ma_sender :: bool
  ma_outbox :: "'tx pool_item list"

text \<open>\<open>init_api\<close> registers the sender once; a second time panics.\<close>

definition mempool_init_api :: "('tx, 'key) mempool \<Rightarrow> ('tx, 'key) mempool option" where
  "mempool_init_api st = (if ma_sender st then None else Some (st\<lparr>ma_sender := True\<rparr>))"

definition mempool_notify :: "'tx pool_item \<Rightarrow> ('tx, 'key) mempool \<Rightarrow> ('tx, 'key) mempool" where
  "mempool_notify item st = (if ma_sender st then st\<lparr>ma_outbox := ma_outbox st @ [item]\<rparr> else st)"

section \<open>Methods\<close>

definition send_raw_transaction ::
  "('tx, 's, 'e) simulator \<Rightarrow> 'tx tx_codec \<Rightarrow> ('e simulate_error \<Rightarrow> string) \<Rightarrow> (pool_error \<Rightarrow> string) \<Rightarrow> (nat \<Rightarrow> bool) \<Rightarrow> nat list \<Rightarrow> 's \<Rightarrow> block_header
     \<Rightarrow> nat \<Rightarrow> 'tx \<Rightarrow> ('tx, 'key) mempool \<Rightarrow> (jsonrpc_error + h256) \<times> ('tx, 'key) mempool" where
  "send_raw_transaction M C show_sim show_pool alive order state head now param st =
     (let tx = with_tx C param; hash = ptx_hash tx in
      case simulate M (\<lambda>_. True) alive order state head [tx] False True of
        Inl err \<Rightarrow> (Inl (ClientError (show_sim err)), st)
      | Inr result \<Rightarrow>
          (case rev result of
             [] \<Rightarrow> (Inr hash, st)
           | tx # _ \<Rightarrow>
               (case seq_pool_push (su_api M) now tx (tp_seq_pool (ma_txpool st)) of
                  (Inl err, pool) \<Rightarrow> (Inl (ClientError (show_pool err)), st\<lparr>ma_txpool := (ma_txpool st)\<lparr>tp_seq_pool := pool\<rparr>\<rparr>)
                | (Inr _, pool) \<Rightarrow> (Inr hash, mempool_notify (ItemTx tx) (st\<lparr>ma_txpool := (ma_txpool st)\<lparr>tp_seq_pool := pool\<rparr>\<rparr>)))))"

definition send_bundle ::
  "'tx tx_api \<Rightarrow> 'tx tx_codec \<Rightarrow> 'tx bundle_api \<Rightarrow> 't time_api \<Rightarrow> beacon_slot \<Rightarrow> ('t \<Rightarrow> 't \<Rightarrow> string) \<Rightarrow> string \<Rightarrow> block_header \<Rightarrow> 't \<Rightarrow> 't \<Rightarrow> u64
     \<Rightarrow> send_bundle_request \<Rightarrow> ('tx, 'key) mempool \<Rightarrow> (jsonrpc_error + h256) \<times> ('tx, 'key) mempool" where
  "send_bundle A C Bu T S show_left rand_uuid head now later history req st =
     (case to_bundle A C rand_uuid req of
        Inl err \<Rightarrow> (Inl (ClientError (''parse bundle fail: '' @ err)), st)
      | Inr bundle \<Rightarrow>
          (let hash = bundle_hash Bu bundle;
               next_time = tm_from_duration T (next_block_time S head (sat_sub (b_block_number bundle) (h_number head)));
               expired = (b_block_number bundle \<le> h_number head \<or> tm_le T next_time now);
               remain_time = show_left next_time later;
               pool = tp_bundle_pool (ma_txpool st)
           in if expired
              then (Inr hash, st\<lparr>ma_txpool := (ma_txpool st)\<lparr>tp_bundle_pool := bundle_pool_set_history Bu history bundle (''too late: '' @ remain_time) pool\<rparr>\<rparr>)
              else (Inr hash, mempool_notify (ItemBundle bundle)
                     (st\<lparr>ma_txpool := (ma_txpool st)\<lparr>tp_bundle_pool := snd (bundle_pool_add Bu bundle remain_time pool)\<rparr>\<rparr>))))"

definition get_bundle ::
  "'tx bundle_api \<Rightarrow> ('tx eth_bundle \<Rightarrow> 'r) \<Rightarrow> u64 \<Rightarrow> u64 \<Rightarrow> u64 option \<Rightarrow> ('tx, 'key) mempool \<Rightarrow> 'r list \<times> ('tx, 'key) mempool" where
  "get_bundle Bu to_rlp now block_number timestamp st =
     (let block_timestamp = (case timestamp of Some n \<Rightarrow> n | None \<Rightarrow> now);
          (bundles, pool) = bundle_pool_list_bundles Bu block_number block_timestamp (tp_bundle_pool (ma_txpool st))
      in (map to_rlp bundles, st\<lparr>ma_txpool := (ma_txpool st)\<lparr>tp_bundle_pool := pool\<rparr>\<rparr>))"

definition get_raw_transaction :: "('tx pool_tx \<Rightarrow> 'r) \<Rightarrow> ('tx, 'key) mempool \<Rightarrow> 'r list" where
  "get_raw_transaction to_rlp st = map to_rlp (seq_pool_list_by_seq (tp_seq_pool (ma_txpool st)))"

record pending_transaction_info =
  pt_hash :: h256
  pt_nonce :: u64
  pt_caller :: h160
  pt_to :: "h160 option"
  pt_value :: u256
  pt_submit_time :: string

text \<open>\<open>get_submit_time\<close> is unwrapped: \<open>None\<close> is a panic.\<close>

fun tx_stat_loop :: "'tx tx_api \<Rightarrow> (nat \<Rightarrow> string) \<Rightarrow> nat \<Rightarrow> 'tx seq_pool \<Rightarrow> 'tx pool_tx list \<Rightarrow> pending_transaction_info list option" where
  "tx_stat_loop A show_ago now pool [] = Some []"
| "tx_stat_loop A show_ago now pool (tx # txs) =
     do {
       du \<leftarrow> seq_pool_get_submit_time now pool (ptx_hash tx);
       rest \<leftarrow> tx_stat_loop A show_ago now pool txs;
       Some (\<lparr>pt_hash = ptx_hash tx, pt_nonce = tx_nonce A (ptx_tx tx), pt_caller = ptx_caller tx, pt_to = tx_to A (ptx_tx tx),
              pt_value = tx_value A (ptx_tx tx), pt_submit_time = show_ago du @ '' ago''\<rparr> # rest)
     }"

definition tx_stat :: "'tx tx_api \<Rightarrow> (nat \<Rightarrow> string) \<Rightarrow> nat \<Rightarrow> ('tx, 'key) mempool \<Rightarrow> pending_transaction_info list option" where
  "tx_stat A show_ago now st =
     (let pool = tp_seq_pool (ma_txpool st) in tx_stat_loop A show_ago now pool (seq_pool_list_by_seq pool))"

record stat_bundle =
  sx_hash :: h256
  sx_block_number :: u64
  sx_status :: string
  sx_num_txs :: nat

definition mempool_bundle_stat :: "('tx, 'key) mempool \<Rightarrow> stat_bundle list" where
  "mempool_bundle_stat st =
     bundle_pool_stat (map (\<lambda>s. \<lparr>sx_hash = bs_hash s, sx_block_number = bs_block_number s, sx_status = bs_status s,
       sx_num_txs = bs_num_txs s\<rparr>)) (tp_bundle_pool (ma_txpool st))"

text \<open>\<open>default\<close> forwards the listed methods to the execution node.\<close>

datatype 'v rpc_result = RpcOk 'v | ResponseError jsonrpc_error | OtherRpcError string

definition default_method :: "string list \<Rightarrow> (string \<Rightarrow> 'p \<Rightarrow> 'v rpc_result) \<Rightarrow> string \<Rightarrow> 'p \<Rightarrow> jsonrpc_error + 'v" where
  "default_method methods rpc name params =
     (if name \<in> set methods
      then case rpc name params of
             RpcOk n \<Rightarrow> Inr n
           | ResponseError err \<Rightarrow> Inl err
           | OtherRpcError err \<Rightarrow> Inl (UnknownRpcError err)
      else Inl (ClientError (''method not found: '' @ name)))"

text \<open>The thread \<open>head-state\<close>: the transactions of a new block leave the sequential pool.\<close>

definition mempool_new_block :: "u64 \<Rightarrow> h256 list \<Rightarrow> ('tx, 'key) mempool \<Rightarrow> ('tx, 'key) mempool" where
  "mempool_new_block number hashes st =
     st\<lparr>ma_txpool := (ma_txpool st)\<lparr>tp_seq_pool := seq_pool_remove_list number hashes (tp_seq_pool (ma_txpool st))\<rparr>\<rparr>"

section \<open>Subscriptions\<close>

text \<open>With the feature \<open>sgx\<close> a client must have exchanged a key; \<open>keys = None\<close> is the build without it.\<close>

definition on_subscribe ::
  "(string \<Rightarrow> (string + 'key \<times> subscribe_opt)) \<Rightarrow> ('key \<Rightarrow> bool) option \<Rightarrow> jsonrpc_error \<Rightarrow> string \<Rightarrow> string \<Rightarrow> ('tx, 'key) mempool
     \<Rightarrow> (jsonrpc_error + string) \<times> ('tx, 'key) mempool" where
  "on_subscribe parse keys unauth random params st =
     (case parse params of
        Inl err \<Rightarrow> (Inl (ClientError (''parse params fail: '' @ err @ '' -> '' @ params)), st)
      | Inr args \<Rightarrow>
          if (case keys of Some known \<Rightarrow> \<not> known (fst args) | None \<Rightarrow> False) then (Inl unauth, st)
          else (Inr random, st\<lparr>ma_subscriptions := bt_insert random args (ma_subscriptions st)\<rparr>))"

definition on_unsubscribe :: "string \<Rightarrow> ('tx, 'key) mempool \<Rightarrow> bool \<times> ('tx, 'key) mempool" where
  "on_unsubscribe sid st =
     (bt_contains_key sid (ma_subscriptions st), st\<lparr>ma_subscriptions := bt_remove sid (ma_subscriptions st)\<rparr>)"

fun opt_matches :: "subscribe_opt \<Rightarrow> 'tx pool_item \<Rightarrow> bool" where
  "opt_matches NewBundle (ItemBundle _) = True"
| "opt_matches NewTx (ItemTx _) = True"
| "opt_matches _ _ = False"

text \<open>The two versions of \<open>on_dispatch\<close>; \<open>encode\<close> is the raw value of \<open>to_rlp\<close>.\<close>

fun dispatch_ids :: "(string, 'key \<times> subscribe_opt) btree_map \<Rightarrow> 'tx pool_item \<Rightarrow> string list \<Rightarrow> string list" where
  "dispatch_ids subs item [] = []"
| "dispatch_ids subs item (sid # ids) =
     (case map_of subs sid of
        Some (_, opt) \<Rightarrow> if opt_matches opt item then sid # dispatch_ids subs item ids else dispatch_ids subs item ids
      | None \<Rightarrow> dispatch_ids subs item ids)"

definition on_dispatch :: "('tx pool_item \<Rightarrow> 'v) \<Rightarrow> 'tx pool_item \<Rightarrow> string list \<Rightarrow> ('tx, 'key) mempool \<Rightarrow> ('v \<times> string list) list" where
  "on_dispatch encode item ids st =
     (let new_ids = dispatch_ids (ma_subscriptions st) item ids
      in if 0 < length new_ids then [(encode item, new_ids)] else [])"

fun dispatch_sgx_loop ::
  "('key \<Rightarrow> 'v \<Rightarrow> string + 'v) \<Rightarrow> 'v \<Rightarrow> (string, 'key \<times> subscribe_opt) btree_map \<Rightarrow> 'tx pool_item \<Rightarrow> string list \<Rightarrow> ('v \<times> string list) list" where
  "dispatch_sgx_loop encrypt val subs item [] = []"
| "dispatch_sgx_loop encrypt val subs item (sid # ids) =
     (case map_of subs sid of
        None \<Rightarrow> dispatch_sgx_loop encrypt val subs item ids
      | Some (key, opt) \<Rightarrow>
          if \<not> opt_matches opt item then dispatch_sgx_loop encrypt val subs item ids
          else case encrypt key val of
                 Inl _ \<Rightarrow> dispatch_sgx_loop encrypt val subs item ids
               | Inr data \<Rightarrow> (data, [sid]) # dispatch_sgx_loop encrypt val subs item ids)"

definition on_dispatch_sgx ::
  "('key \<Rightarrow> 'v \<Rightarrow> string + 'v) \<Rightarrow> ('tx pool_item \<Rightarrow> 'v) \<Rightarrow> 'tx pool_item \<Rightarrow> string list \<Rightarrow> ('tx, 'key) mempool \<Rightarrow> ('v \<times> string list) list" where
  "on_dispatch_sgx encrypt encode item ids st = dispatch_sgx_loop encrypt (encode item) (ma_subscriptions st) item ids"

section \<open>The block builder's method\<close>

definition builder_send_raw_transaction ::
  "('tx, 's, 'e) simulator \<Rightarrow> 'tx tx_codec \<Rightarrow> ('e simulate_error \<Rightarrow> string) \<Rightarrow> (nat \<Rightarrow> bool) \<Rightarrow> nat list \<Rightarrow> 's \<Rightarrow> block_header
     \<Rightarrow> nat \<Rightarrow> u8 list \<Rightarrow> 'tx tx_pool \<Rightarrow> (jsonrpc_error + h256) \<times> 'tx tx_pool" where
  "builder_send_raw_transaction M C show_sim alive order state head now raw txpool =
     (case from_bytes C raw of
        Inl err \<Rightarrow> (Inl (ClientError (''invalid tx payload: '' @ err)), txpool)
      | Inr inner \<Rightarrow>
          (let tx = with_tx C inner; hash = ptx_hash tx in
           case simulate M (\<lambda>_. True) alive order state head [tx] False True of
             Inr result \<Rightarrow>
               (Inr hash, txpool\<lparr>tp_seq_pool := fold (\<lambda>tx pool. snd (seq_pool_push (su_api M) now tx pool)) result (tp_seq_pool txpool)\<rparr>)
           | Inl err \<Rightarrow> (Inl (ClientError (''simulate fail: '' @ show_sim err)), txpool)))"

section \<open>Submitting a transaction\<close>

lemma simulate_inner_hash: "simulate_inner M state header tx = Ok t \<Longrightarrow> ptx_hash t = ptx_hash tx"
  by (auto simp: simulate_inner_def Let_def split: prod.splits outcome.splits sum.splits)

text \<open>The simulation of a single transaction that is forced into the queue and not sent to the node.\<close>

lemma simulate_single:
  "simulate M stalled alive [0] state head [tx] False True =
     (if \<not> alive 0 then Inl QueueStalled
      else case simulate_inner M state head tx of
             Ok t \<Rightarrow> Inr [t] | Err e \<Rightarrow> Inl e | Panic \<Rightarrow> Inl UnexpectedExited)"
  by (cases "simulate_inner M state head tx")
    (simp_all add: simulate_def simulate_with_def simulate_tasks_def simulate_async_def simulate_task_def List.map_filter_simps)

text \<open>C34: A raw transaction is accepted exactly when its dry run succeeds and its hash is new to the sequential pool.  Then the
  hash is returned, the pool lists what its list specification lists after a push of the simulated transaction (it
  takes the place of the sender's transaction with its nonce, the sender's later ones follow it, and the oldest
  leave beyond the limit), and the subscribers are told; otherwise there is an error and nothing changes.\<close>

theorem send_raw_transaction_exact:
  assumes run: "seq_pool_run (su_api M) mx (tp_seq_pool (ma_txpool st))"
    and call: "send_raw_transaction M C show_sim show_pool alive [0] state head now param st = (r, st')"
  shows "if \<exists>t. alive 0 \<and> simulate_inner M state head (with_tx C param) = Ok t \<and> \<not> seq_pool_contains (tp_seq_pool (ma_txpool st)) (ptx_hash t)
    then \<exists>t. simulate_inner M state head (with_tx C param) = Ok t \<and> r = Inr (ptx_hash t) \<and> ptx_hash t = ptx_hash (with_tx C param) \<and>
      seq_pool_list_by_seq (tp_seq_pool (ma_txpool st')) = spec_push (su_api M) mx t (seq_pool_list_by_seq (tp_seq_pool (ma_txpool st))) \<and>
      ma_outbox st' = ma_outbox st @ (if ma_sender st then [ItemTx t] else [])
    else (\<exists>e. r = Inl (ClientError e)) \<and> st' = st"
proof -
  let ?tx = "with_tx C param" and ?pool = "tp_seq_pool (ma_txpool st)"
  show ?thesis
  proof (cases "\<exists>t. alive 0 \<and> simulate_inner M state head ?tx = Ok t")
    case False
    then have "(\<exists>e. r = Inl (ClientError e)) \<and> st' = st"
      using call by (auto simp: send_raw_transaction_def simulate_single Let_def split: outcome.splits if_splits)
    with False show ?thesis by auto
  next
    case True
    then obtain t where t: "alive 0" "simulate_inner M state head ?tx = Ok t" by blast
    note h = simulate_inner_hash [OF t(2)]
    show ?thesis
    proof (cases "seq_pool_contains ?pool (ptx_hash t)")
      case True
      then have "seq_pool_push (su_api M) now t ?pool = (Inl AlreadyKnowned, ?pool)"
        by (simp add: seq_pool_push_def seq_pool_contains_def)
      with call t True show ?thesis by (auto simp: send_raw_transaction_def simulate_single Let_def)
    next
      case False
      obtain k pool' where push: "seq_pool_push (su_api M) now t ?pool = (Inr k, pool')"
        using False by (cases "seq_list_push (su_api M) now t (sp_list ?pool)") (auto simp: seq_pool_push_def seq_pool_contains_def)
      have run': "seq_pool_run (su_api M) mx pool'" using seq_pool_run.push [OF run, of now t] push by simp
      have "seq_view (sp_list pool') = spec_push (su_api M) mx t (seq_view (sp_list ?pool))"
        using seq_pool_push_view [OF seq_run_view(2) [OF run] False, of now] push seq_run_view(3) [OF run] by simp
      then have "seq_pool_list_by_seq pool' = spec_push (su_api M) mx t (seq_pool_list_by_seq ?pool)"
        by (simp add: seq_run_view(1) [OF run] seq_run_view(1) [OF run'])
      with call t h push False show ?thesis
        by (auto simp: send_raw_transaction_def simulate_single Let_def mempool_notify_def)
    qed
  qed
qed

section \<open>Dispatching to subscribers\<close>

text \<open>The log of the subscriptions, newest first, and what it says of an identifier.\<close>

datatype 'key sub_event = Subscribed string 'key subscribe_opt | Unsubscribed string

fun sub_after :: "'key sub_event list \<Rightarrow> string \<Rightarrow> ('key \<times> subscribe_opt) option" where
  "sub_after [] sid = None"
| "sub_after (Subscribed s key opt # events) sid = (if s = sid then Some (key, opt) else sub_after events sid)"
| "sub_after (Unsubscribed s # events) sid = (if s = sid then None else sub_after events sid)"

inductive subs_run :: "'key sub_event list \<Rightarrow> ('tx, 'key) mempool \<Rightarrow> bool" where
  start: "ma_subscriptions st = [] \<Longrightarrow> subs_run [] st"
| subscribe: "subs_run events st \<Longrightarrow> parse params = Inr (key, opt) \<Longrightarrow>
    on_subscribe parse keys unauth random params st = (Inr sid, st') \<Longrightarrow> subs_run (Subscribed sid key opt # events) st'"
| refused: "subs_run events st \<Longrightarrow> on_subscribe parse keys unauth random params st = (Inl err, st') \<Longrightarrow> subs_run events st'"
| unsubscribe: "subs_run events st \<Longrightarrow> on_unsubscribe sid st = (found, st') \<Longrightarrow> subs_run (Unsubscribed sid # events) st'"
| other: "subs_run events st \<Longrightarrow> ma_subscriptions st' = ma_subscriptions st \<Longrightarrow> subs_run events st'"

text \<open>The other methods of the service are steps of the kind \<open>other\<close>.\<close>

lemma notify_subscriptions [simp]: "ma_subscriptions (mempool_notify item st) = ma_subscriptions st"
  by (simp add: mempool_notify_def)

lemma other_methods_subscriptions [simp]:
  "ma_subscriptions (snd (send_raw_transaction M C show_sim show_pool alive order state head now param st)) = ma_subscriptions st"
  "ma_subscriptions (snd (send_bundle A C Bu T S show_left rand_uuid head n later history req st)) = ma_subscriptions st"
  "ma_subscriptions (snd (get_bundle Bu to_rlp n number timestamp st)) = ma_subscriptions st"
  "ma_subscriptions (mempool_new_block number hashes st) = ma_subscriptions st"
proof -
  show "ma_subscriptions (snd (send_raw_transaction M C show_sim show_pool alive order state head now param st)) = ma_subscriptions st"
    by (auto simp: send_raw_transaction_def Let_def split: sum.splits list.splits prod.splits)
  show "ma_subscriptions (snd (send_bundle A C Bu T S show_left rand_uuid head n later history req st)) = ma_subscriptions st"
    by (auto simp: send_bundle_def Let_def split: sum.splits)
qed (simp_all add: get_bundle_def mempool_new_block_def Let_def split_beta)

lemma subs_run_map: "subs_run events st \<Longrightarrow> map_of (ma_subscriptions st) sid = sub_after events sid"
proof (induction rule: subs_run.induct)
  case (subscribe events st parse params key opt keys unauth random sid' st')
  then show ?case by (auto simp: on_subscribe_def split: if_splits)
next
  case (refused events st parse keys unauth random params err st')
  then show ?case by (auto simp: on_subscribe_def split: sum.splits if_splits)
next
  case (unsubscribe events st sid' found st')
  then show ?case by (auto simp: on_unsubscribe_def)
qed simp_all

text \<open>A client is subscribed to the kind of an item, under a key, if its last request was that subscription.\<close>

definition subscribed_to :: "'key sub_event list \<Rightarrow> 'tx pool_item \<Rightarrow> string \<Rightarrow> 'key \<Rightarrow> bool" where
  "subscribed_to events item sid key \<longleftrightarrow>
     sub_after events sid = Some (key, case item of ItemTx _ \<Rightarrow> NewTx | ItemBundle _ \<Rightarrow> NewBundle)"

lemma opt_matches_kind: "opt_matches opt item \<longleftrightarrow> opt = (case item of ItemTx _ \<Rightarrow> NewTx | ItemBundle _ \<Rightarrow> NewBundle)"
  by (cases opt; cases item) simp_all

lemma dispatch_ids_filter:
  "dispatch_ids subs item ids = filter (\<lambda>i. \<exists>key opt. map_of subs i = Some (key, opt) \<and> opt_matches opt item) ids"
  by (induction ids) (auto split: option.splits)

lemma dispatch_sgx_loop_set:
  "(data, to) \<in> set (dispatch_sgx_loop encrypt val subs item ids) \<longleftrightarrow>
     (\<exists>i key opt. to = [i] \<and> i \<in> set ids \<and> map_of subs i = Some (key, opt) \<and> opt_matches opt item \<and> encrypt key val = Inr data)"
  by (induction ids) (auto split: option.splits sum.splits)

lemma dispatch_sgx_loop_order:
  "map snd (dispatch_sgx_loop encrypt val subs item ids) =
     map (\<lambda>i. [i]) (filter (\<lambda>i. \<exists>key opt data. map_of subs i = Some (key, opt) \<and> opt_matches opt item \<and> encrypt key val = Inr data) ids)"
  by (induction ids) (auto split: option.splits sum.splits)

text \<open>C35: After any calls of the service a transaction is dispatched to exactly those connected clients whose last request was
  a subscription to transactions, a bundle to those with one to bundles, in one message and in the order of the clients.
  The enclave build sends a message of its own to each of them, the item sealed under the key of that client's
  subscription, leaving out those for which sealing fails.\<close>

theorem dispatch_exact:
  fixes ids :: "string list" and events :: "'key sub_event list" and item :: "'tx pool_item"
  defines "to \<equiv> filter (\<lambda>i. \<exists>key. subscribed_to events item i key) ids"
  assumes "subs_run events st"
  shows "on_dispatch encode item ids st = (if to = [] then [] else [(encode item, to)]) \<and>
    ((data, clients) \<in> set (on_dispatch_sgx encrypt encode item ids st) \<longleftrightarrow>
       (\<exists>i key. clients = [i] \<and> i \<in> set ids \<and> subscribed_to events item i key \<and> encrypt key (encode item) = Inr data)) \<and>
    map snd (on_dispatch_sgx encrypt encode item ids st) =
      map (\<lambda>i. [i]) (filter (\<lambda>i. \<exists>key data. subscribed_to events item i key \<and> encrypt key (encode item) = Inr data) ids)"
  unfolding to_def on_dispatch_def on_dispatch_sgx_def Let_def
  by (simp add: dispatch_ids_filter dispatch_sgx_loop_set dispatch_sgx_loop_order opt_matches_kind subs_run_map [OF assms(2)] subscribed_to_def [abs_def])

section \<open>A concrete service\<close>

definition demo_mempool :: "(demo_tx, nat) mempool" where
  "demo_mempool = \<lparr>ma_txpool = tx_pool_new 10, ma_subscriptions = [], ma_sender = True, ma_outbox = []\<rparr>"

definition demo_raw :: demo_tx where
  "demo_raw = ptx_tx (demo_ptx 7 0 11 5000 3000)"

definition demo_funds :: demo_state where
  "demo_funds = demo_state_of [(7, 1000000000000)]"

lemma demo_simulated: "\<exists>t. simulate_inner demo_simulator demo_funds demo_parent (with_tx demo_codec demo_raw) = Ok t \<and> ptx_hash t = 11"
proof -
  have "case simulate_inner demo_simulator demo_funds demo_parent (with_tx demo_codec demo_raw) of Ok t \<Rightarrow> ptx_hash t = 11 | _ \<Rightarrow> False"
    by code_simp
  then show ?thesis by (auto split: outcome.splits)
qed

theorem send_raw_transaction_exact_witness:
  "\<exists>r st'. send_raw_transaction demo_simulator demo_codec (\<lambda>_. []) (\<lambda>_. []) (\<lambda>_. True) [0] demo_funds demo_parent 5 demo_raw demo_mempool = (r, st') \<and>
     r = Inr 11 \<and> length (ma_outbox st') = 1"
proof -
  obtain r st' where call: "send_raw_transaction demo_simulator demo_codec (\<lambda>_. []) (\<lambda>_. []) (\<lambda>_. True) [0] demo_funds demo_parent 5 demo_raw demo_mempool = (r, st')"
    by force
  have run: "seq_pool_run (su_api demo_simulator) 10 (tp_seq_pool (ma_txpool demo_mempool))"
    by (simp add: demo_mempool_def tx_pool_new_def seq_pool_run.new)
  have "\<not> seq_pool_contains (tp_seq_pool (ma_txpool demo_mempool)) 11" by code_simp
  with send_raw_transaction_exact [OF run call] demo_simulated have "r = Inr 11 \<and> length (ma_outbox st') = 1"
    by (auto simp: demo_mempool_def split: if_splits)
  with call show ?thesis by blast
qed

theorem dispatch_exact_witness:
  "\<exists>st. subs_run [Subscribed ''c'' 3 NewBundle, Unsubscribed ''b'', Subscribed ''b'' 2 NewTx, Subscribed ''a'' (1::nat) NewTx] (st :: (demo_tx, nat) mempool) \<and>
     on_dispatch (\<lambda>_. (7::nat)) (ItemTx (demo_ptx 7 0 11 5 1)) [''a'', ''b'', ''c''] st = [(7, [''a''])]"
proof -
  let ?sub = "\<lambda>sid k opt st. snd (on_subscribe (\<lambda>_. Inr (k, opt)) None (ClientError []) sid [] st)"
  let ?st = "?sub ''c'' 3 NewBundle (snd (on_unsubscribe ''b'' (?sub ''b'' 2 NewTx (?sub ''a'' 1 NewTx demo_mempool))))"
  have sub: "on_subscribe (\<lambda>_. Inr (k, opt)) None (ClientError []) sid [] st = (Inr sid, ?sub sid k opt st)"
    for k sid opt and st :: "(demo_tx, nat) mempool"
    by (simp add: on_subscribe_def)
  have start: "subs_run [] demo_mempool" by (rule subs_run.start) (simp add: demo_mempool_def)
  have run: "subs_run [Subscribed ''c'' 3 NewBundle, Unsubscribed ''b'', Subscribed ''b'' 2 NewTx, Subscribed ''a'' 1 NewTx] ?st"
    by (rule subs_run.subscribe [OF subs_run.unsubscribe [OF subs_run.subscribe [OF subs_run.subscribe [OF start _ sub] _ sub]] _ sub])
      (simp_all add: on_unsubscribe_def)
  from dispatch_exact [OF run, of "\<lambda>_. 7::nat" "ItemTx (demo_ptx 7 0 11 5 1)" "[''a'', ''b'', ''c'']"]
  have "on_dispatch (\<lambda>_. 7::nat) (ItemTx (demo_ptx 7 0 11 5 1)) [''a'', ''b'', ''c''] ?st = [(7, [''a''])]"
    by (simp add: subscribed_to_def)
  with run show ?thesis by blast
qed

end
