(* ===== verification/Node_Clients.thy ===== *)
theory Node_Clients
  imports Execution_Client Mempool_Api
begin

text \<open>
  How the services follow the chain and answer their users: the head of the execution chain
  (\<open>src/common/eth_client/src/head_state.rs\<close>), the HTTP client of the beacon node (\<open>beacon_client.rs\<close>) and the remaining methods of the
  builder's public interface (\<open>src/apps/block-builder/src/api.rs\<close>, \<open>types.rs\<close>).

  \<open>Boardcast\<close> of the crate \<open>base\<close> is the type variable \<open>'b\<close> with its operations as the record \<open>board_api\<close>.  The messages of a
  subscription and the answers of the nodes are arguments; HTTP, JSON and URIs are functions.
\<close>

section \<open>The head of the execution chain\<close>

record ('b, 'm) board_api =
  bc_new_with :: "'m \<Rightarrow> 'b"
  bc_boardcast :: "'m \<Rightarrow> 'b \<Rightarrow> 'b"
  bc_new_subscriber :: "'b \<Rightarrow> 'b"
  bc_len :: "'b \<Rightarrow> nat"
  bc_clean :: "'b \<Rightarrow> 'b"
  bc_get_latest :: "'b \<Rightarrow> 'm option"

text \<open>A broadcast channel remembers the latest message; subscribing does not change it.\<close>

definition lawful_board :: "('b, 'm) board_api \<Rightarrow> bool" where
  "lawful_board B \<longleftrightarrow>
     (\<forall>m. bc_get_latest B (bc_new_with B m) = Some m) \<and>
     (\<forall>m b. bc_get_latest B (bc_boardcast B m b) = Some m) \<and>
     (\<forall>b. bc_get_latest B (bc_new_subscriber B b) = bc_get_latest B b)"

text \<open>\<open>BlockSimple\<close>: a header and the hashes of the transactions.\<close>

record block_simple =
  bk_header :: block_header
  bk_transactions :: "h256 list"

record ('b, 'c) head_state =
  hd_bcast :: 'b
  hd_blk_bcast :: 'c

text \<open>\<open>new\<close> asks for the latest block, and the thread of the blocks subscribes to the heads.\<close>

definition head_state_new ::
  "('b, block_header) board_api \<Rightarrow> ('c, block_simple) board_api \<Rightarrow> (rpc_call \<Rightarrow> 'err + block_simple) \<Rightarrow> 'err + ('b, 'c) head_state" where
  "head_state_new B C rpc =
     (case get_block_simple rpc SelLatest of
        Inl err \<Rightarrow> Inl err
      | Inr blk \<Rightarrow> Inr \<lparr>hd_bcast = bc_new_subscriber B (bc_new_with B (bk_header blk)), hd_blk_bcast = bc_new_with C blk\<rparr>)"

text \<open>The thread \<open>head-subscriber\<close>: a head within the time, or the end of the thread.\<close>

definition head_subscriber_round :: "('b, block_header) board_api \<Rightarrow> 'e + block_header \<Rightarrow> ('b, 'c) head_state \<Rightarrow> bool \<times> ('b, 'c) head_state" where
  "head_subscriber_round B msg st =
     (case msg of
        Inr head \<Rightarrow> (True, st\<lparr>hd_bcast := bc_boardcast B head (hd_bcast st)\<rparr>)
      | Inl _ \<Rightarrow> (False, st\<lparr>hd_bcast := bc_clean B (hd_bcast st)\<rparr>))"

text \<open>The thread \<open>blk-subscriber\<close>: nothing is fetched while nobody listens, and an error is only logged.\<close>

definition blk_subscriber_round ::
  "('c, block_simple) board_api \<Rightarrow> (rpc_call \<Rightarrow> 'err + block_simple) \<Rightarrow> block_header \<Rightarrow> ('b, 'c) head_state \<Rightarrow> ('b, 'c) head_state" where
  "blk_subscriber_round C rpc new_head st =
     (if bc_len C (hd_blk_bcast st) = 0 then st
      else case get_block_simple rpc (SelNumber (h_number new_head)) of
             Inr n \<Rightarrow> st\<lparr>hd_blk_bcast := bc_boardcast C n (hd_blk_bcast st)\<rparr>
           | Inl _ \<Rightarrow> st)"

definition subscribe_new_head :: "('b, block_header) board_api \<Rightarrow> ('b, 'c) head_state \<Rightarrow> ('b, 'c) head_state" where
  "subscribe_new_head B st = st\<lparr>hd_bcast := bc_new_subscriber B (hd_bcast st)\<rparr>"

definition subscribe_new_block :: "('c, block_simple) board_api \<Rightarrow> ('b, 'c) head_state \<Rightarrow> ('b, 'c) head_state" where
  "subscribe_new_block C st = st\<lparr>hd_blk_bcast := bc_new_subscriber C (hd_blk_bcast st)\<rparr>"

text \<open>\<open>None\<close> is the panic of \<open>unwrap\<close>.\<close>

definition head_state_get :: "('b, block_header) board_api \<Rightarrow> ('b, 'c) head_state \<Rightarrow> block_header option" where
  "head_state_get B st = bc_get_latest B (hd_bcast st)"

definition head_state_get_block :: "('c, block_simple) board_api \<Rightarrow> ('b, 'c) head_state \<Rightarrow> block_simple option" where
  "head_state_get_block C st = bc_get_latest C (hd_blk_bcast st)"

text \<open>The threads and their users in any order, until the subscription ends; \<open>heads\<close> and \<open>blks\<close> are what was received, the latest first.\<close>

inductive head_reach ::
  "('b, block_header) board_api \<Rightarrow> ('c, block_simple) board_api \<Rightarrow> block_header list \<Rightarrow> block_simple list \<Rightarrow> ('b, 'c) head_state \<Rightarrow> bool"
  for B C where
  start: "head_state_new B C (rpc :: rpc_call \<Rightarrow> string + block_simple) = Inr st \<Longrightarrow> get_block_simple rpc SelLatest = Inr blk \<Longrightarrow> head_reach B C [bk_header blk] [blk] st"
| head: "head_reach B C heads blks st \<Longrightarrow> head_reach B C (h # heads) blks (snd (head_subscriber_round B (Inr h :: string + block_header) st))"
| block: "head_reach B C heads blks st \<Longrightarrow> new_head \<in> set heads \<Longrightarrow>
    head_reach B C heads
      ((if bc_len C (hd_blk_bcast st) = 0 then []
        else case get_block_simple (rpc :: rpc_call \<Rightarrow> string + block_simple) (SelNumber (h_number new_head)) of Inr n \<Rightarrow> [n] | Inl _ \<Rightarrow> []) @ blks)
      (blk_subscriber_round C rpc new_head st)"
| listen_head: "head_reach B C heads blks st \<Longrightarrow> head_reach B C heads blks (subscribe_new_head B st)"
| listen_block: "head_reach B C heads blks st \<Longrightarrow> head_reach B C heads blks (subscribe_new_block C st)"

text \<open>The services always find a head and a block, and these are the latest that arrived.\<close>

theorem head_state_latest:
  assumes "head_reach B C heads blks st" and "lawful_board B" and "lawful_board C"
  shows "heads \<noteq> [] \<and> blks \<noteq> [] \<and> head_state_get B st = Some (hd heads) \<and> head_state_get_block C st = Some (hd blks)"
  using assms
proof (induction rule: head_reach.induct)
  case (start rpc st blk)
  then show ?case by (auto simp: head_state_new_def head_state_get_def head_state_get_block_def lawful_board_def)
next
  case (head heads blks st h)
  then show ?case by (simp add: head_subscriber_round_def head_state_get_def head_state_get_block_def lawful_board_def)
next
  case (block heads blks st new_head rpc)
  then show ?case
    by (auto simp: blk_subscriber_round_def head_state_get_def head_state_get_block_def lawful_board_def split: sum.split)
next
  case (listen_head heads blks st)
  then show ?case by (simp add: subscribe_new_head_def head_state_get_def head_state_get_block_def lawful_board_def)
next
  case (listen_block heads blks st)
  then show ?case by (simp add: subscribe_new_block_def head_state_get_def head_state_get_block_def lawful_board_def)
qed

section \<open>The beacon client\<close>

record beacon_remote_error =
  be_code :: u64
  be_message :: string

datatype ('h, 'j) beacon_client_error =
    HttpError 'h
  | OtherError string
  | RemoteError beacon_remote_error
  | SerdeResponseError 'j string

record http_response =
  rs_success :: bool
  rs_body :: "u8 list"

text \<open>The functions of other crates: the parser of URIs, the HTTP client, JSON, \<open>from_utf8_lossy\<close> and the printed form of an error.\<close>

record ('u, 'h, 'j) beacon_api =
  bn_endpoint :: string
  bn_parse_uri :: "string \<Rightarrow> 'u option"
  bn_send :: "'u \<Rightarrow> 'h + http_response"
  bn_remote_error :: "u8 list \<Rightarrow> 'j + beacon_remote_error"
  bn_debug :: "'j \<Rightarrow> string"
  bn_lossy :: "u8 list \<Rightarrow> string"

definition beacon_rpc :: "('u, 'h, 'j) beacon_api \<Rightarrow> (u8 list \<Rightarrow> 'j + 'a) \<Rightarrow> string \<Rightarrow> (('h, 'j) beacon_client_error, 'a) outcome" where
  "beacon_rpc N parse path =
     (case bn_parse_uri N (bn_endpoint N @ path) of
        None \<Rightarrow> Panic
      | Some uri \<Rightarrow>
          (case bn_send N uri of
             Inl err \<Rightarrow> Err (HttpError err)
           | Inr response \<Rightarrow>
               (if \<not> rs_success response
                then case bn_remote_error N (rs_body response) of
                       Inl err \<Rightarrow> Err (OtherError (bn_debug N err))
                     | Inr err \<Rightarrow> Err (RemoteError err)
                else case parse (rs_body response) of
                       Inl err \<Rightarrow> Err (SerdeResponseError err (bn_lossy N (rs_body response)))
                     | Inr data \<Rightarrow> Ok data)))"

definition get_head_header :: "('u, 'h, 'j) beacon_api \<Rightarrow> (u8 list \<Rightarrow> 'j + 'a) \<Rightarrow> (('h, 'j) beacon_client_error, 'a) outcome" where
  "get_head_header N parse = beacon_rpc N parse ''/eth/v1/beacon/headers/head''"

definition get_header :: "('u, 'h, 'j) beacon_api \<Rightarrow> (u8 list \<Rightarrow> 'j + 'a) \<Rightarrow> u64 \<Rightarrow> (('h, 'j) beacon_client_error, 'a) outcome" where
  "get_header N parse header = beacon_rpc N parse (''/eth/v1/beacon/headers/'' @ decimal (unat header))"

definition get_randao :: "('u, 'h, 'j) beacon_api \<Rightarrow> (u8 list \<Rightarrow> 'j + 'a) \<Rightarrow> u64 \<Rightarrow> (('h, 'j) beacon_client_error, 'a) outcome" where
  "get_randao N parse slot = beacon_rpc N parse (''/eth/v1/beacon/states/'' @ decimal (unat slot) @ ''/randao'')"

definition genesis :: "('u, 'h, 'j) beacon_api \<Rightarrow> (u8 list \<Rightarrow> 'j + 'a) \<Rightarrow> (('h, 'j) beacon_client_error, 'a) outcome" where
  "genesis N parse = beacon_rpc N parse ''/eth/v1/beacon/genesis''"

definition withdrawal_of :: "('u, 'h, 'j) beacon_api \<Rightarrow> (u8 list \<Rightarrow> 'j + 'a) \<Rightarrow> u64 \<Rightarrow> (('h, 'j) beacon_client_error, 'a) outcome" where
  "withdrawal_of N parse slot = beacon_rpc N parse (''/eth/v1/beacon/states/'' @ decimal (unat slot) @ ''/withdrawals'')"

text \<open>Every answer has one cause, and a client whose endpoint parses never panics.\<close>

theorem beacon_rpc_cases:
  assumes "bn_parse_uri N (bn_endpoint N @ path) = Some uri"
  shows "beacon_rpc N parse path \<noteq> Panic \<and>
    (beacon_rpc N parse path = Ok a \<longleftrightarrow> (\<exists>r. bn_send N uri = Inr r \<and> rs_success r \<and> parse (rs_body r) = Inr a)) \<and>
    (beacon_rpc N parse path = Err (HttpError h) \<longleftrightarrow> bn_send N uri = Inl h) \<and>
    (beacon_rpc N parse path = Err (RemoteError e) \<longleftrightarrow>
       (\<exists>r. bn_send N uri = Inr r \<and> \<not> rs_success r \<and> bn_remote_error N (rs_body r) = Inr e))"
  using assms by (auto simp: beacon_rpc_def split: sum.splits)

section \<open>The public interface of the builder\<close>

definition builder_default :: "string list \<Rightarrow> (string \<Rightarrow> 'p \<Rightarrow> 'v rpc_result) \<Rightarrow> string \<Rightarrow> 'p \<Rightarrow> jsonrpc_error + 'v" where
  "builder_default methods rpc name params =
     (if name \<in> set methods
      then case rpc name params of
             RpcOk n \<Rightarrow> Inr n
           | ResponseError err \<Rightarrow> Inl err
           | OtherRpcError err \<Rightarrow> Inl (UnknownRpcError err)
      else Inl (ClientError (''method not found: '' @ name)))"

text \<open>\<open>get_bundle_list\<close> serialises the history of the bundle pool; \<open>None\<close> is the panic on a failing encoder.\<close>

definition get_bundle_list :: "(bundle_stat list \<Rightarrow> 'j + u8 list) \<Rightarrow> 'tx tx_pool \<Rightarrow> u8 list option" where
  "get_bundle_list to_vec txpool =
     (case bundle_pool_stat to_vec (tp_bundle_pool txpool) of Inr result \<Rightarrow> Some result | Inl _ \<Rightarrow> None)"

definition get_el_endpoint :: "string list \<Rightarrow> string \<Rightarrow> string option" where
  "get_el_endpoint execution_nodes prefix = find (starts_with prefix) execution_nodes"

text \<open>Both services forward exactly the listed methods, and nothing else reaches the execution node.\<close>

theorem builder_default_exact:
  "builder_default methods rpc = default_method methods rpc \<and>
   (name \<notin> set methods \<longrightarrow> builder_default methods rpc name params = Inl (ClientError (''method not found: '' @ name)))"
  by (simp add: builder_default_def default_method_def fun_eq_iff)

end
