(* ===== verification/Aggregator.thy ===== *)
theory Aggregator
  imports Hash_Pool Simulator
begin

text \<open>
  The pool aggregator: \<open>src/apps/pool-aggregator/src\<close>, with its websocket server \<open>server.rs\<close>, the methods of \<open>api.rs\<close>
  and the threads of \<open>app.rs\<close>; the block analyzer of the block builder service (\<open>build.rs\<close>) is the same loop.

  The connections of the server are a parameter: which identifiers are connected, and whether a write to a
  connection succeeds.  What is written is logged.  JSON encodings are arguments.
\<close>

section \<open>State\<close>

datatype tick_result = Busy | Idle | TickError

record ('m, 'v) aggregator =
  ag_hash_pool :: 'm
  ag_block_reports :: "(u64, block_report) btree_map"
  ag_subscriptions :: "(string, nat) btree_map"
  ag_responses :: "(nat, 'v) btree_map"

text \<open>The connections: the open ones, and the writes so far.\<close>

record 'v ws_conns =
  wc_open :: "nat list"
  wc_written :: "(nat \<times> 'v) list"

definition aggregator_new :: "'m \<Rightarrow> (u64, block_report) btree_map \<Rightarrow> ('m, 'v) aggregator" where
  "aggregator_new hash_pool block_reports =
     \<lparr>ag_hash_pool = hash_pool, ag_block_reports = block_reports, ag_subscriptions = [], ag_responses = []\<rparr>"

section \<open>Ticks\<close>

text \<open>The loop over the responses: the connections it wrote to, and the connections afterwards.\<close>

fun tick_responses :: "(nat \<Rightarrow> 'v \<Rightarrow> bool) \<Rightarrow> (nat, 'v) btree_map \<Rightarrow> 'v ws_conns \<Rightarrow> nat list \<times> 'v ws_conns" where
  "tick_responses write [] conns = ([], conns)"
| "tick_responses write ((cid, data) # rest) conns =
     (if cid \<in> set (wc_open conns) \<and> write cid data
      then (let (removed, conns) = tick_responses write rest (conns\<lparr>wc_written := wc_written conns @ [(cid, data)]\<rparr>)
            in (cid # removed, conns))
      else tick_responses write rest conns)"

definition on_tick_response :: "(nat \<Rightarrow> 'v \<Rightarrow> bool) \<Rightarrow> ('m, 'v) aggregator \<Rightarrow> 'v ws_conns \<Rightarrow> tick_result \<times> ('m, 'v) aggregator \<times> 'v ws_conns" where
  "on_tick_response write a conns =
     (let (removed, conns) = tick_responses write (ag_responses a) conns
      in (if 0 < length removed then Busy else Idle, a\<lparr>ag_responses := fold bt_remove removed (ag_responses a)\<rparr>, conns))"

text \<open>The loop over the subscriptions: a connection that fails is closed and its subscription is marked.\<close>

fun tick_push :: "(nat \<Rightarrow> 'v \<Rightarrow> bool) \<Rightarrow> (string \<Rightarrow> 'v) \<Rightarrow> (string, nat) btree_map \<Rightarrow> 'v ws_conns \<Rightarrow> string list \<times> 'v ws_conns" where
  "tick_push write push [] conns = ([], conns)"
| "tick_push write push ((sid, cid) # rest) conns =
     (if cid \<notin> set (wc_open conns) then tick_push write push rest conns
      else if write cid (push sid)
      then tick_push write push rest (conns\<lparr>wc_written := wc_written conns @ [(cid, push sid)]\<rparr>)
      else (let (removed, conns) = tick_push write push rest (conns\<lparr>wc_open := filter (\<lambda>c. c \<noteq> cid) (wc_open conns)\<rparr>)
            in (sid # removed, conns)))"

datatype 'r recv = Received 'r | Disconnected | EmptyChannel

definition on_tick_subscriptions ::
  "('m, 't) lru_api \<Rightarrow> 't \<Rightarrow> (nat \<Rightarrow> 'v \<Rightarrow> bool) \<Rightarrow> ('tx pool_tx \<Rightarrow> string \<Rightarrow> 'v) \<Rightarrow> 'tx pool_tx recv \<Rightarrow> ('m, 'v) aggregator \<Rightarrow> 'v ws_conns
     \<Rightarrow> tick_result \<times> ('m, 'v) aggregator \<times> 'v ws_conns" where
  "on_tick_subscriptions L now write push msg a conns =
     (case msg of
        Received tx \<Rightarrow>
          (let a = a\<lparr>ag_hash_pool := simulated L now (ptx_hash tx) (ag_hash_pool a)\<rparr>;
               (removed, conns) = tick_push write (push tx) (ag_subscriptions a) conns
           in (Busy, a\<lparr>ag_subscriptions := fold bt_remove removed (ag_subscriptions a)\<rparr>, conns))
      | Disconnected \<Rightarrow> (TickError, a, conns)
      | EmptyChannel \<Rightarrow> (Idle, a, conns))"

text \<open>\<open>on_tick\<close>; \<open>join\<close> is \<open>|=\<close> on \<open>TickResult\<close>, of the crate \<open>net_http\<close>.\<close>

definition on_tick ::
  "(tick_result \<Rightarrow> tick_result \<Rightarrow> tick_result) \<Rightarrow> ('m, 't) lru_api \<Rightarrow> 't \<Rightarrow> (nat \<Rightarrow> 'v \<Rightarrow> bool) \<Rightarrow> ('tx pool_tx \<Rightarrow> string \<Rightarrow> 'v) \<Rightarrow> 'tx pool_tx recv
     \<Rightarrow> ('m, 'v) aggregator \<Rightarrow> 'v ws_conns \<Rightarrow> tick_result \<times> ('m, 'v) aggregator \<times> 'v ws_conns" where
  "on_tick join L now write push msg a conns =
     (let (r1, a, conns) = on_tick_response write a conns;
          (r2, a, conns) = on_tick_subscriptions L now write push msg a conns
      in (join r1 r2, a, conns))"

section \<open>Requests\<close>

datatype ('id, 'v) response = OkResponse 'id 'v | ErrResponse "'id option" string

definition write_response :: "(('id, 'v) response \<Rightarrow> 'w) \<Rightarrow> nat \<Rightarrow> ('id, 'v) response \<Rightarrow> ('m, 'w) aggregator \<Rightarrow> ('m, 'w) aggregator" where
  "write_response to_vec cid data a = a\<lparr>ag_responses := bt_insert cid (to_vec data) (ag_responses a)\<rparr>"

definition write_error :: "(('id, 'v) response \<Rightarrow> 'w) \<Rightarrow> nat \<Rightarrow> 'id option \<Rightarrow> string \<Rightarrow> ('m, 'w) aggregator \<Rightarrow> ('m, 'w) aggregator" where
  "write_error to_vec cid rid err a = write_response to_vec cid (ErrResponse rid err) a"

text \<open>A connection that closes: every key of the map is collected and removed.\<close>

definition on_close_ws_conn :: "nat \<Rightarrow> ('m, 'v) aggregator \<Rightarrow> ('m, 'v) aggregator" where
  "on_close_ws_conn cid a =
     (let keys = map fst (ag_subscriptions a) in a\<lparr>ag_subscriptions := fold bt_remove keys (ag_subscriptions a)\<rparr>)"

record ('id, 'p) raw_request =
  rq_method :: string
  rq_params :: 'p
  rq_id :: 'id

text \<open>\<open>parse_ids\<close> reads the parameters of \<open>eth_unsubscribe\<close>, \<open>random\<close> is the text of sixteen random bytes.\<close>

definition on_new_ws_request ::
  "(('id, 'v) response \<Rightarrow> 'w) \<Rightarrow> (u8 list \<Rightarrow> string + ('id, 'p) raw_request) \<Rightarrow> ('p \<Rightarrow> string + string list) \<Rightarrow> ((u64, block_report) btree_map \<Rightarrow> 'v)
     \<Rightarrow> (string \<Rightarrow> 'v) \<Rightarrow> 'v \<Rightarrow> string \<Rightarrow> nat \<Rightarrow> u8 list \<Rightarrow> ('m, 'w) aggregator \<Rightarrow> ('m, 'w) aggregator" where
  "on_new_ws_request to_vec parse parse_ids show_reports show_id null random cid data a =
     (case parse data of
        Inl err \<Rightarrow> write_error to_vec cid None err a
      | Inr req \<Rightarrow>
          if rq_method req = ''blocks''
          then write_response to_vec cid (OkResponse (rq_id req) (show_reports (ag_block_reports a))) a
          else if rq_method req = ''eth_subscribe''
          then write_response to_vec cid (OkResponse (rq_id req) (show_id random)) (a\<lparr>ag_subscriptions := bt_insert random cid (ag_subscriptions a)\<rparr>)
          else if rq_method req = ''eth_unsubscribe''
          then (case parse_ids (rq_params req) of
                  Inl err \<Rightarrow> write_error to_vec cid (Some (rq_id req)) err a
                | Inr ids \<Rightarrow>
                    if length ids \<noteq> 1 then write_error to_vec cid (Some (rq_id req)) ''invalid params'' a
                    else case map_of (ag_subscriptions a) (hd ids) of
                           Some _ \<Rightarrow> write_response to_vec cid (OkResponse (rq_id req) null) (a\<lparr>ag_subscriptions := bt_remove (hd ids) (ag_subscriptions a)\<rparr>)
                         | None \<Rightarrow> write_error to_vec cid (Some (rq_id req)) ''subscrption not found'' a)
          else write_error to_vec cid (Some (rq_id req)) ''method not found'' a)"

section \<open>The methods of the RPC server\<close>

definition aggregator_dispatch ::
  "('m, 't) lru_api \<Rightarrow> 't \<Rightarrow> ('tx pool_tx \<Rightarrow> 'v) \<Rightarrow> 'tx pool_tx \<Rightarrow> string list \<Rightarrow> 'm \<Rightarrow> ('v \<times> string list) list \<times> 'm" where
  "aggregator_dispatch L now to_bytes tx ids pool = ([(to_bytes tx, ids)], simulated L now (ptx_hash tx) pool)"

definition aggregator_blocks :: "((u64, block_report) btree_map \<Rightarrow> 'v) \<Rightarrow> (u64, block_report) btree_map \<Rightarrow> 'v" where
  "aggregator_blocks show_reports block_reports = show_reports block_reports"

section \<open>The threads\<close>

text \<open>\<open>tx-client\<close>: every transaction is simulated by the node, bundles are dropped; nothing is forced into a full queue.\<close>

definition aggregator_simulate ::
  "('tx, 's, 'e) simulator \<Rightarrow> bool \<Rightarrow> bool \<Rightarrow> 's \<Rightarrow> block_header \<Rightarrow> 'tx mempool_item \<Rightarrow> ('tx, 'e) simulate_result option" where
  "aggregator_simulate M stalled alive state head item =
     (case item of
        PriceItem tx \<Rightarrow> simulate_async M stalled alive False True state head tx
      | SeqItem tx \<Rightarrow> simulate_async M stalled alive False True state head tx
      | BundleItem _ \<Rightarrow> None)"

text \<open>\<open>subscription-forward\<close>: the transaction of every result goes to the subscribers, that of an error too.\<close>

definition subscription_forward :: "('tx, 'e) simulate_result \<Rightarrow> 'tx pool_tx" where
  "subscription_forward r = sr_tx r"

text \<open>\<open>tx-analyzer\<close>: the report of a new block; the newest twenty are kept.\<close>

definition reports_add :: "block_report \<Rightarrow> (u64, block_report) btree_map \<Rightarrow> (u64, block_report) btree_map" where
  "reports_add r reports = trim_front 20 (bt_insert (rp_number r) r reports)"

definition analyze_block ::
  "'tx tx_api \<Rightarrow> 'tx report_api \<Rightarrow> ('m, 't) lru_api \<Rightarrow> 't time_api \<Rightarrow> beacon_slot \<Rightarrow> (string + (block_header \<times> 'tx option list)) \<Rightarrow> (string + u64 list) \<Rightarrow> 'm
     \<Rightarrow> (u64, block_report) btree_map \<Rightarrow> ('m \<times> (u64, block_report) btree_map) option" where
  "analyze_block A R L T S blk receipts pool reports =
     (case blk of
        Inl _ \<Rightarrow> Some (pool, reports)
      | Inr (header, txs) \<Rightarrow>
          (case receipts of
             Inl _ \<Rightarrow> Some (pool, reports)
           | Inr gas_useds \<Rightarrow> map_option (\<lambda>(r, pool). (pool, reports_add r reports)) (report A R L T S header txs (Some gas_useds) pool)))"

section \<open>What the server does\<close>

lemma map_of_fold_bt_remove: "map_of (fold bt_remove ks m) k = (if k \<in> set ks then None else map_of m k)"
  by (induction ks arbitrary: m) auto

text \<open>Closing one connection ends the subscriptions of all.\<close>

lemma on_close_drops_all: "ag_subscriptions (on_close_ws_conn cid a) = []"
proof -
  have "fold bt_remove (map fst m) m = []" for m :: "(string, nat) btree_map"
  proof -
    have "map_of (fold bt_remove (map fst m) m) k = None" for k
      by (auto simp: map_of_fold_bt_remove map_of_eq_None_iff)
    then show ?thesis unfolding map_of_eq_empty_iff [symmetric] by (rule ext)
  qed
  then show ?thesis by (simp add: on_close_ws_conn_def)
qed

text \<open>A second request on a connection before the next tick takes the place of the first one's response.\<close>

lemma write_response_overwrites:
  "ag_responses (write_response to_vec cid d2 (write_response to_vec cid d1 a)) = ag_responses (write_response to_vec cid d2 a)"
  by (auto simp: write_response_def bt_insert_def)

text \<open>A tick writes every response whose connection takes it, to that connection and once, and keeps the others.\<close>

lemma tick_responses_exact:
  assumes "bt_ok m"
  shows "tick_responses write m conns =
    (map fst (filter (\<lambda>(cid, data). cid \<in> set (wc_open conns) \<and> write cid data) m),
     conns\<lparr>wc_written := wc_written conns @ filter (\<lambda>(cid, data). cid \<in> set (wc_open conns) \<and> write cid data) m\<rparr>)"
  using assms by (induction m arbitrary: conns) (auto simp: bt_ok_Cons split: prod.splits)

lemma on_tick_response_exact:
  assumes "bt_ok (ag_responses a)" and "on_tick_response write a conns = (r, a', conns')"
  shows "wc_written conns' = wc_written conns @ filter (\<lambda>(cid, data). cid \<in> set (wc_open conns) \<and> write cid data) (ag_responses a)"
    and "map_of (ag_responses a') cid =
      (case map_of (ag_responses a) cid of
         Some data \<Rightarrow> if cid \<in> set (wc_open conns) \<and> write cid data then None else Some data
       | None \<Rightarrow> None)"
proof -
  show "wc_written conns' = wc_written conns @ filter (\<lambda>(cid, data). cid \<in> set (wc_open conns) \<and> write cid data) (ag_responses a)"
    using assms by (auto simp: on_tick_response_def tick_responses_exact)
  have in_set: "(cid, d) \<in> set (ag_responses a) \<longleftrightarrow> map_of (ag_responses a) cid = Some d" for d
    by (rule bt_ok_in_set [OF assms(1)])
  have mem: "cid \<in> set (map fst (filter (\<lambda>(cid, data). cid \<in> set (wc_open conns) \<and> write cid data) (ag_responses a))) \<longleftrightarrow>
      (\<exists>d. map_of (ag_responses a) cid = Some d \<and> cid \<in> set (wc_open conns) \<and> write cid d)"
    by (force simp flip: in_set)
  have eq: "ag_responses a' = fold bt_remove (map fst (filter (\<lambda>(cid, data). cid \<in> set (wc_open conns) \<and> write cid data) (ag_responses a))) (ag_responses a)"
    using assms by (auto simp: on_tick_response_def tick_responses_exact)
  show "map_of (ag_responses a') cid =
      (case map_of (ag_responses a) cid of
         Some data \<Rightarrow> if cid \<in> set (wc_open conns) \<and> write cid data then None else Some data
       | None \<Rightarrow> None)"
    unfolding eq map_of_fold_bt_remove mem by (auto split: option.splits)
qed

text \<open>The reports are those of the twenty newest blocks.\<close>

lemma reports_add_ok: "bt_ok reports \<Longrightarrow> bt_ok (reports_add r reports) \<and> length (reports_add r reports) \<le> 20"
  by (simp add: reports_add_def trim_front_drop bt_ok_drop)

end
