(* ===== verification/Relay_Http.thy ===== *)
theory Relay_Http
  imports Relay Node_Clients Aggregator
begin

text \<open>
  What the relay client reads from outside: the validators of a relay (\<open>fetch_validator\<close> of
  \<open>src/common/mev_boost/src/relay.rs\<close>), public and secret keys (\<open>types.rs\<close>); and the thread of the block builder that reports on
  the blocks of others (\<open>RemoteBlockAnalyzer\<close> of \<open>src/apps/block-builder/src/build.rs\<close>).

  HTTP, JSON, hexadecimal strings and \<open>blst\<close> are parameters.
\<close>

section \<open>The validators of a relay\<close>

text \<open>The functions of other crates: as for the beacon client, and the printed errors of HTTP and JSON.\<close>

record ('u, 'h, 'j) relay_http =
  rh_parse_uri :: "string \<Rightarrow> 'u option"
  rh_send :: "'u \<Rightarrow> 'h + http_response"
  rh_validators :: "u8 list \<Rightarrow> 'j + validator_item list"
  rh_debug_http :: "'h \<Rightarrow> string"
  rh_show_json :: "'j \<Rightarrow> string"
  rh_lossy :: "u8 list \<Rightarrow> string"

text \<open>The status of the response is not looked at; a URI that does not parse panics.\<close>

definition fetch_validator :: "('u, 'h, 'j) relay_http \<Rightarrow> string \<Rightarrow> string \<Rightarrow> (relay_error, validator_item list) outcome" where
  "fetch_validator H name endpoint =
     (case rh_parse_uri H (endpoint @ ''/relay/v1/builder/validators'') of
        None \<Rightarrow> Panic
      | Some uri \<Rightarrow>
          (case rh_send H uri of
             Inl err \<Rightarrow> Err (FetchValidatorFail (''['' @ name @ ''] '' @ rh_debug_http H err))
           | Inr response \<Rightarrow>
               (case rh_validators H (rs_body response) of
                  Inl err \<Rightarrow> Err (FetchValidatorFail (''['' @ name @ '']'' @ rh_show_json H err @ '': '' @ rh_lossy H (rs_body response)))
                | Inr items \<Rightarrow> Ok items)))"

text \<open>A round of the thread of a relay; \<open>None\<close> is a panic.\<close>

definition relay_round ::
  "('u, 'h, 'j) relay_http \<Rightarrow> (string \<Rightarrow> u8 list option) \<Rightarrow> string \<Rightarrow> string \<Rightarrow> validator_map \<Rightarrow> validator_map option" where
  "relay_round H from_hex name endpoint m =
     (case fetch_validator H name endpoint of
        Panic \<Rightarrow> None
      | Err err \<Rightarrow> Some (fetch_and_update_validator from_hex name (Inl err) m)
      | Ok items \<Rightarrow> Some (fetch_and_update_validator from_hex name (Inr items) m))"

text \<open>A relay that cannot be reached, or answers nonsense, does not change the map, whatever the others did to it.\<close>

theorem relay_round_unreachable:
  assumes "rh_parse_uri H (endpoint @ ''/relay/v1/builder/validators'') = Some uri"
    and "rh_send H uri = Inl e \<or> (\<exists>r j. rh_send H uri = Inr r \<and> rh_validators H (rs_body r) = Inl j)"
  shows "relay_round H from_hex name endpoint m = Some m"
  using assms by (auto simp: relay_round_def fetch_validator_def fetch_and_update_validator_def)

theorem relay_round_answer:
  assumes "rh_parse_uri H (endpoint @ ''/relay/v1/builder/validators'') = Some uri"
    and "rh_send H uri = Inr r" and "rh_validators H (rs_body r) = Inr items"
  shows "relay_round H from_hex name endpoint m = Some (snd (validator_update from_hex name items m))"
  using assms by (simp add: relay_round_def fetch_validator_def fetch_and_update_validator_def)

section \<open>Keys\<close>

text \<open>\<open>Pubkey\<close> as a string, and back; \<open>hex_bytes\<close> is the decoder of \<open>HexBytes\<close>, and a wrong length panics in \<open>copy_from_slice\<close>.\<close>

definition pubkey_serialize :: "(u8 list \<Rightarrow> string) \<Rightarrow> pubkey \<Rightarrow> string" where
  "pubkey_serialize hex_encode k = ''0x'' @ hex_encode k"

definition pubkey_deserialize :: "(string \<Rightarrow> 'e + u8 list) \<Rightarrow> string \<Rightarrow> ('e, pubkey) outcome" where
  "pubkey_deserialize hex_bytes s =
     (case hex_bytes s of
        Inl err \<Rightarrow> Err err
      | Inr data \<Rightarrow> (case pubkey_from data of Some k \<Rightarrow> Ok k | None \<Rightarrow> Panic))"

theorem pubkey_roundtrip:
  assumes "\<And>bs. hex_bytes (''0x'' @ hex_encode bs) = Inr bs"
  shows "pubkey_deserialize hex_bytes (pubkey_serialize hex_encode bs) = (if length bs = 48 then Ok bs else Panic)"
  using assms by (simp add: pubkey_deserialize_def pubkey_serialize_def pubkey_from_def)

text \<open>A secret key: 32 bytes in hexadecimal after \<open>0x\<close>, or else the characters of the string themselves.\<close>

datatype 'e key_error = HexError 'e | InvalidLength | InvalidKey

definition string_bytes :: "string \<Rightarrow> u8 list" where
  "string_bytes s = map (\<lambda>c. of_char c) s"

definition secret_key_deserialize ::
  "(string \<Rightarrow> 'e + u8 list) \<Rightarrow> (u8 list \<Rightarrow> 'sk option) \<Rightarrow> string \<Rightarrow> 'e key_error + 'sk" where
  "secret_key_deserialize hex_decode key_from_bytes s =
     (case (if starts_with ''0x'' s then hex_decode (drop 2 s) else Inr (string_bytes s)) of
        Inl err \<Rightarrow> Inl (HexError err)
      | Inr result \<Rightarrow>
          (if length result \<noteq> 32 then Inl InvalidLength
           else case key_from_bytes result of None \<Rightarrow> Inl InvalidKey | Some key \<Rightarrow> Inr key))"

text \<open>A key is 32 bytes; without the prefix the 64 hexadecimal digits of a key are refused for their length.\<close>

theorem secret_key_length:
  "secret_key_deserialize hex_decode key_from_bytes s = Inr key \<Longrightarrow>
     (\<exists>bs. length bs = 32 \<and> key_from_bytes bs = Some key \<and> (bs = string_bytes s \<or> hex_decode (drop 2 s) = Inr bs))"
  "\<not> starts_with ''0x'' s \<Longrightarrow> length s = 64 \<Longrightarrow> secret_key_deserialize hex_decode key_from_bytes s = Inl InvalidLength"
  by (auto simp: secret_key_deserialize_def string_bytes_def split: sum.splits if_splits option.splits)

section \<open>Reports on the blocks of others\<close>

text \<open>A round of \<open>RemoteBlockAnalyzer::run\<close>: the block and its receipts are fetched, an error skips it, and the last 20 reports are kept.\<close>

definition remote_analyze_round ::
  "'tx tx_api \<Rightarrow> 'tx report_api \<Rightarrow> ('m, 't) lru_api \<Rightarrow> 't time_api \<Rightarrow> beacon_slot
     \<Rightarrow> (rpc_call \<Rightarrow> 'err + (block_header \<times> 'tx option list)) \<Rightarrow> (string \<Rightarrow> rpc_param list list \<Rightarrow> 'err + u64 list) \<Rightarrow> ('tx option \<Rightarrow> h256)
     \<Rightarrow> block_header \<Rightarrow> 'm \<Rightarrow> (u64, block_report) btree_map \<Rightarrow> ('m \<times> (u64, block_report) btree_map) option" where
  "remote_analyze_round A R L T S rpc batch_rpc hash_of head pool reports =
     (case get_full_block rpc (SelNumber (h_number head)) of
        Inl _ \<Rightarrow> Some (pool, reports)
      | Inr (header, txs) \<Rightarrow>
          (case get_receipts batch_rpc (map hash_of txs) of
             Inl _ \<Rightarrow> Some (pool, reports)
           | Inr receipts \<Rightarrow>
               map_option (\<lambda>(r, pool). (pool, trim_front 20 (bt_insert (rp_number r) r reports)))
                 (report A R L T S header txs (Some receipts) pool)))"

text \<open>The analyzer of the builder and that of the aggregator do the same with the same answers.\<close>

theorem remote_analyze_is_analyze_block:
  assumes "get_full_block rpc (SelNumber (h_number head)) = map_sum f id blk"
    and "\<And>header txs. blk = Inr (header, txs) \<Longrightarrow> get_receipts batch_rpc (map hash_of txs) = map_sum f id receipts"
  shows "remote_analyze_round A R L T S rpc batch_rpc hash_of head pool reports = analyze_block A R L T S blk receipts pool reports"
  using assms by (cases blk; cases receipts) (auto simp: remote_analyze_round_def analyze_block_def reports_add_def)

end
