(* ===== verification/Mempool_Client.thy ===== *)
theory Mempool_Client
  imports Hash_Pool Mempool_Api
begin

text \<open>
  The client of the mempool service and the fetcher that uses it: \<open>src/common/mempool/src/client.rs\<close> and \<open>ext.rs\<close>.

  In the enclave build a client exchanges a key with the service once per connection: \<open>check_auth\<close> caches the key with the epoch
  of the websocket connection.  The state is shared by the clones of a client behind a mutex, so a run is a sequence of calls;
  the arguments of a call are what it reads from outside, the epoch of the connection and the result of the key exchange.  A
  failing exchange panics with the mutex locked, which poisons it: every later call panics too.
\<close>

section \<open>The client\<close>

record 'k auth_state =
  au_epoch :: nat
  au_key :: "'k option"
  au_poisoned :: bool

type_synonym 'k auth_call = "nat \<times> 'k option"

definition auth_new :: "'k auth_state" where
  "auth_new = \<lparr>au_epoch = 0, au_key = None, au_poisoned = False\<rparr>"

text \<open>\<open>None\<close> is the panic.\<close>

definition check_auth :: "'k auth_call \<Rightarrow> 'k auth_state \<Rightarrow> 'k option \<times> 'k auth_state" where
  "check_auth call c =
     (let (epoch, exchange_key) = call;
          exchange =
            (case exchange_key of
               Some result \<Rightarrow> (Some result, c\<lparr>au_key := Some result, au_epoch := epoch\<rparr>)
             | None \<Rightarrow> (None, c\<lparr>au_poisoned := True\<rparr>))
      in if au_poisoned c then (None, c)
         else if epoch = au_epoch c then (case au_key c of Some key \<Rightarrow> (Some key, c) | None \<Rightarrow> exchange)
         else exchange)"

text \<open>A call of the service under the key of the connection (\<open>enc_rpc\<close>).\<close>

definition client_rpc :: "('k \<Rightarrow> string \<Rightarrow> 'err + 'v) \<Rightarrow> 'k auth_call \<Rightarrow> string \<Rightarrow> 'k auth_state \<Rightarrow> ('err, 'v) outcome \<times> 'k auth_state" where
  "client_rpc enc_rpc call method c =
     (case check_auth call c of
        (None, c) \<Rightarrow> (Panic, c)
      | (Some result, c) \<Rightarrow> ((case enc_rpc result method of Inl err \<Rightarrow> Err err | Inr v \<Rightarrow> Ok v), c))"

text \<open>
  \<open>get_transaction\<close> unwraps the answer, so that an error of the call panics; the first transaction that does not decode is returned as an
  error.
\<close>

fun decode_all :: "('r \<Rightarrow> 'err + 'a) \<Rightarrow> 'r list \<Rightarrow> ('err, 'a list) outcome" where
  "decode_all from_rlp [] = Ok []"
| "decode_all from_rlp (item # items) =
     (case from_rlp item of
        Inl err \<Rightarrow> Err err
      | Inr tx \<Rightarrow> (case decode_all from_rlp items of Ok txs \<Rightarrow> Ok (tx # txs) | e \<Rightarrow> e))"

definition pool_get_transaction ::
  "('k \<Rightarrow> string \<Rightarrow> 'err + 'r list) \<Rightarrow> ('r \<Rightarrow> 'err + 'tx pool_tx) \<Rightarrow> 'k auth_call \<Rightarrow> 'k auth_state
     \<Rightarrow> ('err, 'tx pool_tx list) outcome \<times> 'k auth_state" where
  "pool_get_transaction enc_rpc from_rlp call c =
     (case client_rpc enc_rpc call ''pool_getRawTransaction'' c of
        (Ok response, c) \<Rightarrow> (decode_all from_rlp response, c)
      | (_, c) \<Rightarrow> (Panic, c))"

text \<open>
  A subscription: the key sent with the request, under which the service seals, and the key with which the messages are opened.
  \<open>subscribe_bundle\<close> and \<open>subscribe_tx\<close> call \<open>check_auth\<close> for the first and \<open>subscribe\<close> calls it again for the second.
\<close>

record 'k pool_subscription =
  ps_topic :: subscribe_opt
  ps_request_key :: 'k
  ps_formatter_key :: 'k

definition client_subscribe ::
  "('k \<Rightarrow> subscribe_opt \<Rightarrow> 'err + unit) \<Rightarrow> 'k auth_call \<Rightarrow> subscribe_opt \<Rightarrow> 'k \<Rightarrow> 'k auth_state
     \<Rightarrow> ('err, 'k pool_subscription) outcome \<times> 'k auth_state" where
  "client_subscribe raw_subscribe call topic pubkey c =
     (case check_auth call c of
        (None, c) \<Rightarrow> (Panic, c)
      | (Some auth, c) \<Rightarrow>
          ((case raw_subscribe pubkey topic of
              Inl err \<Rightarrow> Err err
            | Inr _ \<Rightarrow> Ok \<lparr>ps_topic = topic, ps_request_key = pubkey, ps_formatter_key = auth\<rparr>), c))"

definition subscribe_topic ::
  "('k \<Rightarrow> subscribe_opt \<Rightarrow> 'err + unit) \<Rightarrow> 'k auth_call \<Rightarrow> 'k auth_call \<Rightarrow> subscribe_opt \<Rightarrow> 'k auth_state
     \<Rightarrow> ('err, 'k pool_subscription) outcome \<times> 'k auth_state" where
  "subscribe_topic raw_subscribe call1 call2 topic c =
     (case check_auth call1 c of
        (None, c) \<Rightarrow> (Panic, c)
      | (Some auth, c) \<Rightarrow> client_subscribe raw_subscribe call2 topic auth c)"

definition subscribe_bundle ::
  "('k \<Rightarrow> subscribe_opt \<Rightarrow> 'err + unit) \<Rightarrow> 'k auth_call \<Rightarrow> 'k auth_call \<Rightarrow> 'k auth_state
     \<Rightarrow> ('err, 'k pool_subscription) outcome \<times> 'k auth_state" where
  "subscribe_bundle raw_subscribe call1 call2 c = subscribe_topic raw_subscribe call1 call2 NewBundle c"

definition subscribe_tx ::
  "('k \<Rightarrow> subscribe_opt \<Rightarrow> 'err + unit) \<Rightarrow> 'k auth_call \<Rightarrow> 'k auth_call \<Rightarrow> 'k auth_state
     \<Rightarrow> ('err, 'k pool_subscription) outcome \<times> 'k auth_state" where
  "subscribe_tx raw_subscribe call1 call2 c = subscribe_topic raw_subscribe call1 call2 NewTx c"

section \<open>The fetcher of the mempool\<close>

text \<open>The thread of the bundles: a message that does not decode is skipped, a bundle seen before is not sent again.\<close>

definition mempool_bundle_round ::
  "('m, 't) lru_api \<Rightarrow> ('r \<Rightarrow> string + 'tx eth_bundle) \<Rightarrow> 'tx bundle_api \<Rightarrow> 't \<Rightarrow> bool \<Rightarrow> string + 'r \<Rightarrow> ('m, 'tx) fetcher
     \<Rightarrow> bool \<times> ('m, 'tx) fetcher" where
  "mempool_bundle_round L from_rlp B now receiver msg f =
     (case msg of
        Inl _ \<Rightarrow> (False, f)
      | Inr bytes \<Rightarrow>
          (case from_rlp bytes of
             Inl _ \<Rightarrow> (True, f)
           | Inr bundle \<Rightarrow> forward_tx L now receiver (bundle_hash B bundle) (BundleItem bundle) f))"

text \<open>
  The thread of the private transactions: first those the service has, which are neither looked up in the hash pool nor counted,
  until the receiver is gone; then the messages of the subscription.
\<close>

fun mempool_ptx_start :: "bool \<Rightarrow> 'tx pool_tx list \<Rightarrow> ('m, 'tx) fetcher \<Rightarrow> ('m, 'tx) fetcher" where
  "mempool_ptx_start receiver [] f = f"
| "mempool_ptx_start receiver (tx # txs) f =
     (if receiver then mempool_ptx_start receiver txs (f\<lparr>fe_sent := fe_sent f @ [SeqItem tx]\<rparr>) else f)"

definition mempool_ptx_round ::
  "('m, 't) lru_api \<Rightarrow> ('r \<Rightarrow> string + 'tx pool_tx) \<Rightarrow> 't \<Rightarrow> bool \<Rightarrow> string + 'r \<Rightarrow> ('m, 'tx) fetcher \<Rightarrow> bool \<times> ('m, 'tx) fetcher" where
  "mempool_ptx_round L from_rlp now receiver msg f =
     (case msg of
        Inl _ \<Rightarrow> (False, f)
      | Inr bytes \<Rightarrow>
          (case from_rlp bytes of
             Inl _ \<Rightarrow> (True, f)
           | Inr tx \<Rightarrow> forward_tx L now receiver (ptx_hash tx) (SeqItem tx) f))"

section \<open>One key per connection\<close>

text \<open>A sequence of calls: what they return, and the state after them.\<close>

fun auth_run :: "'k auth_call list \<Rightarrow> 'k auth_state \<Rightarrow> 'k option list \<times> 'k auth_state" where
  "auth_run [] c = ([], c)"
| "auth_run (call # calls) c =
     (let (r, c) = check_auth call c; (rs, c) = auth_run calls c in (r # rs, c))"

lemma auth_run_snoc:
  "auth_run (calls @ [call]) c =
     (let (rs, c) = auth_run calls c; (r, c) = check_auth call c in (rs @ [r], c))"
  by (induction calls arbitrary: c) (auto simp: Let_def split: prod.splits)

lemma length_auth_run: "auth_run calls c = (rs, c') \<Longrightarrow> length rs = length calls"
  by (induction calls arbitrary: c rs) (auto simp: Let_def split: prod.splits)

text \<open>The call \<open>j\<close> is the first of the calls in a row at the epoch of the call \<open>i\<close>.\<close>

definition first_of_epoch :: "'k auth_call list \<Rightarrow> nat \<Rightarrow> nat \<Rightarrow> bool" where
  "first_of_epoch calls j i \<longleftrightarrow>
     j \<le> i \<and> (\<forall>m. j \<le> m \<and> m \<le> i \<longrightarrow> fst (calls ! i) = fst (calls ! m)) \<and> (0 < j \<longrightarrow> fst (calls ! (j - 1)) \<noteq> fst (calls ! i))"

text \<open>The cached key is the one of the exchange at the first call of the current epoch.\<close>

definition auth_inv :: "'k auth_call list \<Rightarrow> 'k auth_state \<Rightarrow> bool" where
  "auth_inv calls c \<longleftrightarrow> au_poisoned c \<or>
     (if calls = [] then au_key c = None
      else au_epoch c = fst (last calls) \<and>
        (\<exists>j. first_of_epoch calls j (length calls - 1) \<and> au_key c = snd (calls ! j) \<and> au_key c \<noteq> None))"

lemma first_of_epoch_old:
  assumes "i < length calls"
  shows "first_of_epoch (calls @ [call]) j i \<longleftrightarrow> first_of_epoch calls j i"
proof -
  have "(calls @ [call]) ! m = calls ! m" if "m \<le> i" for m using that assms by (simp add: nth_append)
  then show ?thesis by (auto simp: first_of_epoch_def)
qed

lemma first_of_epoch_same:
  assumes "calls \<noteq> []" and same: "fst call = fst (last calls)" and first: "first_of_epoch calls j (length calls - 1)"
  shows "first_of_epoch (calls @ [call]) j (length calls)"
proof -
  have last: "fst (calls ! (length calls - 1)) = fst call" using assms(1) same by (simp add: last_conv_nth)
  have "fst call = fst ((calls @ [call]) ! m)" if m: "j \<le> m" "m \<le> length calls" for m
  proof (cases "m = length calls")
    case False
    then have "m \<le> length calls - 1" "m < length calls" using m by simp_all
    then show ?thesis using m first last by (simp add: first_of_epoch_def nth_append)
  qed simp
  moreover have "j < length calls" using first assms(1) by (cases calls) (auto simp: first_of_epoch_def)
  moreover have "fst (calls ! (j - 1)) \<noteq> fst call" if "0 < j" using that first last by (simp add: first_of_epoch_def)
  ultimately show ?thesis by (simp add: first_of_epoch_def nth_append less_imp_diff_less)
qed

lemma first_of_epoch_new: "(calls \<noteq> [] \<Longrightarrow> fst call \<noteq> fst (last calls)) \<Longrightarrow> first_of_epoch (calls @ [call]) (length calls) (length calls)"
  by (cases "calls = []") (auto simp: first_of_epoch_def nth_append last_conv_nth)

lemma check_auth_cases:
  assumes "check_auth (e, x) c = (r, c')"
  obtains (poisoned) "r = None" "au_poisoned c'"
  | (cached) key where "\<not> au_poisoned c" "e = au_epoch c" "au_key c = Some key" "r = Some key" "c' = c"
  | (exchanged) key where "\<not> au_poisoned c" "e = au_epoch c \<Longrightarrow> au_key c = None" "x = Some key" "r = Some key" "au_key c' = Some key" "au_epoch c' = e" "\<not> au_poisoned c'"
  using assms by (auto simp: check_auth_def Let_def split: if_splits option.splits)

lemma auth_inv_step:
  assumes inv: "auth_inv calls c" and step: "check_auth (e, x) c = (r, c')"
  shows "auth_inv (calls @ [(e, x)]) c' \<and>
    (\<forall>k. r = Some k \<longrightarrow> (\<exists>j. first_of_epoch (calls @ [(e, x)]) j (length calls) \<and> snd ((calls @ [(e, x)]) ! j) = Some k))"
  using step
proof (cases rule: check_auth_cases)
  case (cached key)
  then have ne: "calls \<noteq> []" and last: "e = fst (last calls)" using inv by (auto simp: auth_inv_def split: if_splits)
  obtain j where j: "first_of_epoch calls j (length calls - 1)" "snd (calls ! j) = Some key"
    using inv cached ne by (auto simp: auth_inv_def)
  have "j < length calls" using j(1) ne by (cases calls) (auto simp: first_of_epoch_def)
  moreover have "first_of_epoch (calls @ [(e, x)]) j (length calls)" using first_of_epoch_same [OF ne _ j(1), of "(e, x)"] last by simp
  ultimately have "\<exists>j. first_of_epoch (calls @ [(e, x)]) j (length calls) \<and> snd ((calls @ [(e, x)]) ! j) = Some key"
    using j(2) by (metis nth_append)
  then show ?thesis using cached by (auto simp: auth_inv_def)
next
  case (exchanged key)
  have "first_of_epoch (calls @ [(e, x)]) (length calls) (length calls)"
    using exchanged inv by (intro first_of_epoch_new) (auto simp: auth_inv_def)
  then have "\<exists>j. first_of_epoch (calls @ [(e, x)]) j (length calls) \<and> snd ((calls @ [(e, x)]) ! j) = Some key"
    using exchanged by (intro exI [of _ "length calls"]) simp
  then show ?thesis using exchanged by (auto simp: auth_inv_def)
qed (auto simp: auth_inv_def)

lemma auth_run_inv:
  assumes "auth_run calls auth_new = (rs, c)"
  shows "auth_inv calls c \<and> (\<forall>i k. i < length calls \<longrightarrow> rs ! i = Some k \<longrightarrow> (\<exists>j. first_of_epoch calls j i \<and> snd (calls ! j) = Some k))"
  using assms
proof (induction calls arbitrary: rs c rule: rev_induct)
  case Nil
  then show ?case by (auto simp: auth_inv_def auth_new_def)
next
  case (snoc call calls)
  obtain e x where call: "call = (e, x)" by (cases call) simp
  obtain rs0 c0 where run: "auth_run calls auth_new = (rs0, c0)" by (cases "auth_run calls auth_new") simp
  obtain r where step: "check_auth (e, x) c0 = (r, c)" and rs: "rs = rs0 @ [r]"
    using snoc.prems run by (auto simp: auth_run_snoc call split: prod.splits)
  note IH = snoc.IH [OF run] and len = length_auth_run [OF run]
  have "\<exists>j. first_of_epoch (calls @ [call]) j i \<and> snd ((calls @ [call]) ! j) = Some k"
    if "i < Suc (length calls)" "rs ! i = Some k" for i k
  proof (cases "i = length calls")
    case True
    then have "r = Some k" using that len by (simp add: rs nth_append)
    then show ?thesis using True auth_inv_step [OF conjunct1 [OF IH] step] unfolding call by blast
  next
    case False
    then have i: "i < length calls" using that by simp
    then have "rs0 ! i = Some k" using that len by (simp add: rs nth_append)
    then obtain j where j: "first_of_epoch calls j i" "snd (calls ! j) = Some k" using i IH by blast
    then have "j < length calls" using i by (simp add: first_of_epoch_def)
    then show ?thesis using j i by (intro exI [of _ j]) (simp add: first_of_epoch_old nth_append)
  qed
  moreover have "auth_inv (calls @ [call]) c" using auth_inv_step [OF conjunct1 [OF IH] step] unfolding call by blast
  ultimately show ?case by (simp only: length_append_singleton) blast
qed

lemma auth_run_poisoned: "au_poisoned c \<Longrightarrow> auth_run calls c = (replicate (length calls) None, c)"
  by (induction calls) (simp_all add: check_auth_def split: prod.split)

lemma auth_run_None:
  "auth_run calls c = (rs, c') \<Longrightarrow> rs ! i = None \<Longrightarrow> i \<le> m \<Longrightarrow> m < length calls \<Longrightarrow> rs ! m = None"
proof (induction calls arbitrary: c rs i m)
  case (Cons call calls)
  obtain e x where call: "call = (e, x)" by (cases call) simp
  obtain r c1 rs1 where step: "check_auth (e, x) c = (r, c1)" and run: "auth_run calls c1 = (rs1, c')" and rs: "rs = r # rs1"
    using Cons.prems(1) by (auto simp: call split: prod.splits)
  show ?case
  proof (cases i)
    case 0
    from step have "au_poisoned c1" by (rule check_auth_cases) (use Cons.prems(2) 0 rs in simp_all)
    then have "rs1 = replicate (length calls) None" using run auth_run_poisoned by fastforce
    then show ?thesis using Cons.prems 0 by (cases m) (simp_all add: rs)
  next
    case (Suc n)
    then show ?thesis using Cons.IH [OF run, of n "m - 1"] Cons.prems by (cases m) (simp_all add: rs)
  qed
qed simp

text \<open>The key exchanged for the call \<open>i\<close>: by the first of the calls in a row at its epoch.\<close>

definition key_of_call :: "'k auth_call list \<Rightarrow> nat \<Rightarrow> 'k \<Rightarrow> bool" where
  "key_of_call calls i k \<longleftrightarrow> (\<exists>j. first_of_epoch calls j i \<and> snd (calls ! j) = Some k)"

lemma auth_run_key: "auth_run calls auth_new = (rs, c) \<Longrightarrow> i < length calls \<Longrightarrow> rs ! i = Some k \<Longrightarrow> key_of_call calls i k"
  using auth_run_inv unfolding key_of_call_def by blast

lemma auth_run_next:
  assumes "auth_run calls c0 = (rs, c)" and "check_auth call c = (r, c')"
  shows "auth_run (calls @ [call]) c0 = (rs @ [r], c')"
  using assms by (simp add: auth_run_snoc)

text \<open>The call \<open>check_auth\<close> after a run returns the key of its epoch.\<close>

lemma check_auth_key:
  assumes "auth_run calls auth_new = (rs, c)" and "check_auth call c = (Some k, c')"
  shows "key_of_call (calls @ [call]) (length calls) k"
  using auth_run_key [OF auth_run_next [OF assms], of "length calls" k] length_auth_run [OF assms(1)] by (simp add: nth_append)

lemma key_of_call_old: "i < length calls \<Longrightarrow> key_of_call (calls @ [call]) i k \<longleftrightarrow> key_of_call calls i k"
proof -
  assume i: "i < length calls"
  then have "first_of_epoch (calls @ [call]) j i \<and> snd ((calls @ [call]) ! j) = Some k \<longleftrightarrow> first_of_epoch calls j i \<and> snd (calls ! j) = Some k" for j
    by (cases "j \<le> i") (simp_all add: first_of_epoch_old nth_append, simp add: first_of_epoch_def)
  then show ?thesis by (simp add: key_of_call_def)
qed

text \<open>The two keys of a subscription agree when the connection does not change between the two calls.\<close>

lemma check_auth_again:
  assumes "check_auth (e, x) c = (Some k, c')"
  shows "check_auth (e, y) c' = (Some k, c')"
  using assms by (rule check_auth_cases) (simp_all add: check_auth_def Let_def)

lemma subscribe_topic_Ok:
  assumes "fst (subscribe_topic raw_subscribe call1 call2 topic c) = Ok sub"
  obtains k c1 where "check_auth call1 c = (Some k, c1)" and "check_auth call2 c1 = (Some (ps_formatter_key sub), snd (check_auth call2 c1))"
    and "ps_request_key sub = k" and "ps_topic sub = topic"
proof -
  obtain k c1 where 1: "check_auth call1 c = (Some k, c1)" and 2: "fst (client_subscribe raw_subscribe call2 topic k c1) = Ok sub"
    using assms unfolding subscribe_topic_def by (cases "check_auth call1 c"; cases "fst (check_auth call1 c)") simp_all
  from 2 that [OF 1] show thesis
    unfolding client_subscribe_def by (cases "check_auth call2 c1"; cases "fst (check_auth call2 c1)") (auto split: sum.splits)
qed

lemma subscribe_keys_agree:
  assumes "fst (subscribe_topic raw_subscribe call1 call2 topic c) = Ok sub" and "fst call1 = fst call2"
  shows "ps_request_key sub = ps_formatter_key sub"
  using assms(1)
proof (rule subscribe_topic_Ok)
  fix k c1 assume "check_auth call1 c = (Some k, c1)" "check_auth call2 c1 = (Some (ps_formatter_key sub), snd (check_auth call2 c1))"
    "ps_request_key sub = k"
  then show ?thesis using check_auth_again [of "fst call1" "snd call1" c k c1 "snd call2"] assms(2)
    by (cases call1; cases call2) simp
qed

text \<open>C39: The keys of a client, after any calls.  A call of \<open>check_auth\<close> that returns a key returns the one exchanged by the first
  of the calls in a row made at its epoch, so that the calls on one connection share a key and a new connection makes a new
  exchange; once an exchange failed, every later call fails.  A call of the service is made under the key of the epoch at which it asks.  A subscription
  sends the key of the epoch of its first \<open>check_auth\<close> and opens the messages with the key of the epoch of its second one: they
  agree if the connection did not change in between.\<close>

theorem auth_key_of_connection:
  assumes run: "auth_run calls auth_new = (rs, c)"
  shows "(i < length calls \<and> rs ! i = Some k \<longrightarrow> key_of_call calls i k) \<and>
    (rs ! i = None \<and> i \<le> m \<and> m < length calls \<longrightarrow> rs ! m = None) \<and>
    (fst (client_rpc enc_rpc call method c) \<noteq> Panic \<longrightarrow>
       (\<exists>k. key_of_call (calls @ [call]) (length calls) k \<and>
          fst (client_rpc enc_rpc call method c) = (case enc_rpc k method of Inl err \<Rightarrow> Err err | Inr v \<Rightarrow> Ok v))) \<and>
    (fst (subscribe_topic raw_subscribe call call' topic c) = Ok sub \<longrightarrow>
       key_of_call (calls @ [call, call']) (length calls) (ps_request_key sub) \<and>
       key_of_call (calls @ [call, call']) (Suc (length calls)) (ps_formatter_key sub) \<and>
       (fst call = fst call' \<longrightarrow> ps_request_key sub = ps_formatter_key sub) \<and> ps_topic sub = topic) \<and>
    snd (auth_run (calls @ [call]) auth_new) = snd (client_rpc enc_rpc call method c) \<and>
    snd (auth_run (calls @ [call, call']) auth_new) = snd (subscribe_topic raw_subscribe call call' topic c)"
proof (intro conjI impI)
  show "key_of_call calls i k" if "i < length calls \<and> rs ! i = Some k" using auth_run_key [OF run] that by blast
  show "rs ! m = None" if "rs ! i = None \<and> i \<le> m \<and> m < length calls" using auth_run_None [OF run] that by blast
next
  assume "fst (client_rpc enc_rpc call method c) \<noteq> Panic"
  then obtain k c' where auth: "check_auth call c = (Some k, c')"
    by (cases "check_auth call c"; cases "fst (check_auth call c)") (simp_all add: client_rpc_def)
  then show "\<exists>k. key_of_call (calls @ [call]) (length calls) k \<and>
      fst (client_rpc enc_rpc call method c) = (case enc_rpc k method of Inl err \<Rightarrow> Err err | Inr v \<Rightarrow> Ok v)"
    using check_auth_key [OF run auth] by (auto simp: client_rpc_def)
next
  assume sub: "fst (subscribe_topic raw_subscribe call call' topic c) = Ok sub"
  then obtain c1 where 1: "check_auth call c = (Some (ps_request_key sub), c1)"
    and 2: "check_auth call' c1 = (Some (ps_formatter_key sub), snd (check_auth call' c1))" and topic: "ps_topic sub = topic"
    by (rule subscribe_topic_Ok) blast
  from check_auth_key [OF run 1] show "key_of_call (calls @ [call, call']) (length calls) (ps_request_key sub)"
    using key_of_call_old [of "length calls" "calls @ [call]" call'] by simp
  from check_auth_key [OF auth_run_next [OF run 1] 2]
  show "key_of_call (calls @ [call, call']) (Suc (length calls)) (ps_formatter_key sub)" by simp
  show "ps_topic sub = topic" by (rule topic)
  show "ps_request_key sub = ps_formatter_key sub" if "fst call = fst call'" by (rule subscribe_keys_agree [OF sub that])
next
  show "snd (auth_run (calls @ [call]) auth_new) = snd (client_rpc enc_rpc call method c)"
    using run by (cases "check_auth call c") (auto simp: client_rpc_def auth_run_snoc split: option.splits)
  obtain r c1 where 1: "check_auth call c = (r, c1)" by fastforce
  note next_run = auth_run_next [OF run 1]
  show "snd (auth_run (calls @ [call, call']) auth_new) = snd (subscribe_topic raw_subscribe call call' topic c)"
  proof (cases r)
    case None
    from 1 have "au_poisoned c1" by (cases call; simp; elim check_auth_cases) (simp_all add: None)
    then show ?thesis using next_run 1 None auth_run_snoc [of "calls @ [call]" call' auth_new]
      by (simp add: subscribe_topic_def check_auth_def)
  next
    case (Some k)
    then show ?thesis using next_run 1 auth_run_snoc [of "calls @ [call]" call' auth_new]
      by (cases "check_auth call' c1") (auto simp: subscribe_topic_def client_subscribe_def split: option.splits)
  qed
qed

text \<open>Two calls on the first connection share the key 10; after a reconnection a subscription exchanges the key 30 and uses it for
  both directions.\<close>

theorem auth_key_of_connection_witness:
  "\<exists>sub c'. subscribe_topic (\<lambda>_ _. Inr () :: string + unit) (Suc 0, Some 30) (Suc 0, Some 40) NewTx
       (snd (auth_run [(0, Some 10), (0, Some (20 :: nat))] auth_new)) = (Ok sub, c') \<and>
     key_of_call [(0, Some 10), (0, Some 20), (Suc 0, Some 30), (Suc 0, Some 40)] 3 (ps_formatter_key sub) \<and>
     ps_request_key sub = ps_formatter_key sub \<and> ps_request_key sub = 30"
proof -
  let ?calls = "[(0, Some 10), (0, Some 20)] :: nat auth_call list"
  let ?c = "\<lparr>au_epoch = 0, au_key = Some 10, au_poisoned = False\<rparr> :: nat auth_state"
  let ?sub = "\<lparr>ps_topic = NewTx, ps_request_key = 30, ps_formatter_key = 30\<rparr> :: nat pool_subscription"
  have run: "auth_run ?calls auth_new = ([Some 10, Some 10], ?c)" by (simp add: check_auth_def auth_new_def)
  have sub: "subscribe_topic (\<lambda>_ _. Inr () :: string + unit) (Suc 0, Some 30) (Suc 0, Some 40) NewTx ?c =
      (Ok ?sub, \<lparr>au_epoch = 1, au_key = Some 30, au_poisoned = False\<rparr>)"
    by (simp add: subscribe_topic_def client_subscribe_def check_auth_def)
  note keys = auth_key_of_connection [OF run, where raw_subscribe = "\<lambda>_ _. Inr () :: string + unit" and call = "(Suc 0, Some 30)"
      and call' = "(Suc 0, Some 40)" and topic = NewTx and sub = ?sub, unfolded sub fst_conv]
  have "key_of_call [(0, Some 10), (0, Some 20), (Suc 0, Some 30), (Suc 0, Some 40)] 3 (ps_formatter_key ?sub)"
    using keys [THEN conjunct2, THEN conjunct2, THEN conjunct2, THEN conjunct1] by (simp add: numeral_3_eq_3)
  then show ?thesis using sub run by simp
qed

section \<open>Subscriptions and the first transactions\<close>

text \<open>A reconnection between them leaves a subscription whose messages are sealed under the old key and opened with the new one.\<close>

theorem subscribe_keys_race:
  "\<exists>sub c'. subscribe_bundle (\<lambda>_ _. Inr ()) (0, Some 10) (1, Some (20 :: nat)) auth_new = (Ok sub, c') \<and>
     ps_request_key sub = 10 \<and> ps_formatter_key sub = 20"
  by (simp add: subscribe_bundle_def subscribe_topic_def client_subscribe_def check_auth_def auth_new_def)

text \<open>The transactions the service already has are passed on without a trace in the hash pool, so that one of them which the
  subscription delivers again is passed on again.\<close>

theorem ptx_start_sends:
  "mempool_ptx_start receiver txs f = f\<lparr>fe_sent := fe_sent f @ (if receiver then map SeqItem txs else [])\<rparr>"
  by (induction receiver txs f rule: mempool_ptx_start.induct) simp_all

theorem ptx_twice:
  assumes "lawful_lru L cap keys" and "from_rlp bytes = Inr tx" and "ptx_hash tx \<notin> keys (fe_pool f)"
  shows "fe_sent (snd (mempool_ptx_round L from_rlp now True (Inr bytes) (mempool_ptx_start True [tx] f))) = fe_sent f @ [SeqItem tx, SeqItem tx]"
  using assms by (simp add: mempool_ptx_round_def forward_tx_def first_seen_def lawful_lruD(2) [OF assms(1)])

end
