(* ===== verification/Fetch_Once.thy ===== *)
theory Fetch_Once
  imports Mempool_Client
begin

text \<open>
  The fetchers of all kinds of endpoints together: the threads of \<open>WithHash\<close>, \<open>WithBody\<close> and \<open>SelfHosted\<close>
  (\<open>src/common/eth_client/src/tx_fetcher.rs\<close>) and those of \<open>WithMempool\<close> (\<open>src/common/mempool/src/ext.rs\<close>) share one hash pool
  and one channel.  Their rounds interleave in any order; the log of what they received says what they pass on.
\<close>

section \<open>What is received and what is passed on\<close>

text \<open>An item of a subscription, and a transaction a mempool service already had when its fetcher started.\<close>

datatype 'tx fetch_event = Received "'tx mempool_item" | Initial "'tx pool_tx"

definition item_hash :: "'tx bundle_api \<Rightarrow> 'tx mempool_item \<Rightarrow> h256" where
  "item_hash B item = (case item of SeqItem tx \<Rightarrow> ptx_hash tx | PriceItem tx \<Rightarrow> ptx_hash tx | BundleItem b \<Rightarrow> bundle_hash B b)"

fun received_hashes :: "'tx bundle_api \<Rightarrow> 'tx fetch_event list \<Rightarrow> h256 set" where
  "received_hashes B [] = {}"
| "received_hashes B (Received item # events) = insert (item_hash B item) (received_hashes B events)"
| "received_hashes B (Initial tx # events) = received_hashes B events"

text \<open>The specification: an item is passed on if no item of its hash was received before, an initial transaction always.\<close>

fun passed_on :: "'tx bundle_api \<Rightarrow> h256 set \<Rightarrow> 'tx fetch_event list \<Rightarrow> 'tx mempool_item list" where
  "passed_on B seen [] = []"
| "passed_on B seen (Received item # events) =
     (if item_hash B item \<in> seen then passed_on B seen events
      else item # passed_on B (insert (item_hash B item) seen) events)"
| "passed_on B seen (Initial tx # events) = SeqItem tx # passed_on B seen events"

fun initial_txs :: "'tx fetch_event list \<Rightarrow> 'tx pool_tx list" where
  "initial_txs [] = []"
| "initial_txs (Received item # events) = initial_txs events"
| "initial_txs (Initial tx # events) = tx # initial_txs events"

lemma received_hashes_append [simp]: "received_hashes B (es @ es') = received_hashes B es \<union> received_hashes B es'"
  by (induction B es rule: received_hashes.induct) auto

lemma finite_received_hashes [simp]: "finite (received_hashes B es)"
  by (induction B es rule: received_hashes.induct) auto

lemma received_hashes_initial [simp]: "received_hashes B (map Initial txs) = {}"
  by (induction txs) simp_all

lemma passed_on_append: "passed_on B seen (es @ es') = passed_on B seen es @ passed_on B (seen \<union> received_hashes B es) es'"
  by (induction B seen es rule: passed_on.induct) (simp_all add: insert_absorb)

lemma passed_on_initial: "passed_on B seen (map Initial txs) = map SeqItem txs"
  by (induction txs) simp_all

text \<open>So every hash received is passed on once, beside the initial transactions.\<close>

lemma passed_on_count:
  "length (filter (\<lambda>item. item_hash B item = h) (passed_on B seen es)) =
     (if h \<in> received_hashes B es - seen then 1 else 0) + length (filter (\<lambda>tx. ptx_hash tx = h) (initial_txs es))"
proof (induction B seen es rule: passed_on.induct)
  case (3 B seen tx events)
  then show ?case by (simp add: item_hash_def)
qed auto

section \<open>The threads together\<close>

text \<open>The decoders of the messages: of a body, a pool transaction, a bundle and a private transaction.\<close>

record ('raw, 'b, 'p, 'tx) decoders =
  dc_parse :: "'raw \<Rightarrow> 'tx option"
  dc_pool_tx :: "u8 list \<Rightarrow> string + 'tx pool_tx"
  dc_bundle :: "'b \<Rightarrow> string + 'tx eth_bundle"
  dc_private :: "'p \<Rightarrow> string + 'tx pool_tx"

definition body_event :: "'tx tx_codec \<Rightarrow> string + 'tx option \<Rightarrow> 'tx fetch_event list" where
  "body_event C msg = (case msg of Inr (Some tx) \<Rightarrow> [Received (PriceItem (with_tx C tx))] | _ \<Rightarrow> [])"

definition decoded_event :: "('a \<Rightarrow> 'tx mempool_item) \<Rightarrow> ('r \<Rightarrow> string + 'a) \<Rightarrow> string + 'r \<Rightarrow> 'tx fetch_event list" where
  "decoded_event item decode msg =
     (case msg of Inl _ \<Rightarrow> [] | Inr bytes \<Rightarrow> (case decode bytes of Inl _ \<Rightarrow> [] | Inr a \<Rightarrow> [Received (item a)]))"

text \<open>The rounds of any number of endpoints while the receiver is there, in any order, and the accesses of the other threads to the
  hash pool; the events are logged in their order.\<close>

inductive fetch_reach ::
  "('m, 't) lru_api \<Rightarrow> 'tx tx_api \<Rightarrow> 'tx tx_codec \<Rightarrow> 'tx bundle_api \<Rightarrow> ('raw, 'b, 'p, 'tx) decoders \<Rightarrow> nat
     \<Rightarrow> 'tx fetch_event list \<Rightarrow> ('m, 'tx) fetcher \<Rightarrow> bool"
  for L A C B D cap where
  start: "fetch_reach L A C B D cap [] \<lparr>fe_pool = hash_pool_new L cap, fe_sent = [], fe_count = 0, fe_requests = []\<rparr>"
| hash_msg: "fetch_reach L A C B D cap es f \<Longrightarrow> fetch_reach L A C B D cap es (snd (with_hash_round L msg f))"
| hash_body: "fetch_reach L A C B D cap es f \<Longrightarrow>
    fetch_reach L A C B D cap (es @ body_event C (map_sum id (\<lambda>answer. Option.bind answer (dc_parse D)) msg))
      (snd (hash_body_round L A C (dc_parse D) now True msg f))"
| body_msg: "fetch_reach L A C B D cap es f \<Longrightarrow>
    fetch_reach L A C B D cap (es @ body_event C msg) (snd (with_body_round L A C now True msg f))"
| hosted_msg: "fetch_reach L A C B D cap es f \<Longrightarrow>
    fetch_reach L A C B D cap (es @ decoded_event PriceItem (dc_pool_tx D) msg) (snd (self_hosted_round L (dc_pool_tx D) now True msg f))"
| bundle_msg: "fetch_reach L A C B D cap es f \<Longrightarrow>
    fetch_reach L A C B D cap (es @ decoded_event BundleItem (dc_bundle D) msg) (snd (mempool_bundle_round L (dc_bundle D) B now True msg f))"
| private_start: "fetch_reach L A C B D cap es f \<Longrightarrow>
    fetch_reach L A C B D cap (es @ map Initial txs) (mempool_ptx_start True txs f)"
| private_msg: "fetch_reach L A C B D cap es f \<Longrightarrow>
    fetch_reach L A C B D cap (es @ decoded_event SeqItem (dc_private D) msg) (snd (mempool_ptx_round L (dc_private D) now True msg f))"
| traced: "fetch_reach L A C B D cap es f \<Longrightarrow> fetch_reach L A C B D cap es (f\<lparr>fe_pool := simulated L now hash (fe_pool f)\<rparr>)"
| looked_up: "fetch_reach L A C B D cap es f \<Longrightarrow> fetch_reach L A C B D cap es (f\<lparr>fe_pool := snd (hash_get L hash (fe_pool f))\<rparr>)"

definition fetch_inv :: "'tx bundle_api \<Rightarrow> ('m \<Rightarrow> h256 set) \<Rightarrow> 'tx fetch_event list \<Rightarrow> ('m, 'tx) fetcher \<Rightarrow> bool" where
  "fetch_inv B keys es f \<longleftrightarrow>
     keys (fe_pool f) = received_hashes B es \<and> fe_sent f = passed_on B {} es \<and> fe_count f = card (received_hashes B es)"

lemma forward_tx_inv:
  assumes L: "lawful_lru L cap keys" and inv: "fetch_inv B keys es f" and room: "card (insert hash (received_hashes B es)) \<le> cap"
    and hash: "item_hash B item = hash"
  shows "fetch_inv B keys (es @ [Received item]) (snd (forward_tx L now True hash item f))"
proof -
  have "keys (lru_insert L hash v (fe_pool f)) = insert hash (received_hashes B es)" for v
    using lawful_lruD(5) [OF L, of "fe_pool f" hash v] inv room by (simp add: fetch_inv_def)
  then show ?thesis
    using inv hash by (auto simp: forward_tx_def first_seen_def fetch_inv_def lawful_lruD(2) [OF L] Let_def passed_on_append insert_absorb)
qed

lemma with_body_inv:
  assumes L: "lawful_lru L cap keys" and C: "\<And>tx. ptx_hash (with_tx C tx) = tx_hash A tx" and inv: "fetch_inv B keys es f"
    and room: "card (received_hashes B (es @ body_event C msg)) \<le> cap"
  shows "fetch_inv B keys (es @ body_event C msg) (snd (with_body_round L A C now True msg f))"
proof (cases "\<exists>tx. msg = Inr (Some tx)")
  case True
  then obtain tx where m: "msg = Inr (Some tx)" by blast
  have h: "item_hash B (PriceItem (with_tx C tx)) = tx_hash A tx" by (simp add: item_hash_def C)
  from forward_tx_inv [OF L inv _ h] room show ?thesis by (simp add: m body_event_def with_body_round_def h)
next
  case False
  then show ?thesis using inv by (auto simp: body_event_def with_body_round_def split: sum.splits option.splits)
qed

text \<open>The other subscriptions decode a message and forward the item under its hash.\<close>

lemma decoded_inv:
  assumes L: "lawful_lru L cap keys" and inv: "fetch_inv B keys es f"
    and room: "card (received_hashes B (es @ decoded_event item decode msg)) \<le> cap"
    and skip: "\<And>err. msg = Inl err \<Longrightarrow> f' = f" "\<And>bytes err. msg = Inr bytes \<Longrightarrow> decode bytes = Inl err \<Longrightarrow> f' = f"
    and fwd: "\<And>bytes a. msg = Inr bytes \<Longrightarrow> decode bytes = Inr a \<Longrightarrow> f' = snd (forward_tx L now True (item_hash B (item a)) (item a) f)"
  shows "fetch_inv B keys (es @ decoded_event item decode msg) f'"
proof (cases "\<exists>bytes a. msg = Inr bytes \<and> decode bytes = Inr a")
  case True
  then obtain bytes a where m: "msg = Inr bytes" "decode bytes = Inr a" by blast
  from forward_tx_inv [OF L inv _ refl, of "item a" now] room fwd [OF m] show ?thesis by (simp add: m decoded_event_def)
next
  case False
  then show ?thesis using inv skip by (auto simp: decoded_event_def split: sum.splits)
qed

lemma room_before: "card (received_hashes B (es @ es')) \<le> cap \<Longrightarrow> card (received_hashes B es) \<le> cap"
  by (erule order_trans [rotated]) (auto intro!: card_mono)

lemma fetch_reach_inv:
  assumes L: "lawful_lru L cap keys" and C: "\<And>tx. ptx_hash (with_tx C tx) = tx_hash A tx"
  shows "fetch_reach L A C B D cap es f \<Longrightarrow> card (received_hashes B es) \<le> cap \<Longrightarrow> fetch_inv B keys es f"
proof (induction rule: fetch_reach.induct)
  case start
  then show ?case by (simp add: fetch_inv_def hash_pool_new_def lawful_lruD(1) [OF L])
next
  case (hash_msg es f msg)
  then show ?case by (auto simp: with_hash_round_def fetch_inv_def split: sum.splits)
next
  case (hash_body es f msg now)
  have "hash_body_round L A C (dc_parse D) now True msg f =
      with_body_round L A C now True (map_sum id (\<lambda>answer. Option.bind answer (dc_parse D)) msg) f"
    by (cases msg) (simp_all add: hash_body_round_def)
  with with_body_inv [OF L C hash_body.IH [OF room_before [OF hash_body.prems]] hash_body.prems] show ?case by simp
next
  case (body_msg es f msg now)
  show ?case by (rule with_body_inv [OF L C body_msg.IH [OF room_before [OF body_msg.prems]] body_msg.prems])
next
  case (hosted_msg es f msg now)
  show ?case by (rule decoded_inv [OF L hosted_msg.IH [OF room_before [OF hosted_msg.prems]] hosted_msg.prems])
    (simp_all add: self_hosted_round_def item_hash_def)
next
  case (bundle_msg es f msg now)
  show ?case by (rule decoded_inv [OF L bundle_msg.IH [OF room_before [OF bundle_msg.prems]] bundle_msg.prems])
    (simp_all add: mempool_bundle_round_def item_hash_def)
next
  case (private_start es f txs)
  then show ?case by (simp add: ptx_start_sends fetch_inv_def passed_on_append passed_on_initial)
next
  case (private_msg es f msg now)
  show ?case by (rule decoded_inv [OF L private_msg.IH [OF room_before [OF private_msg.prems]] private_msg.prems])
    (simp_all add: mempool_ptx_round_def item_hash_def)
next
  case (traced es f now hash)
  then show ?case by (simp add: fetch_inv_def simulated_def lawful_lruD(4) [OF L])
next
  case (looked_up es f hash)
  then show ?case by (simp add: fetch_inv_def hash_get_def lawful_lruD(3) [OF L])
qed

text \<open>C38: As long as the hash pool has room for the hashes received, the fetchers of all kinds of endpoints together pass on exactly
  the first item of every hash their subscriptions deliver, in the order of arrival, and beside these the transactions that a
  mempool service already had: so every hash received is passed on once and once more for every initial transaction that
  has it, which is the only way for it to come twice.  The counter counts the hashes received.\<close>

theorem fetch_exactly_once:
  assumes "lawful_lru L cap keys" and "\<And>tx. ptx_hash (with_tx C tx) = tx_hash A tx"
    and "fetch_reach L A C B D cap es f" and "card (received_hashes B es) \<le> cap"
  shows "fe_sent f = passed_on B {} es \<and>
    length (filter (\<lambda>item. item_hash B item = h) (fe_sent f)) =
      (if h \<in> received_hashes B es then 1 else 0) + length (filter (\<lambda>tx. ptx_hash tx = h) (initial_txs es)) \<and>
    fe_count f = card (received_hashes B es)"
  using fetch_reach_inv [OF assms] by (simp add: fetch_inv_def passed_on_count)

section \<open>A concrete map\<close>

text \<open>A map that never has to evict; two endpoints deliver the same transaction, which a mempool service already has.\<close>

definition demo_lru :: "((h256, nat hash_trace) btree_map, nat) lru_api" where
  "demo_lru =
     \<lparr>lru_new = (\<lambda>_. []), lru_contains_key = bt_contains_key, lru_get = (\<lambda>h m. (map_of m h, m)), lru_peek = (\<lambda>h m. map_of m h),
      lru_modify = bt_adjust, lru_insert = bt_insert\<rparr>"

lemma demo_lru_lawful: "lawful_lru demo_lru 100 (\<lambda>m. fst ` set m)"
proof -
  have "fst ` set (bt_adjust h f m) = fst ` set m" for h f and m :: "(h256, nat hash_trace) btree_map"
    using fst_bt_adjust [of h f m] by (metis list.set_map)
  then show ?thesis
    by (auto simp: lawful_lru_def demo_lru_def bt_contains_key_def fst_set_bt_insert map_of_eq_None_iff)
qed

definition demo_fetch_codec :: "demo_tx tx_codec" where
  "demo_fetch_codec = demo_codec\<lparr>with_tx := \<lambda>tx. demo_ptx 7 0 (d_hash tx) 5 1\<rparr>"

definition demo_decoders :: "(unit, unit, h256, demo_tx) decoders" where
  "demo_decoders =
     \<lparr>dc_parse = (\<lambda>_. None), dc_pool_tx = (\<lambda>_. Inl []), dc_bundle = (\<lambda>_. Inl []), dc_private = (\<lambda>h. Inr (demo_ptx 7 0 h 5 1))\<rparr>"

theorem fetch_exactly_once_witness:
  "\<exists>f. fetch_reach demo_lru demo_api demo_fetch_codec demo_bundle_api demo_decoders 100
       [Received (PriceItem (demo_ptx 7 0 11 5 1)), Received (SeqItem (demo_ptx 7 0 11 5 1)), Initial (demo_ptx 7 0 11 5 1)] f \<and>
     length (fe_sent f) = 2 \<and> fe_count f = 1"
proof -
  let ?tx = "demo_ptx 7 0 11 5 1"
  let ?es = "[Received (PriceItem ?tx), Received (SeqItem ?tx), Initial ?tx]"
  let ?reach = "fetch_reach demo_lru demo_api demo_fetch_codec demo_bundle_api demo_decoders 100"
  have C: "ptx_hash (with_tx demo_fetch_codec tx) = tx_hash demo_api tx" for tx by (simp add: demo_fetch_codec_def demo_ptx_def)
  have body: "body_event demo_fetch_codec (Inr (Some (ptx_tx ?tx))) = [Received (PriceItem ?tx)]"
    by (simp add: body_event_def demo_fetch_codec_def demo_ptx_def)
  have priv: "decoded_event SeqItem (dc_private demo_decoders) (Inr 11) = [Received (SeqItem ?tx)]"
    by (simp add: decoded_event_def demo_decoders_def)
  obtain f1 where "?reach [Received (PriceItem ?tx)] f1"
    using fetch_reach.body_msg [OF fetch_reach.start, where msg = "Inr (Some (ptx_tx ?tx))" and C = demo_fetch_codec] unfolding body by fastforce
  then obtain f2 where "?reach [Received (PriceItem ?tx), Received (SeqItem ?tx)] f2"
    using fetch_reach.private_msg [where msg = "Inr 11" and D = demo_decoders] unfolding priv by fastforce
  then obtain f where f: "?reach ?es f"
    using fetch_reach.private_start [where txs = "[?tx]"] by fastforce
  have "card (received_hashes demo_bundle_api ?es) \<le> 100" by (simp add: item_hash_def)
  from fetch_exactly_once [OF demo_lru_lawful C f this]
  have "length (fe_sent f) = 2 \<and> fe_count f = 1" by (simp add: item_hash_def)
  then show ?thesis using f by blast
qed

end
