(* ===== verification/State_Proxy.thy ===== *)
theory State_Proxy
  imports Executor Bytes
begin

text \<open>
  The state as the EVM sees it: \<open>src/common/evm_executor/src/state_proxy.rs\<close>, the \<open>Backend\<close> that the executor gives to the crate
  \<open>evm\<close>.

  The methods of \<open>StateDB\<close> that only the proxy calls are the record \<open>state_reads\<close>.  They run behind a \<open>RefCell\<close>, so a method of
  the proxy is a function of the state that returns the state afterwards; an error of the database panics (\<open>unwrap\<close>).  The
  chain identifier is a field of the context that only the proxy reads.
\<close>

record ('s, 'e) state_reads =
  srd_account_basic :: "h160 \<Rightarrow> 's \<Rightarrow> ('e + u256 \<times> u64) \<times> 's"
  srd_get_code :: "h160 \<Rightarrow> 's \<Rightarrow> ('e + u8 list) \<times> 's"
  srd_exist :: "h160 \<Rightarrow> 's \<Rightarrow> ('e + bool) \<times> 's"
  srd_get_state :: "h160 \<Rightarrow> h256 \<Rightarrow> 's \<Rightarrow> ('e + h256) \<times> 's"
  srd_block_hash :: "u64 \<Rightarrow> 's \<Rightarrow> 'e + h256"

record ('tx, 's) state_proxy =
  sp_ctx :: "'tx exec_context"
  sp_chain_id :: u256
  sp_state :: 's

type_synonym ('tx, 's, 'a) proxy = "('tx, 's) state_proxy \<Rightarrow> 'a option \<times> ('tx, 's) state_proxy"

text \<open>A call of the database with \<open>unwrap\<close>; \<open>None\<close> is the panic.\<close>

definition on_proxy :: "('s \<Rightarrow> ('e + 'a) \<times> 's) \<Rightarrow> ('tx, 's, 'a) proxy" where
  "on_proxy f p =
     (case f (sp_state p) of
        (Inl _, s) \<Rightarrow> (None, p\<lparr>sp_state := s\<rparr>)
      | (Inr v, s) \<Rightarrow> (Some v, p\<lparr>sp_state := s\<rparr>))"

definition proxy_new :: "'s \<Rightarrow> 'tx exec_context \<Rightarrow> u256 \<Rightarrow> ('tx, 's) state_proxy" where
  "proxy_new state ctx chain_id = \<lparr>sp_ctx = ctx, sp_chain_id = chain_id, sp_state = state\<rparr>"

section \<open>The block\<close>

definition block_base_fee_per_gas :: "('tx, 's) state_proxy \<Rightarrow> u256" where
  "block_base_fee_per_gas p = h_base_fee_per_gas (cx_header (sp_ctx p))"

definition block_coinbase :: "('tx, 's) state_proxy \<Rightarrow> h160" where
  "block_coinbase p = h_miner (cx_header (sp_ctx p))"

text \<open>After the merge the difficulty is the random value of the header, as a number.\<close>

definition block_difficulty :: "('tx, 's) state_proxy \<Rightarrow> u256" where
  "block_difficulty p = h_mix_hash (cx_header (sp_ctx p))"

definition block_gas_limit :: "('tx, 's) state_proxy \<Rightarrow> u256" where
  "block_gas_limit p = ucast (h_gas_limit (cx_header (sp_ctx p)))"

definition block_number :: "('tx, 's) state_proxy \<Rightarrow> u256" where
  "block_number p = ucast (h_number (cx_header (sp_ctx p)))"

definition block_timestamp :: "('tx, 's) state_proxy \<Rightarrow> u256" where
  "block_timestamp p = ucast (h_timestamp (cx_header (sp_ctx p)))"

definition proxy_chain_id :: "('tx, 's) state_proxy \<Rightarrow> u256" where
  "proxy_chain_id p = sp_chain_id p"

definition proxy_gas_price :: "'tx tx_api \<Rightarrow> ('tx, 's) state_proxy \<Rightarrow> u256" where
  "proxy_gas_price A p = tx_gas_price A (ptx_tx (cx_tx (sp_ctx p))) (Some (h_base_fee_per_gas (cx_header (sp_ctx p))))"

definition proxy_origin :: "('tx, 's) state_proxy \<Rightarrow> h160" where
  "proxy_origin p = cx_caller (sp_ctx p)"

text \<open>\<open>as_u64\<close> panics on a number of more than 64 bits, as \<open>as_usize\<close> does.\<close>

definition proxy_block_hash :: "('s, 'e) state_reads \<Rightarrow> u256 \<Rightarrow> ('tx, 's) state_proxy \<Rightarrow> h256 option" where
  "proxy_block_hash D n p =
     do {
       number \<leftarrow> as_usize n;
       let blk_num = h_number (cx_header (sp_ctx p));
       if number \<ge> blk_num \<or> number < sat_sub blk_num 256 then Some 0
       else case srd_block_hash D number (sp_state p) of Inl _ \<Rightarrow> None | Inr val \<Rightarrow> Some val
     }"

section \<open>The accounts\<close>

definition proxy_basic :: "('s, 'e) state_reads \<Rightarrow> h160 \<Rightarrow> ('tx, 's, u256 \<times> u256) proxy" where
  "proxy_basic D address p =
     (case on_proxy (srd_account_basic D address) p of
        (None, p) \<Rightarrow> (None, p)
      | (Some (balance, nonce), p) \<Rightarrow> (Some (balance, ucast nonce), p))"

definition proxy_code :: "('s, 'e) state_reads \<Rightarrow> h160 \<Rightarrow> ('tx, 's, u8 list) proxy" where
  "proxy_code D address = on_proxy (srd_get_code D address)"

definition proxy_exists :: "('s, 'e) state_reads \<Rightarrow> h160 \<Rightarrow> ('tx, 's, bool) proxy" where
  "proxy_exists D address = on_proxy (srd_exist D address)"

definition proxy_storage :: "('s, 'e) state_reads \<Rightarrow> h160 \<Rightarrow> h256 \<Rightarrow> ('tx, 's, h256) proxy" where
  "proxy_storage D address index = on_proxy (srd_get_state D address index)"

definition original_storage :: "('s, 'e) state_reads \<Rightarrow> h160 \<Rightarrow> h256 \<Rightarrow> ('tx, 's, h256 option) proxy" where
  "original_storage D address index p =
     (case on_proxy (srd_get_state D address index) p of
        (None, p) \<Rightarrow> (None, p)
      | (Some val, p) \<Rightarrow> (Some (if val = 0 then None else Some val), p))"

section \<open>The hash of a block\<close>

text \<open>\<open>block_hash\<close> implements the rule of the \<open>BLOCKHASH\<close> instruction: it asks the database exactly for the 256 blocks
  before the current one (all of them when there are fewer) and answers zero for every other block; a number of more than 64 bits and
  an error of the database panic, and nothing else does.\<close>

theorem block_hash_window:
  "proxy_block_hash D n p =
     (if unat n \<ge> 2 ^ 64 then None
      else if unat n < unat (h_number (cx_header (sp_ctx p))) \<and> unat (h_number (cx_header (sp_ctx p))) \<le> unat n + 256
      then (case srd_block_hash D (ucast n) (sp_state p) of Inl _ \<Rightarrow> None | Inr val \<Rightarrow> Some val)
      else Some 0)"
proof (cases "as_usize n")
  case None
  then have "unat n \<ge> 2 ^ 64" by (simp add: as_usize_def word_le_nat_alt split: if_splits)
  then show ?thesis using None by (simp add: proxy_block_hash_def)
next
  case (Some u)
  then have u: "unat u = unat n" by (simp add: as_usize_Some)
  have c: "u = ucast n" using Some by (simp add: as_usize_def split: if_splits)
  have "unat n < 2 ^ 64" using unat_u64_less [of u] u by simp
  moreover have "u < sat_sub b 256 \<longleftrightarrow> unat n + 256 < unat b" for b :: u64
    using u by (auto simp: word_less_nat_alt unat_sat_sub)
  ultimately show ?thesis using Some u by (auto simp: proxy_block_hash_def c word_le_nat_alt)
qed

section \<open>Consistency\<close>

text \<open>The EVM sees the gas price and the sender that the executor charges, and both storage methods read the same slot.\<close>

theorem proxy_agrees_with_executor:
  "proxy_gas_price A (proxy_new state ctx chain_id) = ex_gas_price (executor_new A ctx state) \<and>
   proxy_origin (proxy_new state ctx chain_id) = cx_caller (ex_ctx (executor_new A ctx state)) \<and>
   sp_state (proxy_new state ctx chain_id) = ex_state (executor_new A ctx state)"
  by (simp add: proxy_gas_price_def proxy_origin_def proxy_new_def executor_new_def)

theorem original_storage_zero:
  "original_storage D address index p =
     (map_option (\<lambda>val. if val = 0 then None else Some val) (fst (proxy_storage D address index p)), snd (proxy_storage D address index p))"
  by (auto simp: original_storage_def proxy_storage_def split: prod.splits option.splits)

end
