(* ===== verification/App_Var.thy ===== *)
theory App_Var
  imports Builder_Prelude
begin

text \<open>
  The lazily initialised components of the services: \<open>Var\<close> of \<open>src/apps/src/lib.rs\<close>.

  A \<open>Var\<close> is a mutex around an optional reference; references are the type variable \<open>'a\<close>, so that two generated components are the
  same only if they are the same reference.  \<open>get\<close> locks the mutex twice, once to look and once to store, and generates in
  between without it.  Run alone it is \<open>var_get\<close>; \<open>get_step\<close> is what a thread does in one critical section, and \<open>var_reach\<close> runs
  any number of threads in any order.
\<close>

section \<open>Operations\<close>

type_synonym 'a var = "'a option"

definition var_default :: "'a var" where
  "var_default = None"

definition var_set :: "'a \<Rightarrow> 'a var \<Rightarrow> 'a var" where
  "var_set t val = Some t"

text \<open>\<open>None\<close> is the panic of \<open>unwrap\<close>.\<close>

definition var_unwrap :: "'a var \<Rightarrow> 'a option" where
  "var_unwrap val = (case val of Some a \<Rightarrow> Some a | None \<Rightarrow> None)"

definition var_get :: "'a \<Rightarrow> 'a var \<Rightarrow> 'a \<times> 'a var" where
  "var_get generated val = (case val of Some a \<Rightarrow> (a, val) | None \<Rightarrow> (generated, Some generated))"

definition var_cloned :: "('a \<Rightarrow> 'b) \<Rightarrow> 'a \<Rightarrow> 'a var \<Rightarrow> 'b \<times> 'a var" where
  "var_cloned deref generated val = apfst deref (var_get generated val)"

section \<open>Threads\<close>

datatype 'a get_pc = Look | Generate | Store 'a | Returned 'a

fun get_step :: "'a \<Rightarrow> 'a var \<times> 'a get_pc \<Rightarrow> 'a var \<times> 'a get_pc" where
  "get_step generated (val, Look) = (case val of Some a \<Rightarrow> (val, Returned a) | None \<Rightarrow> (val, Generate))"
| "get_step generated (val, Generate) = (val, Store generated)"
| "get_step generated (val, Store a) = (Some a, Returned a)"
| "get_step generated (val, Returned a) = (val, Returned a)"

text \<open>The threads that are inside \<open>get\<close>, one moving at a time; \<open>G\<close> collects what was generated.\<close>

inductive var_reach :: "'a var \<Rightarrow> 'a get_pc list \<Rightarrow> 'a set \<Rightarrow> 'a var \<Rightarrow> 'a get_pc list \<Rightarrow> bool"
  for val0 ts0 where
  start: "var_reach val0 ts0 {} val0 ts0"
| step: "var_reach val0 ts0 G val ts \<Longrightarrow> i < length ts \<Longrightarrow> get_step generated (val, ts ! i) = (val', pc) \<Longrightarrow>
    var_reach val0 ts0 (if ts ! i = Generate then insert generated G else G) val' (ts[i := pc])"

inductive_cases var_reachE: "var_reach val0 ts0 G val ts"

lemma get_step_alone:
  "(get_step g ^^ 3) (val, Look) = (snd (var_get g val), Returned (fst (var_get g val)))"
  by (cases val) (simp_all add: numeral_3_eq_3 var_get_def)

text \<open>What the threads agree on: a value is held only if it was generated, and nothing is returned before something is stored.\<close>

fun pc_ok :: "'a set \<Rightarrow> 'a var \<Rightarrow> 'a get_pc \<Rightarrow> bool" where
  "pc_ok G val Look = True"
| "pc_ok G val Generate = True"
| "pc_ok G val (Store a) = (a \<in> G)"
| "pc_ok G val (Returned a) = (a \<in> G \<and> val \<noteq> None)"

definition var_inv :: "'a set \<Rightarrow> 'a var \<Rightarrow> 'a get_pc list \<Rightarrow> bool" where
  "var_inv G val ts \<longleftrightarrow> (\<forall>pc \<in> set ts. pc_ok G val pc) \<and> (\<forall>a. val = Some a \<longrightarrow> a \<in> G \<and> Returned a \<in> set ts)"

lemma pc_ok_mono: "pc_ok G val pc \<Longrightarrow> G \<subseteq> G' \<Longrightarrow> (val \<noteq> None \<Longrightarrow> val' \<noteq> None) \<Longrightarrow> pc_ok G' val' pc"
  by (cases pc) auto

lemma set_update_subset: "(\<And>x. x \<in> set xs \<Longrightarrow> P x) \<Longrightarrow> P y \<Longrightarrow> x \<in> set (xs[i := y]) \<Longrightarrow> P x"
  using set_update_subset_insert [of xs i y] by blast

lemma get_step_val: "get_step g (val, pc) = (val', pc') \<Longrightarrow> val \<noteq> None \<Longrightarrow> val' \<noteq> None"
  by (cases pc) (auto split: option.splits)

lemma var_inv_step:
  assumes inv: "var_inv G val ts" and i: "i < length ts" and step: "get_step g (val, ts ! i) = (val', pc')"
  shows "var_inv (if ts ! i = Generate then insert g G else G) val' (ts[i := pc'])"
proof -
  let ?G = "if ts ! i = Generate then insert g G else G"
  have at: "pc_ok G val (ts ! i)" using inv i by (simp add: var_inv_def)
  have new: "pc_ok ?G val' pc'"
  proof (cases "ts ! i")
    case Look
    then show ?thesis using step inv by (cases val) (auto simp: var_inv_def)
  next
    case (Returned a)
    then have "pc' = ts ! i" "val' = val" using step by auto
    then show ?thesis using at Returned by simp
  qed (use at step in auto)
  have old: "pc_ok ?G val' pc" if "pc \<in> set ts" for pc
  proof (rule pc_ok_mono)
    show "pc_ok G val pc" using that inv by (simp add: var_inv_def)
  qed (use get_step_val [OF step] in auto)
  have "a \<in> ?G \<and> Returned a \<in> set (ts[i := pc'])" if a: "val' = Some a" for a
  proof (cases "ts ! i")
    case (Store b)
    then show ?thesis using a step at i by (auto simp: set_update_memI)
  next
    case (Returned b)
    then have "ts[i := pc'] = ts" using step by (metis get_step.simps(4) list_update_id prod.inject)
    then show ?thesis using a step inv Returned by (auto simp: var_inv_def)
  next
    case Look
    then have "val = Some a" "pc' = Returned a" using a step by (auto split: option.splits)
    then show ?thesis using inv i Look by (auto simp: var_inv_def set_update_memI)
  next
    case Generate
    then have "val = Some a" using a step by simp
    then obtain m where "m < length ts" "ts ! m = Returned a" and "a \<in> G" using inv by (auto simp: var_inv_def in_set_conv_nth)
    moreover then have "m \<noteq> i" using Generate by auto
    ultimately show ?thesis by (auto simp: in_set_conv_nth intro!: exI [of _ m])
  qed
  then show ?thesis unfolding var_inv_def using old new set_update_subset [of ts "pc_ok ?G val'"] by blast
qed

lemma var_reach_inv: "var_reach val0 ts0 G val ts \<Longrightarrow> val0 = None \<Longrightarrow> set ts0 \<subseteq> {Look} \<Longrightarrow> var_inv G val ts"
proof (induction rule: var_reach.induct)
  case start
  then show ?case by (auto simp: var_inv_def)
next
  case (step G val ts i g val' pc)
  then show ?case by (intro var_inv_step) auto
qed

text \<open>
  Threads that race for an empty variable: each gets a component that one of them generated, the variable holds what one of them
  returned, and none returns while it is empty.
\<close>

theorem var_get_generated:
  assumes "var_reach None (replicate n Look) G val ts"
  shows "(\<forall>a. Returned a \<in> set ts \<longrightarrow> a \<in> G \<and> val \<noteq> None) \<and> (\<forall>a. val = Some a \<longrightarrow> Returned a \<in> set ts)"
proof -
  have inv: "var_inv G val ts" using var_reach_inv [OF assms] by (auto simp: set_replicate_conv_if)
  then have "pc_ok G val (Returned a)" if "Returned a \<in> set ts" for a using that unfolding var_inv_def by blast
  then show ?thesis using inv unfolding var_inv_def by simp
qed

text \<open>Once it is set, and no thread is still generating, the variable never changes, and everyone who asks gets the same component.\<close>

theorem var_get_stable:
  assumes "var_reach (Some a) (replicate n Look) G val ts"
  shows "val = Some a \<and> set ts \<subseteq> {Look, Returned a} \<and> G = {}"
  using assms
proof (induction rule: var_reach.induct)
  case (step G val ts i g val' pc)
  then have "ts ! i \<in> {Look, Returned a}" using nth_mem by blast
  then have "val' = Some a \<and> pc = Returned a \<and> ts ! i \<noteq> Generate" using step by auto
  then show ?case using step.IH set_update_subset_insert [of ts i pc] by auto
qed (auto simp: set_replicate_conv_if)

text \<open>Before that two threads can get different components: both look before either stores.\<close>

theorem var_get_race: "\<exists>G val. var_reach None [Look, Look] G val [Returned (1 :: nat), Returned 2]"
proof -
  have "var_reach None [Look, Look] {} None [Generate, Look :: nat get_pc]"
    using var_reach.step [OF var_reach.start, of 0 "[Look, Look]" "0 :: nat" None] by (simp add: numeral_2_eq_2)
  then have "var_reach None [Look, Look] {} None [Generate, Generate :: nat get_pc]"
    using var_reach.step [of None "[Look, Look]" "{}" None "[Generate, Look]" 1 "0 :: nat"] by simp
  then have "var_reach None [Look, Look] {1} None [Store (1 :: nat), Generate]"
    using var_reach.step [of None "[Look, Look]" "{}" None "[Generate, Generate]" 0 "1 :: nat"] by simp
  then have "var_reach None [Look, Look] {1} (Some 1) [Returned (1 :: nat), Generate]"
    using var_reach.step [of None "[Look, Look]" "{1}" None "[Store 1, Generate]" 0 "0 :: nat"] by simp
  then have "var_reach None [Look, Look] {2, 1} (Some 1) [Returned (1 :: nat), Store 2]"
    using var_reach.step [of None "[Look, Look]" "{1}" "Some 1" "[Returned 1, Generate]" 1 "2 :: nat"] by simp
  then have "var_reach None [Look, Look] {2, 1} (Some 2) [Returned (1 :: nat), Returned 2]"
    using var_reach.step [of None "[Look, Look]" "{2, 1}" "Some 1" "[Returned 1, Store 2]" 1 "0 :: nat"] by simp
  then show ?thesis by blast
qed

section \<open>Running alone\<close>

text \<open>Without a race \<open>get\<close> generates at most once, \<open>unwrap\<close> panics only before that, and \<open>set\<close> replaces the component.\<close>

theorem var_get_laws:
  "fst (var_get h (snd (var_get g val))) = fst (var_get g val) \<and> var_unwrap (snd (var_get g val)) = Some (fst (var_get g val)) \<and>
   fst (var_get g (var_set a val)) = a \<and> (var_unwrap val = None \<longleftrightarrow> val = var_default)"
  by (cases val) (simp_all add: var_get_def var_unwrap_def var_set_def var_default_def)

end
