(* ===== verification/App_Wiring.thy ===== *)
theory App_Wiring
  imports App_Var Node_Clients "HOL-Library.Sublist"
begin

text \<open>
  How the three services construct their components: the \<open>Getter\<close> implementations and the methods \<open>run\<close> of
  \<open>src/apps/block-builder/src\<close> (\<open>deps.rs\<close>, \<open>api.rs\<close>, \<open>build.rs\<close>, \<open>app.rs\<close>), \<open>src/apps/mempool/src\<close> and \<open>src/apps/pool-aggregator/src\<close>.

  Every component of a service is a \<open>Var\<close>; \<open>generate\<close> gets the components it needs, which generates them in turn.  The state is the
  list of the components that are set, in the order in which they were; \<open>deps\<close> gives what \<open>generate\<close> asks for, in its order, by
  \<open>get\<close> or by \<open>unwrap\<close>; \<open>ok\<close> says whether the rest of \<open>generate\<close> succeeds, where it unwraps what comes from outside (\<open>service_env\<close>):
  the configuration, the connections to the nodes and the listening server.  All of this
  runs on the thread of \<open>run\<close>: the closures of the other threads receive the components, so that the race of \<open>var_get_race\<close> does
  not arise.  Nothing in the code bounds the recursion; \<open>wire\<close> has fuel, and running out of it is a result of its own.
\<close>

section \<open>Construction\<close>

datatype 'c dep = Get 'c | Unwrap 'c

fun dep_component :: "'c dep \<Rightarrow> 'c" where
  "dep_component (Get c) = c"
| "dep_component (Unwrap c) = c"

datatype 'c wired = Wired "'c list" | WirePanic | Diverges

fun wire :: "('c \<Rightarrow> 'c dep list) \<Rightarrow> ('c \<Rightarrow> bool) \<Rightarrow> nat \<Rightarrow> 'c dep list \<Rightarrow> 'c list \<Rightarrow> 'c wired" where
  "wire deps ok fuel [] st = Wired st"
| "wire deps ok fuel (Unwrap c # ds) st = (if c \<in> set st then wire deps ok fuel ds st else WirePanic)"
| "wire deps ok 0 (Get c # ds) st = (if c \<in> set st then wire deps ok 0 ds st else Diverges)"
| "wire deps ok (Suc fuel) (Get c # ds) st =
     (if c \<in> set st then wire deps ok (Suc fuel) ds st
      else case wire deps ok fuel (deps c) st of
             Wired st' \<Rightarrow> if ok c then wire deps ok (Suc fuel) ds (st' @ [c]) else WirePanic
           | r \<Rightarrow> r)"

text \<open>Every component is set once and after the components it needs.\<close>

definition wired_ok :: "('c \<Rightarrow> 'c dep list) \<Rightarrow> 'c list \<Rightarrow> bool" where
  "wired_ok deps st \<longleftrightarrow> distinct st \<and> (\<forall>xs c ys. st = xs @ c # ys \<longrightarrow> dep_component ` set (deps c) \<subseteq> set xs)"

lemma wired_ok_snoc:
  assumes "wired_ok deps st" and "c \<notin> set st" and "dep_component ` set (deps c) \<subseteq> set st"
  shows "wired_ok deps (st @ [c])"
  unfolding wired_ok_def
proof (intro conjI allI impI)
  show "distinct (st @ [c])" using assms by (simp add: wired_ok_def)
  fix xs d ys
  assume eq: "st @ [c] = xs @ d # ys"
  show "dep_component ` set (deps d) \<subseteq> set xs"
  proof (cases ys rule: rev_cases)
    case Nil
    then show ?thesis using eq assms(3) by simp
  next
    case (snoc zs z)
    then have "st = xs @ d # zs" using eq by (metis append_Cons append_assoc append1_eq_conv)
    then show ?thesis using assms(1) by (simp add: wired_ok_def)
  qed
qed

text \<open>The contract of a service: what a component needs has a smaller rank.\<close>

locale service_wiring =
  fixes deps :: "'c \<Rightarrow> 'c dep list" and rank :: "'c \<Rightarrow> nat"
  assumes deps_rank: "d \<in> set (deps c) \<Longrightarrow> rank (dep_component d) < rank c"
begin

lemma no_self_dep: "dep_component d = c \<Longrightarrow> d \<notin> set (deps c)"
  using deps_rank [of d c] by auto

lemma wire_sound:
  "wire deps ok fuel ds st = Wired st' \<Longrightarrow> wired_ok deps st \<Longrightarrow>
     prefix st st' \<and> wired_ok deps st' \<and> dep_component ` set ds \<subseteq> set st' \<and>
     (\<forall>c \<in> set st' - set st. ok c \<and> (\<exists>d \<in> set ds. rank c \<le> rank (dep_component d)))"
proof (induction fuel arbitrary: ds st st')
  case 0
  then show ?case
  proof (induction ds arbitrary: st)
    case (Cons d ds)
    then have "dep_component d \<in> set st" "wire deps ok 0 ds st = Wired st'" by (cases d; auto split: if_splits)+
    with Cons.IH [of st] Cons.prems show ?case by (auto dest: set_mono_prefix)
  qed simp
next
  case (Suc fuel)
  from Suc.prems show ?case
  proof (induction ds arbitrary: st)
    case (Cons d ds)
    show ?case
    proof (cases "dep_component d \<in> set st")
      case True
      then have "wire deps ok (Suc fuel) ds st = Wired st'" using Cons.prems by (cases d) simp_all
      with Cons.IH [of st] Cons.prems True show ?thesis by (auto dest: set_mono_prefix)
    next
      case False
      then obtain c where d: "d = Get c" and c: "c \<notin> set st" using Cons.prems by (cases d) simp_all
      obtain st1 where 1: "wire deps ok fuel (deps c) st = Wired st1" and "ok c" and 2: "wire deps ok (Suc fuel) ds (st1 @ [c]) = Wired st'"
        using Cons.prems d c by (auto split: wired.splits if_splits)
      note s1 = Suc.IH [OF 1 Cons.prems(2)]
      have below: "rank x < rank c" if "x \<in> set st1 - set st" for x
        using s1 that deps_rank [of _ c] by (meson le_less_trans)
      then have "c \<notin> set st1" using c by auto
      then have "wired_ok deps (st1 @ [c])" using s1 by (intro wired_ok_snoc) auto
      note s2 = Cons.IH [OF 2 this]
      have "prefix st st'" using s1 s2 by (meson append_prefixD prefix_order.trans)
      moreover have "ok x \<and> (\<exists>e \<in> set (d # ds). rank x \<le> rank (dep_component e))" if x: "x \<in> set st' - set st" for x
      proof (cases "x \<in> set (st1 @ [c])")
        case True
        then show ?thesis using x s1 below \<open>ok c\<close> d by (auto intro: less_imp_le)
      next
        case False
        then show ?thesis using x s2 by auto
      qed
      moreover have "c \<in> set st'" using s2 by (auto dest: set_mono_prefix)
      ultimately show ?thesis using s2 d by auto
    qed
  qed simp
qed

lemma wire_ends: "\<forall>d \<in> set ds. rank (dep_component d) < fuel \<Longrightarrow> wire deps ok fuel ds st \<noteq> Diverges"
proof (induction fuel arbitrary: ds st)
  case (Suc fuel)
  from Suc.prems show ?case
  proof (induction ds arbitrary: st)
    case (Cons d ds)
    have "wire deps ok fuel (deps c) st \<noteq> Diverges" if "d = Get c" for c
      using Cons.prems that deps_rank [of _ c] by (intro Suc.IH) fastforce
    with Cons show ?case by (cases d) (auto split: wired.split)
  qed simp
qed (simp add: neq_Nil_conv split: wired.splits)

text \<open>A panic needs a cause: a component that cannot be generated, or an \<open>unwrap\<close> of one that is not set.\<close>

lemma wire_no_panic:
  "wired_ok deps st \<Longrightarrow> \<forall>c. ok c \<Longrightarrow> \<forall>c x. Unwrap x \<in> set (deps c) \<longrightarrow> x \<in> set st \<Longrightarrow> \<forall>x. Unwrap x \<in> set ds \<longrightarrow> x \<in> set st \<Longrightarrow>
     wire deps ok fuel ds st \<noteq> WirePanic"
proof (induction fuel arbitrary: ds st)
  case 0
  then show ?case
  proof (induction ds)
    case (Cons d ds)
    then show ?case by (cases d) auto
  qed simp
next
  case (Suc fuel)
  from Suc.prems show ?case
  proof (induction ds arbitrary: st)
    case (Cons d ds)
    show ?case
    proof (cases "dep_component d \<in> set st")
      case True
      then show ?thesis using Cons by (cases d) auto
    next
      case False
      then obtain c where d: "d = Get c" and c: "c \<notin> set st" using Cons.prems(4) by (cases d) auto
      have np: "wire deps ok fuel (deps c) st \<noteq> WirePanic" using Cons.prems by (intro Suc.IH) auto
      have "wire deps ok (Suc fuel) ds (st1 @ [c]) \<noteq> WirePanic" if 1: "wire deps ok fuel (deps c) st = Wired st1" for st1
      proof -
        note s1 = wire_sound [OF 1 Cons.prems(1)]
        have "c \<notin> set st1" using s1 c deps_rank [of _ c] by (metis DiffI leD)
        then have "wired_ok deps (st1 @ [c])" using s1 by (intro wired_ok_snoc) auto
        moreover have "set st \<subseteq> set (st1 @ [c])" using s1 by (auto dest: set_mono_prefix)
        ultimately show ?thesis using Cons.prems by (intro Cons.IH) auto
      qed
      moreover have "ok c" using Cons.prems(2) by blast
      ultimately show ?thesis using np c by (simp add: d split: wired.split)
    qed
  qed simp
qed

theorem wire_total:
  assumes "wired_ok deps st" and "\<forall>c. ok c" and "\<forall>c x. Unwrap x \<in> set (deps c) \<longrightarrow> x \<in> set st" and "\<forall>x. Unwrap x \<in> set ds \<longrightarrow> x \<in> set st"
    and "\<forall>d \<in> set ds. rank (dep_component d) < fuel"
  shows "\<exists>st'. wire deps ok fuel ds st = Wired st' \<and> prefix st st' \<and> wired_ok deps st' \<and> dep_component ` set ds \<subseteq> set st'"
  using wire_ends [OF assms(5), of ok st] wire_no_panic [OF assms(1-4), of fuel] wire_sound [of ok fuel ds st, OF _ assms(1)]
  by (cases "wire deps ok fuel ds st") auto

end


section \<open>The environment\<close>





section \<open>The block builder\<close>

datatype builder_component =
    BArgs | BCfg | BSigner | BRelay | BPubApi | BBeaconHeadState | BBuilder | BCl | BEl | BBeaconSlot | BHeadState | BHashPool
  | BSimulator | BStore | BTxPool | BBlockReports | BTxFetcher | BSrv | BBuildService

definition build_service_deps :: "builder_component dep list" where
  "build_service_deps = [Get BCfg, Get BBeaconHeadState, Get BRelay, Get BBuilder, Get BBeaconSlot, Get BStore, Get BTxPool]"

definition analyzer_deps :: "builder_component dep list" where
  "analyzer_deps = [Get BBeaconSlot, Get BHeadState, Get BHashPool, Get BEl, Get BBlockReports]"

definition public_api_deps :: "builder_component dep list" where
  "public_api_deps =
     [Get BCfg, Get BSigner, Get BHeadState, Get BSimulator, Get BEl, Get BTxPool, Get BStore, Get BBuildService, Get BBeaconSlot, Get BArgs]"

definition builder_server_deps :: "builder_component dep list" where
  "builder_server_deps = [Get BCfg, Get BArgs, Get BPubApi]"

fun builder_deps :: "builder_component \<Rightarrow> builder_component dep list" where
  "builder_deps BArgs = []"
| "builder_deps BCfg = [Get BArgs]"
| "builder_deps BSigner = [Get BCfg]"
| "builder_deps BRelay = [Get BBeaconSlot, Get BCfg]"
| "builder_deps BEl = [Get BCfg]"
| "builder_deps BBeaconHeadState = [Get BHeadState, Get BBeaconSlot, Get BCl]"
| "builder_deps BCl = [Get BCfg]"
| "builder_deps BBeaconSlot = [Get BCl, Get BCfg]"
| "builder_deps BHeadState = [Get BCfg]"
| "builder_deps BBuilder = [Get BCfg, Get BEl, Get BSimulator]"
| "builder_deps BSimulator = [Get BCfg, Get BEl]"
| "builder_deps BTxPool = [Get BCfg, Get BSigner]"
| "builder_deps BHashPool = [Get BCfg]"
| "builder_deps BTxFetcher = [Get BCfg, Get BSigner, Get BHashPool, Get BArgs]"
| "builder_deps BStore = [Get BCfg]"
| "builder_deps BBuildService = build_service_deps"
| "builder_deps BBlockReports = []"
| "builder_deps BPubApi = public_api_deps"
| "builder_deps BSrv = builder_server_deps"


text \<open>What \<open>run\<close> gets after it has set the arguments: the configuration and the components of its threads.\<close>

definition builder_run :: "bool \<Rightarrow> builder_component dep list" where
  "builder_run disable_build =
     [Get BCfg, Get BTxFetcher, Get BTxPool, Get BBeaconSlot, Get BHeadState] @ analyzer_deps @ [Get BCfg] @
     (if disable_build then [] else [Get BBuildService]) @ [Get BSrv]"

fun builder_rank :: "builder_component \<Rightarrow> nat" where
  "builder_rank BArgs = 0" | "builder_rank BBlockReports = 0" | "builder_rank BCfg = 1" | "builder_rank BSigner = 2"
| "builder_rank BEl = 2" | "builder_rank BCl = 2" | "builder_rank BHeadState = 2" | "builder_rank BHashPool = 2" | "builder_rank BStore = 2"
| "builder_rank BBeaconSlot = 3" | "builder_rank BSimulator = 3" | "builder_rank BTxPool = 3" | "builder_rank BTxFetcher = 3"
| "builder_rank BRelay = 4" | "builder_rank BBeaconHeadState = 4" | "builder_rank BBuilder = 4" | "builder_rank BBuildService = 5"
| "builder_rank BPubApi = 6" | "builder_rank BSrv = 7"

lemmas builder_deps_defs = build_service_deps_def analyzer_deps_def public_api_deps_def builder_server_deps_def

interpretation bw: service_wiring builder_deps builder_rank
proof
  fix d c
  show "d \<in> set (builder_deps c) \<Longrightarrow> builder_rank (dep_component d) < builder_rank c"
    by (cases c) (auto simp: builder_deps_defs)
qed

section \<open>The mempool\<close>

datatype mempool_component =
    MArgs | MCfg | MHeadState | MSigner | MTxFetcher | MHashPool | MApi | MSrv | MBeaconSlot | MEl | MTxPool | MStore | MSimulator

definition mempool_api_deps :: "mempool_component dep list" where
  "mempool_api_deps =
     [Get MCfg, Get MBeaconSlot, Get MHeadState, Get MSigner, Get MTxPool, Get MEl, Get MStore, Get MSimulator]"

text \<open>There is no getter of the arguments.\<close>

fun mempool_deps :: "mempool_component \<Rightarrow> mempool_component dep list" where
  "mempool_deps MArgs = []"
| "mempool_deps MCfg = [Unwrap MArgs]"
| "mempool_deps MHeadState = [Get MCfg]"
| "mempool_deps MSigner = [Get MCfg]"
| "mempool_deps MTxFetcher = [Get MSigner, Get MCfg, Get MHashPool]"
| "mempool_deps MHashPool = [Get MCfg]"
| "mempool_deps MSrv = [Get MApi, Get MCfg, Unwrap MArgs]"
| "mempool_deps MBeaconSlot = [Get MCfg]"
| "mempool_deps MTxPool = [Get MSigner]"
| "mempool_deps MEl = [Get MCfg]"
| "mempool_deps MStore = [Get MCfg]"
| "mempool_deps MSimulator = [Get MCfg, Get MEl]"
| "mempool_deps MApi = mempool_api_deps"


definition mempool_run :: "mempool_component dep list" where
  "mempool_run = [Get MSrv, Get MHeadState, Get MTxPool]"



section \<open>The pool aggregator\<close>

datatype aggregator_component =
  GArgs | GCfg | GSigner | GHeadState | GHashPool | GEl | GApi | GSimulator | GTxFetcher | GSrv

definition aggregator_api_deps :: "aggregator_component dep list" where
  "aggregator_api_deps = [Get GHashPool]"

fun aggregator_deps :: "aggregator_component \<Rightarrow> aggregator_component dep list" where
  "aggregator_deps GArgs = []"
| "aggregator_deps GCfg = [Unwrap GArgs]"
| "aggregator_deps GHeadState = [Get GCfg]"
| "aggregator_deps GHashPool = [Get GCfg]"
| "aggregator_deps GSimulator = [Get GCfg, Get GEl]"
| "aggregator_deps GSrv = [Get GApi, Unwrap GArgs]"
| "aggregator_deps GTxFetcher = [Get GCfg, Get GSigner, Get GHashPool]"
| "aggregator_deps GSigner = [Get GCfg]"
| "aggregator_deps GEl = [Get GCfg]"
| "aggregator_deps GApi = aggregator_api_deps"






section \<open>Starting the services\<close>

lemma wired_ok_args: "deps c = [] \<Longrightarrow> wired_ok deps [c]"
  by (auto simp: wired_ok_def Cons_eq_append_conv)




lemma mempool_unwraps: "Unwrap x \<in> set (mempool_deps c) \<Longrightarrow> x = MArgs"
  by (cases c) (auto simp: mempool_api_deps_def)

lemma aggregator_unwraps: "Unwrap x \<in> set (aggregator_deps c) \<Longrightarrow> x = GArgs"
  by (cases c) (auto simp: aggregator_api_deps_def)

lemma builder_unwraps: "Unwrap x \<notin> set (builder_deps c)"
  by (cases c) (auto simp: builder_deps_defs)







text \<open>Before the arguments are set the mempool cannot start.\<close>

lemma mempool_start_unset: "wire mempool_deps ok 8 mempool_run [] = WirePanic"
  by (simp add: mempool_run_def mempool_api_deps_def eval_nat_numeral)

text \<open>The public interface needs the build service, which is constructed even if building is disabled.\<close>

theorem disabled_build_still_constructed:
  "wire builder_deps ok 8 (builder_run True) [BArgs] = Wired st \<Longrightarrow> BBuildService \<in> set st"
proof -
  assume run: "wire builder_deps ok 8 (builder_run True) [BArgs] = Wired st"
  have "wired_ok builder_deps st" "BSrv \<in> set st"
    using bw.wire_sound [OF run wired_ok_args] by (auto simp: builder_run_def)
  moreover have needs: "dep_component ` set (builder_deps c) \<subseteq> set st" if "c \<in> set st" for c
    using that calculation(1) unfolding wired_ok_def by (metis in_set_conv_decomp set_append le_supI1 Un_iff subset_iff)
  ultimately have "BPubApi \<in> set st" using needs [of BSrv] by (simp add: builder_deps_defs)
  then show ?thesis using needs [of BPubApi] by (simp add: builder_deps_defs)
qed

end
